(* ===== verification/Plc_Prelude.thy ===== *)
theory Plc_Prelude
  imports Main "HOL-Library.Word"
begin

text \<open>
  Shared vocabulary of the soft PLC development: names for the C integer types, byte
  buffers with the slice operations \<open>memcpy\<close> and \<open>memset\<close> perform on them, and the
  facts on words the components share.

  Conventions used in every theory.
  \<^item> \<open>uint8_t\<close>, \<open>uint16_t\<close>, \<open>uint32_t\<close>, \<open>uint64_t\<close> and \<open>size_t\<close> (64 bits) are words;
    \<open>int16_t\<close> and \<open>int64_t\<close> are words read through \<^const>\<open>sint\<close>.
  \<^item> A byte array is a \<open>byte list\<close>. A buffer argument that may be \<open>NULL\<close> is a
    \<open>byte list option\<close>. A copy past the end of its source or target would change the
    length of the list, so the length facts below are also the memory-safety facts.
  \<^item> A handle (\<open>pi\<close>, \<open>rt\<close>, \<open>r\<close>, \<open>fb\<close>, \<open>self\<close>) is the object it points to: the early
    return on a \<open>NULL\<close> handle is the one branch with no counterpart in the model.
  \<^item> Operations return the updated object, first their status where they have one.
  \<^item> Log output is not modelled.
\<close>

type_synonym byte = "8 word"
type_synonym u8 = "8 word"
type_synonym u16 = "16 word"
type_synonym u32 = "32 word"
type_synonym u64 = "64 word"
type_synonym size_t = "64 word"

named_theorems buf_simps "lengths and reads of byte buffers"
named_theorems plc_defs "definitions unfolded together by component proofs"

subsection \<open>Slices of byte buffers\<close>

text \<open>\<open>put_slice off src dst\<close> is \<open>memcpy(dst + off, src, length src)\<close>.\<close>

definition put_slice :: "nat \<Rightarrow> 'a list \<Rightarrow> 'a list \<Rightarrow> 'a list" where
  "put_slice off src dst = take off dst @ src @ drop (off + length src) dst"

definition get_slice :: "nat \<Rightarrow> nat \<Rightarrow> 'a list \<Rightarrow> 'a list" where
  "get_slice off len xs = take len (drop off xs)"

text \<open>\<open>fit n xs\<close> truncates \<open>xs\<close> to \<open>n\<close> bytes or extends it with zero bytes.\<close>

definition fit :: "nat \<Rightarrow> byte list \<Rightarrow> byte list" where
  "fit n xs = take n xs @ replicate (n - length xs) 0"

text \<open>\<open>snprintf(buf, n, "%s", s)\<close>: the string that fits, without its terminator.\<close>

definition snprintf_s :: "nat \<Rightarrow> string \<Rightarrow> string" where
  "snprintf_s n s = take (n - 1) s"

lemma length_put_slice [buf_simps]:
  "off + length src \<le> length dst \<Longrightarrow> length (put_slice off src dst) = length dst"
  by (simp add: put_slice_def)

lemma put_slice_all [simp]: "length src = length dst \<Longrightarrow> put_slice 0 src dst = src"
  by (simp add: put_slice_def)

lemma put_slice_nil [simp]: "put_slice off [] dst = dst"
  by (simp add: put_slice_def)

lemma length_get_slice [buf_simps]:
  "off + len \<le> length xs \<Longrightarrow> length (get_slice off len xs) = len"
  by (simp add: get_slice_def)

lemma nth_put_slice:
  assumes "off + length src \<le> length dst" and "i < length dst"
  shows "put_slice off src dst ! i =
    (if off \<le> i \<and> i < off + length src then src ! (i - off) else dst ! i)"
  using assms by (auto simp: put_slice_def nth_append min_def)

lemma nth_get_slice: "off + len \<le> length xs \<Longrightarrow> i < len \<Longrightarrow> get_slice off len xs ! i = xs ! (off + i)"
  by (simp add: get_slice_def)

lemma get_put_slice [buf_simps]:
  "off + length src \<le> length dst \<Longrightarrow> get_slice off (length src) (put_slice off src dst) = src"
  by (simp add: get_slice_def put_slice_def)

lemma get_put_slice_disjoint:
  assumes "off + length src \<le> length dst" and "o2 + n2 \<le> length dst"
    and "o2 + n2 \<le> off \<or> off + length src \<le> o2"
  shows "get_slice o2 n2 (put_slice off src dst) = get_slice o2 n2 dst"
proof (rule nth_equalityI)
  show "length (get_slice o2 n2 (put_slice off src dst)) = length (get_slice o2 n2 dst)"
    using assms by (simp add: buf_simps)
next
  fix i assume "i < length (get_slice o2 n2 (put_slice off src dst))"
  with assms have "i < n2" by (simp add: buf_simps)
  with assms show "get_slice o2 n2 (put_slice off src dst) ! i = get_slice o2 n2 dst ! i"
    by (auto simp: buf_simps nth_get_slice nth_put_slice)
qed

lemma length_fit [simp]: "length (fit n xs) = n"
  by (simp add: fit_def)

lemma nth_fit: "i < n \<Longrightarrow> fit n xs ! i = (if i < length xs then xs ! i else 0)"
  by (auto simp: fit_def nth_append min_def)

lemma fit_same [simp]: "length xs = n \<Longrightarrow> fit n xs = xs"
  by (simp add: fit_def)

subsection \<open>Little-endian composition and single bits\<close>

unbundle bit_operations_syntax

lemma mask8: "(0xFF :: 'a::len word) = mask 8"
  by (simp add: mask_eq_exp_minus_1)

lemma le16_join_split:
  "ucast (ucast (v AND 0xFF) :: u8) OR push_bit 8 (ucast (ucast (drop_bit 8 v) :: u8)) = (v :: u16)"
  unfolding mask8 by (rule bit_word_eqI) (auto simp: bit_simps)

lemma le32_join_split:
  "ucast (ucast (v AND 0xFF) :: u8) OR push_bit 8 (ucast (ucast (drop_bit 8 v AND 0xFF) :: u8))
   OR push_bit 16 (ucast (ucast (drop_bit 16 v AND 0xFF) :: u8))
   OR push_bit 24 (ucast (ucast (drop_bit 24 v AND 0xFF) :: u8)) = (v :: u32)" (is "?l = _")
proof (rule bit_word_eqI)
  fix n :: nat assume n: "n < LENGTH(32)"
  consider "n < 8" | "8 \<le> n" "n < 16" | "16 \<le> n" "n < 24" | "24 \<le> n" using n by fastforce
  then show "bit ?l n = bit v n"
    unfolding mask8 using n by cases (simp_all add: bit_simps less_diff_conv2)
qed

lemma bit_set_bit8: "n < 8 \<Longrightarrow> bit (x OR push_bit n (1 :: u8)) m \<longleftrightarrow> bit x m \<or> m = n"
  by (auto simp: bit_simps)

lemma bit_clear_bit8: "n < 8 \<Longrightarrow> bit (x AND NOT (push_bit n (1 :: u8))) m \<longleftrightarrow> bit x m \<and> m \<noteq> n"
  using bit_imp_le_length [of x m] by (auto simp: bit_simps)

lemma test_bit8: "(drop_bit n (x :: u8) AND 1) \<noteq> 0 \<longleftrightarrow> bit x n"
  by (simp add: bit_iff_odd_drop_bit and_one_eq odd_iff_mod_2_eq_one)

lemma unat_ucast_32_64 [simp]: "unat (ucast (y :: u32) :: u64) = unat y"
proof -
  have "unat y < 2 ^ 64" using unsigned_less [of y, where ?'a = nat] by simp
  then show ?thesis by (simp add: unsigned_ucast_eq take_bit_nat_eq_self)
qed

lemma unat_suc_less:
  fixes x y :: "'a::len word"
  assumes "x < y"
  shows "unat (x + 1) = Suc (unat x)"
proof -
  have "unat x < unat y" "unat y < 2 ^ LENGTH('a)"
    using assms by (simp_all add: word_less_nat_alt)
  then have "Suc (unat x) < 2 ^ LENGTH('a)" by linarith
  then show ?thesis by (simp add: unat_word_ariths)
qed

lemma sint_bounds64: "- (2 ^ 63) \<le> sint (x :: 64 word)" "sint (x :: 64 word) < 2 ^ 63"
  using sint_greater_eq [of x] sint_less [of x] by simp_all

lemma sint_add64:
  "- (2 ^ 63) \<le> sint (x :: 64 word) + sint y \<Longrightarrow> sint x + sint y < 2 ^ 63 \<Longrightarrow>
   sint (x + y) = sint x + sint y"
  by (simp add: sint_word_add signed_take_bit_int_eq_self)

end
