(* ===== verification/Plc_Types.thy ===== *)
theory Plc_Types
  imports Plc_Prelude
begin

text \<open>
  \<open>plc_status.h\<close>, \<open>plc_types.h\<close> and \<open>core/plc_types.c\<close>: the status codes every component
  returns, and the table of IEC 61131-3 elementary types.
\<close>

datatype plc_status =
    PLC_OK | PLC_ERR_INVAL | PLC_ERR_NOMEM | PLC_ERR_IO | PLC_ERR_TIMEOUT | PLC_ERR_PROTO
  | PLC_ERR_STATE | PLC_ERR_UNSUPPORTED | PLC_ERR_AGAIN | PLC_ERR_NOTFOUND

text \<open>The enumerators' values, as C sees them.\<close>

fun status_value :: "plc_status \<Rightarrow> int" where
  "status_value PLC_OK = 0"
| "status_value PLC_ERR_INVAL = -1"
| "status_value PLC_ERR_NOMEM = -2"
| "status_value PLC_ERR_IO = -3"
| "status_value PLC_ERR_TIMEOUT = -4"
| "status_value PLC_ERR_PROTO = -5"
| "status_value PLC_ERR_STATE = -6"
| "status_value PLC_ERR_UNSUPPORTED = -7"
| "status_value PLC_ERR_AGAIN = -8"
| "status_value PLC_ERR_NOTFOUND = -9"

text \<open>
  \<open>plc_strerror\<close> switches on the value, so it is total over every integer a caller may have
  cast to the enumeration.
\<close>

definition plc_strerror :: "int \<Rightarrow> string" where
  "plc_strerror st =
     (if st = 0 then ''ok''
      else if st = -1 then ''invalid argument''
      else if st = -2 then ''out of memory''
      else if st = -3 then ''transport error''
      else if st = -4 then ''timeout''
      else if st = -5 then ''protocol or ABI mismatch''
      else if st = -6 then ''invalid state''
      else if st = -7 then ''unsupported''
      else if st = -8 then ''would block''
      else if st = -9 then ''not found''
      else ''unknown error'')"

definition PLC_TYPE__COUNT :: int where
  "PLC_TYPE__COUNT = 16"

text \<open>\<open>kTypes\<close>, indexed by \<open>plc_type_id_t\<close>.\<close>

definition kTypes :: "(string \<times> nat) list" where
  "kTypes =
     [(''BOOL'', 1), (''SINT'', 8), (''INT'', 16), (''DINT'', 32), (''LINT'', 64),
      (''USINT'', 8), (''UINT'', 16), (''UDINT'', 32), (''ULINT'', 64),
      (''REAL'', 32), (''LREAL'', 64),
      (''BYTE'', 8), (''WORD'', 16), (''DWORD'', 32), (''LWORD'', 64), (''TIME'', 64)]"

definition plc_type_bits :: "int \<Rightarrow> nat" where
  "plc_type_bits i =
     (if i \<ge> 0 \<and> i < PLC_TYPE__COUNT then snd (kTypes ! nat i) else 0)"

definition plc_type_name :: "int \<Rightarrow> string" where
  "plc_type_name i =
     (if i \<ge> 0 \<and> i < PLC_TYPE__COUNT then fst (kTypes ! nat i) else ''<invalid>'')"

lemma length_kTypes: "int (length kTypes) = PLC_TYPE__COUNT"
  by (simp add: kTypes_def PLC_TYPE__COUNT_def)

lemma kTypes_bits: "\<forall>t \<in> set kTypes. snd t \<in> {1, 8, 16, 32, 64}"
  by (simp add: kTypes_def)

lemma status_value_inj: "status_value a = status_value b \<Longrightarrow> a = b"
  by (cases a; cases b) simp_all

end
