(* ===== verification/Process_Image.thy ===== *)
theory Process_Image
  imports Plc_Types
begin

text \<open>
  \<open>process_image.h\<close> and \<open>core/process_image.c\<close>: the three byte areas %I, %Q and %M and
  their range-checked accessors.

  An area index is the integer value of the C enumeration, so that the range check of
  \<open>area_ok\<close> has something to reject. Offsets and lengths are 64-bit words: the check in
  \<open>slot\<close> is written to be safe against overflow and is modelled with the machine's
  subtraction. A \<open>PLC_REAL\<close> is its 32-bit pattern, which is all the code touches.
\<close>


subsection \<open>State\<close>

type_synonym plc_area = int
type_synonym plc_real = u32

abbreviation (input) PLC_AREA_I :: plc_area where "PLC_AREA_I \<equiv> 0"
abbreviation (input) PLC_AREA_Q :: plc_area where "PLC_AREA_Q \<equiv> 1"
abbreviation (input) PLC_AREA_M :: plc_area where "PLC_AREA_M \<equiv> 2"
abbreviation (input) PLC_AREA__COUNT :: int where "PLC_AREA__COUNT \<equiv> 3"

record plc_process_image =
  area :: "plc_area \<Rightarrow> byte list option"
  pi_size :: "plc_area \<Rightarrow> size_t"
  owns_memory :: bool

definition pi_zero :: plc_process_image where
  "pi_zero = \<lparr>area = (\<lambda>_. None), pi_size = (\<lambda>_. 0), owns_memory = False\<rparr>"

definition area_ok :: "plc_process_image \<Rightarrow> plc_area \<Rightarrow> bool" where
  "area_ok pi a \<longleftrightarrow> a \<ge> 0 \<and> a < PLC_AREA__COUNT \<and> area pi a \<noteq> None"

text \<open>The offset of the cell inside its area, or \<open>None\<close> for the C code's \<open>NULL\<close>.\<close>

definition slot :: "plc_process_image \<Rightarrow> plc_area \<Rightarrow> size_t \<Rightarrow> size_t \<Rightarrow> nat option" where
  "slot pi a off len =
     (if \<not> area_ok pi a then None
      else if off > pi_size pi a \<or> len > pi_size pi a - off then None
      else Some (unat off))"

text \<open>The bytes behind an area's base pointer, and a store of some bytes at an offset.\<close>

definition base :: "plc_process_image \<Rightarrow> plc_area \<Rightarrow> byte list" where
  "base pi a = (case area pi a of None \<Rightarrow> [] | Some bs \<Rightarrow> bs)"

definition poke :: "plc_process_image \<Rightarrow> plc_area \<Rightarrow> nat \<Rightarrow> byte list \<Rightarrow> plc_process_image" where
  "poke pi a p bs = pi\<lparr>area := (area pi)(a := Some (put_slice p bs (base pi a)))\<rparr>"

subsection \<open>Lifecycle\<close>

text \<open>
  \<open>h\<close> counts the live heap blocks, so that a leak on the failure path would show.
  \<open>alloc a\<close> says whether the \<open>calloc\<close> for area \<open>a\<close> succeeds.
\<close>

definition plc_pi_free :: "nat \<Rightarrow> plc_process_image \<Rightarrow> nat \<times> plc_process_image" where
  "plc_pi_free h pi =
     ((if owns_memory pi
       then h - length (filter (\<lambda>a. area pi a \<noteq> None) [PLC_AREA_I, PLC_AREA_Q, PLC_AREA_M]) else h),
      pi_zero)"

fun pi_init_areas ::
  "(plc_area \<Rightarrow> bool) \<Rightarrow> nat \<Rightarrow> plc_process_image \<Rightarrow> (plc_area \<times> size_t) list
   \<Rightarrow> plc_status \<times> nat \<times> plc_process_image" where
  "pi_init_areas alloc h pi [] = (PLC_OK, h, pi)"
| "pi_init_areas alloc h pi ((a, want) # rest) =
     (if \<not> alloc a then (PLC_ERR_NOMEM, plc_pi_free h pi)
      else pi_init_areas alloc (Suc h)
             (pi\<lparr>area := (area pi)(a := Some (replicate (if want \<noteq> 0 then unat want else 1) 0)),
                 pi_size := (pi_size pi)(a := want)\<rparr>) rest)"

definition plc_pi_init ::
  "(plc_area \<Rightarrow> bool) \<Rightarrow> nat \<Rightarrow> size_t \<Rightarrow> size_t \<Rightarrow> size_t
   \<Rightarrow> plc_status \<times> nat \<times> plc_process_image" where
  "plc_pi_init alloc h i_bytes q_bytes m_bytes =
     pi_init_areas alloc h (pi_zero\<lparr>owns_memory := True\<rparr>)
       [(PLC_AREA_I, i_bytes), (PLC_AREA_Q, q_bytes), (PLC_AREA_M, m_bytes)]"

definition plc_pi_clear :: "plc_process_image \<Rightarrow> plc_area \<Rightarrow> plc_status \<times> plc_process_image" where
  "plc_pi_clear pi a =
     (if \<not> area_ok pi a then (PLC_ERR_INVAL, pi)
      else (PLC_OK, poke pi a 0 (replicate (unat (pi_size pi a)) 0)))"

definition plc_pi_area :: "plc_process_image \<Rightarrow> plc_area \<Rightarrow> byte list option" where
  "plc_pi_area pi a = (if area_ok pi a then area pi a else None)"

definition plc_pi_area_size :: "plc_process_image \<Rightarrow> plc_area \<Rightarrow> size_t" where
  "plc_pi_area_size pi a = (if area_ok pi a then pi_size pi a else 0)"

subsection \<open>Accessors\<close>

definition plc_pi_get_bit :: "plc_process_image \<Rightarrow> plc_area \<Rightarrow> size_t \<Rightarrow> u32 \<Rightarrow> bool" where
  "plc_pi_get_bit pi a byt b =
     (case slot pi a byt 1 of
        None \<Rightarrow> False
      | Some p \<Rightarrow> if b > 7 then False
                  else (drop_bit (unat b) (base pi a ! p) AND 1) \<noteq> 0)"

definition plc_pi_set_bit ::
  "plc_process_image \<Rightarrow> plc_area \<Rightarrow> size_t \<Rightarrow> u32 \<Rightarrow> bool \<Rightarrow> plc_process_image" where
  "plc_pi_set_bit pi a byt b v =
     (case slot pi a byt 1 of
        None \<Rightarrow> pi
      | Some p \<Rightarrow> if b > 7 then pi
                  else poke pi a p
                    [if v then base pi a ! p OR push_bit (unat b) 1
                     else base pi a ! p AND NOT (push_bit (unat b) 1)])"

definition plc_pi_get_byte :: "plc_process_image \<Rightarrow> plc_area \<Rightarrow> size_t \<Rightarrow> u8" where
  "plc_pi_get_byte pi a off =
     (case slot pi a off 1 of None \<Rightarrow> 0 | Some p \<Rightarrow> base pi a ! p)"

definition plc_pi_set_byte ::
  "plc_process_image \<Rightarrow> plc_area \<Rightarrow> size_t \<Rightarrow> u8 \<Rightarrow> plc_process_image" where
  "plc_pi_set_byte pi a off v =
     (case slot pi a off 1 of None \<Rightarrow> pi | Some p \<Rightarrow> poke pi a p [v])"

definition plc_pi_get_word :: "plc_process_image \<Rightarrow> plc_area \<Rightarrow> size_t \<Rightarrow> u16" where
  "plc_pi_get_word pi a off =
     (case slot pi a off 2 of
        None \<Rightarrow> 0
      | Some p \<Rightarrow> ucast (base pi a ! p) OR push_bit 8 (ucast (base pi a ! (p + 1))))"

definition plc_pi_set_word ::
  "plc_process_image \<Rightarrow> plc_area \<Rightarrow> size_t \<Rightarrow> u16 \<Rightarrow> plc_process_image" where
  "plc_pi_set_word pi a off v =
     (case slot pi a off 2 of
        None \<Rightarrow> pi
      | Some p \<Rightarrow> poke pi a p [ucast (v AND 0xFF), ucast (drop_bit 8 v)])"

definition plc_pi_get_dword :: "plc_process_image \<Rightarrow> plc_area \<Rightarrow> size_t \<Rightarrow> u32" where
  "plc_pi_get_dword pi a off =
     (case slot pi a off 4 of
        None \<Rightarrow> 0
      | Some p \<Rightarrow> ucast (base pi a ! p) OR push_bit 8 (ucast (base pi a ! (p + 1)))
          OR push_bit 16 (ucast (base pi a ! (p + 2)))
          OR push_bit 24 (ucast (base pi a ! (p + 3))))"

definition plc_pi_set_dword ::
  "plc_process_image \<Rightarrow> plc_area \<Rightarrow> size_t \<Rightarrow> u32 \<Rightarrow> plc_process_image" where
  "plc_pi_set_dword pi a off v =
     (case slot pi a off 4 of
        None \<Rightarrow> pi
      | Some p \<Rightarrow> poke pi a p
          [ucast (v AND 0xFF), ucast (drop_bit 8 v AND 0xFF),
           ucast (drop_bit 16 v AND 0xFF), ucast (drop_bit 24 v AND 0xFF)])"

definition plc_pi_get_real :: "plc_process_image \<Rightarrow> plc_area \<Rightarrow> size_t \<Rightarrow> plc_real" where
  "plc_pi_get_real pi a off = (let bits = plc_pi_get_dword pi a off in bits)"

definition plc_pi_set_real ::
  "plc_process_image \<Rightarrow> plc_area \<Rightarrow> size_t \<Rightarrow> plc_real \<Rightarrow> plc_process_image" where
  "plc_pi_set_real pi a off v = (let bits = v in plc_pi_set_dword pi a off bits)"

definition plc_pi_write ::
  "plc_process_image \<Rightarrow> plc_area \<Rightarrow> size_t \<Rightarrow> byte list option \<Rightarrow> size_t
   \<Rightarrow> plc_status \<times> plc_process_image" where
  "plc_pi_write pi a off src len =
     (case (slot pi a off len, src) of
        (Some p, Some bs) \<Rightarrow> (PLC_OK, poke pi a p (take (unat len) bs))
      | _ \<Rightarrow> (PLC_ERR_INVAL, pi))"

definition plc_pi_read ::
  "plc_process_image \<Rightarrow> plc_area \<Rightarrow> size_t \<Rightarrow> byte list option \<Rightarrow> size_t
   \<Rightarrow> plc_status \<times> byte list option" where
  "plc_pi_read pi a off dst len =
     (case (slot pi a off len, dst) of
        (Some p, Some bs) \<Rightarrow>
          (PLC_OK, Some (put_slice 0 (get_slice p (unat len) (base pi a)) bs))
      | _ \<Rightarrow> (PLC_ERR_INVAL, dst))"


subsection \<open>Well-formed images\<close>

text \<open>
  Every area is allocated, with its configured size or one byte when that size is zero.
\<close>

definition pi_wf :: "plc_process_image \<Rightarrow> bool" where
  "pi_wf pi = list_all (\<lambda>a. case area pi a of None \<Rightarrow> False
       | Some bs \<Rightarrow> length bs = max 1 (unat (pi_size pi a)))
     [PLC_AREA_I, PLC_AREA_Q, PLC_AREA_M]"

abbreviation in_range :: "plc_area \<Rightarrow> bool" where
  "in_range a \<equiv> 0 \<le> a \<and> a < PLC_AREA__COUNT"

lemma in_range_cases: "in_range a \<longleftrightarrow> a = 0 \<or> a = 1 \<or> a = 2"
  by auto

lemma pi_wf_iff:
  "pi_wf pi \<longleftrightarrow> (\<forall>a. in_range a \<longrightarrow>
     (\<exists>bs. area pi a = Some bs \<and> length bs = max 1 (unat (pi_size pi a))))"
  unfolding in_range_cases by (auto simp: pi_wf_def split: option.splits)

lemma pi_wf_area_ok: "pi_wf pi \<Longrightarrow> area_ok pi a \<longleftrightarrow> in_range a"
  by (auto simp: pi_wf_def area_ok_def in_range_cases split: option.splits)

lemma pi_wf_length_base [buf_simps]:
  "pi_wf pi \<Longrightarrow> in_range a \<Longrightarrow> length (base pi a) = max 1 (unat (pi_size pi a))"
  by (auto simp: pi_wf_def base_def in_range_cases split: option.splits)

lemma pi_wf_area: "pi_wf pi \<Longrightarrow> in_range a \<Longrightarrow> area pi a = Some (base pi a)"
  by (auto simp: pi_wf_def base_def in_range_cases split: option.splits)

lemma slot_None_bad_area: "\<not> in_range a \<Longrightarrow> slot pi a off len = None"
  by (auto simp: slot_def area_ok_def)

text \<open>
  The subtraction in \<open>slot\<close> cannot wrap where it is evaluated: the check is exactly the
  one over unbounded integers.
\<close>

lemma word_range_check:
  fixes off len n :: "'a::len word"
  shows "(off > n \<or> len > n - off) \<longleftrightarrow> \<not> unat off + unat len \<le> unat n"
proof (cases "off \<le> n")
  case True
  then have "unat (n - off) = unat n - unat off" by (simp add: unat_sub)
  with True show ?thesis by (auto simp: word_less_nat_alt word_le_nat_alt)
next
  case False
  then show ?thesis by (auto simp: word_less_nat_alt word_le_nat_alt)
qed

lemma slot_eq:
  "slot pi a off len =
     (if area_ok pi a \<and> unat off + unat len \<le> unat (pi_size pi a) then Some (unat off) else None)"
  unfolding slot_def word_range_check by simp

lemma slot_SomeD:
  assumes "slot pi a off len = Some p"
  shows "area_ok pi a" "p = unat off" "p + unat len \<le> unat (pi_size pi a)"
  using assms by (auto simp: slot_eq split: if_splits)

lemma poke_simps [simp]:
  "area (poke pi a p bs) a = Some (put_slice p bs (base pi a))"
  "base (poke pi a p bs) a = put_slice p bs (base pi a)"
  "b \<noteq> a \<Longrightarrow> area (poke pi a p bs) b = area pi b"
  "b \<noteq> a \<Longrightarrow> base (poke pi a p bs) b = base pi b"
  "pi_size (poke pi a p bs) = pi_size pi"
  "owns_memory (poke pi a p bs) = owns_memory pi"
  by (simp_all add: poke_def base_def)

lemma area_ok_poke [simp]: "area_ok pi a \<Longrightarrow> area_ok (poke pi a p bs) b = area_ok pi b"
  by (cases "b = a") (simp_all add: area_ok_def)

lemma slot_poke [simp]: "area_ok pi a \<Longrightarrow> slot (poke pi a p bs) b off len = slot pi b off len"
  by (simp add: slot_eq)

lemma poke_wf:
  assumes "pi_wf pi" and "slot pi a off len = Some p" and "length bs \<le> unat len"
  shows "pi_wf (poke pi a p bs)"
proof -
  from slot_SomeD [OF assms(2)] have ok: "area_ok pi a" and p: "p + unat len \<le> unat (pi_size pi a)"
    by auto
  from ok assms(1) have a: "in_range a" by (simp add: pi_wf_area_ok)
  with assms p have len: "length (put_slice p bs (base pi a)) = max 1 (unat (pi_size pi a))"
    by (simp add: buf_simps)
  show ?thesis unfolding pi_wf_iff
  proof (intro allI impI)
    fix b assume b: "in_range b"
    show "\<exists>c. area (poke pi a p bs) b = Some c \<and>
        length c = max 1 (unat (pi_size (poke pi a p bs) b))"
      using len assms(1) b by (cases "b = a") (simp_all add: pi_wf_iff)
  qed
qed

text \<open>Reading one byte of an area after a store.\<close>

lemma nth_poke:
  assumes "pi_wf pi" and "slot pi a off len = Some p" and "length bs \<le> unat len"
    and "in_range b" and "i < length (base pi b)"
  shows "base (poke pi a p bs) b ! i =
    (if b = a \<and> p \<le> i \<and> i < p + length bs then bs ! (i - p) else base pi b ! i)"
proof (cases "b = a")
  case True
  from slot_SomeD [OF assms(2)] assms(1,3,4) True
  have "p + length bs \<le> length (base pi a)" by (simp add: buf_simps)
  with assms(5) True show ?thesis by (simp add: nth_put_slice)
qed simp

subsection \<open>The contract of a range-checked cell\<close>

text \<open>
  What every accessor pair promises its callers: an in-range store reads back, an
  out-of-range read is zero and an out-of-range store is dropped, a store does not reach any
  cell it does not overlap, and the image stays well formed.
\<close>

locale checked_cell =
  fixes get :: "'s \<Rightarrow> int \<Rightarrow> size_t \<Rightarrow> 'v::zero"
    and set :: "'s \<Rightarrow> int \<Rightarrow> size_t \<Rightarrow> 'v \<Rightarrow> 's"
    and ok :: "'s \<Rightarrow> int \<Rightarrow> size_t \<Rightarrow> bool"
    and inv :: "'s \<Rightarrow> bool"
    and width :: nat
  assumes get_set: "inv s \<Longrightarrow> ok s a off \<Longrightarrow> get (set s a off v) a off = v"
    and get_bad: "\<not> ok s a off \<Longrightarrow> get s a off = 0"
    and set_bad: "\<not> ok s a off \<Longrightarrow> set s a off v = s"
    and inv_set: "inv s \<Longrightarrow> inv (set s a off v)"
    and ok_set: "ok (set s a off v) b off' = ok s b off'"
    and get_set_other: "inv s \<Longrightarrow>
      a \<noteq> b \<or> unat off' + width \<le> unat off \<or> unat off + width \<le> unat off' \<Longrightarrow>
      get (set s a off v) b off' = get s b off'"
begin

definition put_cells :: "'s \<Rightarrow> (int \<times> size_t \<times> 'v) list \<Rightarrow> 's" where
  "put_cells s cs = foldl (\<lambda>s (a, off, v). set s a off v) s cs"

fun apart :: "(int \<times> size_t \<times> 'v) \<Rightarrow> (int \<times> size_t \<times> 'v) \<Rightarrow> bool" where
  "apart (a, off, _) (b, off', _) \<longleftrightarrow>
     a \<noteq> b \<or> unat off' + width \<le> unat off \<or> unat off + width \<le> unat off'"

lemma get_set_if: "inv s \<Longrightarrow> get (set s a off v) a off = (if ok s a off then v else 0)"
  using get_set [of s a off v] get_bad [of "set s a off v" a off] by (simp add: ok_set)

lemma put_cells_simps [simp]:
  "put_cells s [] = s"
  "put_cells s ((a, off, v) # cs) = put_cells (set s a off v) cs"
  by (simp_all add: put_cells_def)

lemma inv_put_cells: "inv s \<Longrightarrow> inv (put_cells s cs)"
  by (induction cs arbitrary: s) (auto simp: inv_set)

lemma ok_put_cells: "ok (put_cells s cs) a off = ok s a off"
proof (induction cs arbitrary: s)
  case (Cons c cs)
  then show ?case by (cases c) (simp add: ok_set)
qed simp

lemma get_put_cells_other:
  "inv s \<Longrightarrow> \<forall>c \<in> List.set cs. apart c (a, off, v) \<Longrightarrow> get (put_cells s cs) a off = get s a off"
proof (induction cs arbitrary: s)
  case (Cons c cs)
  obtain a' off' v' where c: "c = (a', off', v')" by (cases c)
  from Cons.prems have "get (put_cells (set s a' off' v') cs) a off = get (set s a' off' v') a off"
    by (intro Cons.IH) (simp_all add: inv_set)
  moreover from Cons.prems c have "get (set s a' off' v') a off = get s a off"
    by (intro get_set_other) auto
  ultimately show ?case by (simp add: c)
qed simp

lemma get_put_cells:
  assumes "inv s" and "pairwise (\<lambda>i j. apart (cs ! i) (cs ! j)) {..<length cs}"
    and "(a, off, v) \<in> List.set cs"
  shows "get (put_cells s cs) a off = (if ok s a off then v else 0)"
  using assms
proof (induction cs arbitrary: s)
  case (Cons c cs)
  obtain a' off' v' where c: "c = (a', off', v')" by (cases c)
  have tail: "pairwise (\<lambda>i j. apart (cs ! i) (cs ! j)) {..<length cs}"
  proof (rule pairwiseI)
    fix i j assume "i \<in> {..<length cs}" "j \<in> {..<length cs}" "i \<noteq> j"
    then show "apart (cs ! i) (cs ! j)"
      using pairwiseD [OF Cons.prems(2), of "Suc i" "Suc j"] by simp
  qed
  have apart: "apart d c" if "d \<in> List.set cs" for d
  proof -
    from that obtain i where "i < length cs" "d = cs ! i" by (auto simp: in_set_conv_nth)
    then show ?thesis using pairwiseD [OF Cons.prems(2), of "Suc i" 0] by simp
  qed
  from Cons.prems(1) have inv': "inv (set s a' off' v')" by (rule inv_set)
  show ?case
  proof (cases "(a, off, v) \<in> List.set cs")
    case True
    from Cons.IH [OF inv' tail True] show ?thesis by (simp add: c ok_set)
  next
    case False
    with Cons.prems(3) c have eq: "a' = a" "off' = off" "v' = v" by auto
    have "\<forall>d \<in> List.set cs. apart d (a, off, v)" using apart c eq by auto
    then show ?thesis
      using get_put_cells_other [OF inv'] Cons.prems(1) by (simp add: c eq get_set_if)
  qed
qed simp

end

subsection \<open>The accessors satisfy the contract\<close>

lemma poke_nth_same:
  assumes "pi_wf pi" and "slot pi a off len = Some p" and "length bs \<le> unat len"
    and "i < length bs"
  shows "base (poke pi a p bs) a ! (p + i) = bs ! i"
proof -
  note s = slot_SomeD [OF assms(2)]
  from s(1) assms(1) have a: "in_range a" by (simp add: pi_wf_area_ok)
  with s(3) assms have "p + i < length (base pi a)" by (simp add: buf_simps)
  with a assms show ?thesis by (subst nth_poke) auto
qed

lemma poke_nth_other:
  assumes "pi_wf pi" and "slot pi a off len = Some p" and "length bs \<le> unat len"
    and "slot pi b off' len' = Some q" and "i < unat len'"
    and "a \<noteq> b \<or> unat off' + unat len' \<le> unat off \<or> unat off + unat len \<le> unat off'"
  shows "base (poke pi a p bs) b ! (q + i) = base pi b ! (q + i)"
proof -
  note s = slot_SomeD [OF assms(2)] and t = slot_SomeD [OF assms(4)]
  from t(1) assms(1) have b: "in_range b" by (simp add: pi_wf_area_ok)
  with t(3) assms have "q + i < length (base pi b)" by (simp add: buf_simps)
  with b assms s t show ?thesis by (subst nth_poke) auto
qed

lemmas poke_nth_other0 = poke_nth_other [where i = 0, simplified]
lemmas poke_nth_same0 = poke_nth_same [where i = 0, simplified]

interpretation byte_cell:
  checked_cell plc_pi_get_byte plc_pi_set_byte "\<lambda>pi a off. slot pi a off 1 \<noteq> None" pi_wf 1
proof (unfold_locales, goal_cases)
  case (1 s a off v)
  then show ?case
    by (auto simp: plc_pi_get_byte_def plc_pi_set_byte_def slot_SomeD(1) poke_nth_same0)
next
  case (4 s a off v)
  then show ?case by (auto simp: plc_pi_set_byte_def poke_wf split: option.split)
next
  case (5 s a off v b off')
  show ?case by (auto simp: plc_pi_set_byte_def slot_SomeD(1) split: option.split)
next
  case (6 s a b off' off v)
  then show ?case
    by (auto simp: plc_pi_get_byte_def plc_pi_set_byte_def slot_SomeD(1) poke_nth_other0
        split: option.split)
qed (auto simp: plc_pi_get_byte_def plc_pi_set_byte_def)

interpretation word_cell:
  checked_cell plc_pi_get_word plc_pi_set_word "\<lambda>pi a off. slot pi a off 2 \<noteq> None" pi_wf 2
proof (unfold_locales, goal_cases)
  case (1 s a off v)
  then obtain p where p: "slot s a off 2 = Some p" by blast
  let ?bs = "[ucast (v AND 0xFF), ucast (drop_bit 8 v)] :: u8 list"
  have "base (poke s a p ?bs) a ! (p + i) = ?bs ! i" if "i < 2" for i
    using that 1 p by (intro poke_nth_same) auto
  from this [of 0] this [of 1] show ?case
    by (simp add: plc_pi_get_word_def plc_pi_set_word_def p slot_SomeD(1) [OF p] le16_join_split)
next
  case (4 s a off v)
  then show ?case by (auto simp: plc_pi_set_word_def poke_wf split: option.split)
next
  case (5 s a off v b off')
  show ?case by (auto simp: plc_pi_set_word_def slot_SomeD(1) split: option.split)
next
  case (6 s a b off' off v)
  then show ?case
    by (auto simp: plc_pi_get_word_def plc_pi_set_word_def slot_SomeD(1) poke_nth_other
        poke_nth_other0 split: option.split simp del: One_nat_def)
qed (auto simp: plc_pi_get_word_def plc_pi_set_word_def)

interpretation dword_cell:
  checked_cell plc_pi_get_dword plc_pi_set_dword "\<lambda>pi a off. slot pi a off 4 \<noteq> None" pi_wf 4
proof (unfold_locales, goal_cases)
  case (1 s a off v)
  then obtain p where p: "slot s a off 4 = Some p" by blast
  let ?bs = "[ucast (v AND 0xFF), ucast (drop_bit 8 v AND 0xFF), ucast (drop_bit 16 v AND 0xFF),
      ucast (drop_bit 24 v AND 0xFF)] :: u8 list"
  have "base (poke s a p ?bs) a ! (p + i) = ?bs ! i" if "i < 4" for i
    using that 1 p by (intro poke_nth_same) auto
  from this [of 0] this [of 1] this [of 2] this [of 3] show ?case
    by (simp add: plc_pi_get_dword_def plc_pi_set_dword_def p slot_SomeD(1) [OF p] le32_join_split)
next
  case (4 s a off v)
  then show ?case by (auto simp: plc_pi_set_dword_def poke_wf split: option.split)
next
  case (5 s a off v b off')
  show ?case by (auto simp: plc_pi_set_dword_def slot_SomeD(1) split: option.split)
next
  case (6 s a b off' off v)
  then show ?case
    by (auto simp: plc_pi_get_dword_def plc_pi_set_dword_def slot_SomeD(1) poke_nth_other
        poke_nth_other0 split: option.split simp del: One_nat_def add_2_eq_Suc')
qed (auto simp: plc_pi_get_dword_def plc_pi_set_dword_def)

subsection \<open>Properties\<close>

text \<open>
  C22: The bounds check of every accessor is exact and cannot be defeated by overflow: a cell
  is addressable just when its area exists and offset plus length, taken as unbounded
  integers, stay within the configured size, and an addressable cell lies inside the
  allocated bytes.
\<close>

theorem slot_exact:
  assumes "pi_wf pi"
  shows "slot pi a off len =
      (if in_range a \<and> unat off + unat len \<le> unat (pi_size pi a) then Some (unat off) else None)
    \<and> (\<forall>p. slot pi a off len = Some p \<longrightarrow> p + unat len \<le> length (base pi a))"
  using assms by (auto simp: slot_eq pi_wf_area_ok pi_wf_length_base)

text \<open>A concrete image: 2 bytes of %I, 8 of %Q and no %M, with some data in %Q.\<close>

definition demo_image :: plc_process_image where
  "demo_image =
     \<lparr>area = (\<lambda>_. None)(0 := Some [1, 2], 1 := Some [0, 0, 0, 0, 5, 6, 7, 8], 2 := Some [0]),
      pi_size = (\<lambda>_. 0)(0 := 2, 1 := 8), owns_memory = True\<rparr>"

lemma demo_image_wf: "pi_wf demo_image"
  by (simp add: pi_wf_def demo_image_def)

lemma demo_image_simps:
  "pi_size demo_image 0 = 2" "pi_size demo_image 1 = 8" "pi_size demo_image 2 = 0"
  "base demo_image 0 = [1, 2]" "base demo_image 1 = [0, 0, 0, 0, 5, 6, 7, 8]"
  by (simp_all add: demo_image_def base_def)

theorem slot_exact_witness:
  "slot demo_image 1 4 4 = Some 4 \<and> slot demo_image 1 4 0xFFFFFFFFFFFFFFFF = None
   \<and> 4 + unat (4 :: size_t) \<le> length (base demo_image 1)"
  using slot_exact [of demo_image 1 4 4] slot_exact [of demo_image 1 4 "0xFFFFFFFFFFFFFFFF"] demo_image_wf
  by (simp add: demo_image_simps)

text \<open>
  C26: Stores of double words (and of REALs, which are stored as their bit pattern) are
  independent: after any sequence of stores to cells that do not overlap, every cell reads
  back exactly the value stored to it, or zero when it is out of range and its store was
  dropped.
\<close>

theorem dword_stores_read_back:
  assumes "pi_wf pi"
    and "pairwise (\<lambda>i j. fst (cs ! i) \<noteq> fst (cs ! j)
           \<or> unat (fst (snd (cs ! j))) + 4 \<le> unat (fst (snd (cs ! i)))
           \<or> unat (fst (snd (cs ! i))) + 4 \<le> unat (fst (snd (cs ! j)))) {..<length cs}"
    and "(a, off, v) \<in> set cs"
  shows "plc_pi_get_dword (foldl (\<lambda>s (a, off, v). plc_pi_set_dword s a off v) pi cs) a off =
     (if in_range a \<and> unat off + 4 \<le> unat (pi_size pi a) then v else 0)"
proof -
  have apart: "dword_cell.apart c d \<longleftrightarrow> fst c \<noteq> fst d \<or> unat (fst (snd d)) + 4 \<le> unat (fst (snd c))
      \<or> unat (fst (snd c)) + 4 \<le> unat (fst (snd d))" for c d :: "int \<times> size_t \<times> u32"
    by (cases c; cases d) simp
  show ?thesis
    using dword_cell.get_put_cells [OF assms(1), of cs a off v] assms
    by (simp add: apart dword_cell.put_cells_def slot_eq pi_wf_area_ok)
qed

theorem dword_stores_read_back_witness:
  "plc_pi_get_dword (foldl (\<lambda>s (a, off, v). plc_pi_set_dword s a off v) demo_image
     [(1, 0, 0xDEADBEEF), (1, 4, 42), (0, 0, 7)]) 1 0 = 0xDEADBEEF"
proof -
  have "pairwise (\<lambda>i j. fst (cs ! i) \<noteq> fst (cs ! j)
           \<or> unat (fst (snd (cs ! j))) + 4 \<le> unat (fst (snd (cs ! i)))
           \<or> unat (fst (snd (cs ! i))) + 4 \<le> unat (fst (snd (cs ! j)))) {..<length cs}"
    if "cs = [(1, 0, 0xDEADBEEF), (1, 4, 42), (0, 0, 7)]" for cs :: "(int \<times> size_t \<times> u32) list"
    unfolding that by (simp add: pairwise_def lessThan_Suc)
  from dword_stores_read_back [OF demo_image_wf this [OF refl], where a = 1 and off = 0
      and v = "0xDEADBEEF"] show ?thesis
    by (simp add: demo_image_simps)
qed

text \<open>
  A single-bit store sets exactly the addressed bit: every other bit of every area is
  unchanged, and a store outside the image or to a bit number above seven changes nothing.
\<close>

lemma set_bit_exact:
  assumes "pi_wf pi" and "in_range c" and "i < length (base pi c)" and "n < 8"
  shows "bit (base (plc_pi_set_bit pi a byt b v) c ! i) n =
    (if c = a \<and> i = unat byt \<and> n = unat b \<and> unat byt < unat (pi_size pi a) then v
     else bit (base pi c ! i) n)"
proof (cases "slot pi a byt 1")
  case None
  then have "\<not> (area_ok pi a \<and> unat byt < unat (pi_size pi a))"
    by (simp add: slot_eq Suc_le_eq split: if_splits)
  with None assms(1,2) show ?thesis by (auto simp: plc_pi_set_bit_def pi_wf_area_ok)
next
  case (Some p)
  note s = slot_SomeD [OF Some]
  show ?thesis
  proof (cases "b > 7")
    case True
    then have "unat b > 7" by (simp add: word_less_nat_alt)
    with assms(4) have "n \<noteq> unat b" by simp
    with True Some show ?thesis by (simp add: plc_pi_set_bit_def)
  next
    case False
    then have b: "unat b < 8" by (simp add: word_less_nat_alt)
    have poke: "base (poke pi a p [x]) c ! i = (if c = a \<and> i = p then x else base pi c ! i)" for x
      using assms Some by (subst nth_poke) auto
    have "base (plc_pi_set_bit pi a byt b v) c ! i =
        (if c = a \<and> i = p then if v then base pi a ! p OR push_bit (unat b) 1
         else base pi a ! p AND NOT (push_bit (unat b) 1) else base pi c ! i)"
      by (simp add: plc_pi_set_bit_def Some False poke del: push_bit_of_1 poke_simps)
    with s b show ?thesis by (simp add: bit_set_bit8 bit_clear_bit8 del: push_bit_of_1)
  qed
qed

text \<open>
  Initialisation is all or nothing. When the three allocations succeed the image is well
  formed, has the requested sizes and reads as zero everywhere; when any of them fails the
  result is the empty image, the status says so, and every block allocated on the way has
  been freed again. Freeing an initialised image returns all three blocks.
\<close>

lemma pi_init_all_or_nothing:
  "plc_pi_init alloc h i q m =
     (if alloc 0 \<and> alloc 1 \<and> alloc 2
      then (PLC_OK, h + 3, snd (snd (plc_pi_init alloc h i q m)))
      else (PLC_ERR_NOMEM, h, pi_zero))
   \<and> (alloc 0 \<and> alloc 1 \<and> alloc 2 \<longrightarrow>
        (let pi = snd (snd (plc_pi_init alloc h i q m)) in
           pi_wf pi \<and> pi_size pi 0 = i \<and> pi_size pi 1 = q \<and> pi_size pi 2 = m
           \<and> (\<forall>a off. plc_pi_get_byte pi a off = 0) \<and> plc_pi_free (h + 3) pi = (h, pi_zero)))"
proof -
  have one: "(if w \<noteq> 0 then unat w else 1) = max 1 (unat w)" for w :: size_t
    using unat_gt_0 [of w] by auto
  have zero: "plc_pi_get_byte pi a off = 0"
    if "area pi = (\<lambda>_. None)(0 := Some (replicate n0 0), 1 := Some (replicate n1 0),
          2 := Some (replicate n2 0))" "pi_wf pi" for pi a off n0 n1 n2
  proof (cases "slot pi a off 1")
    case (Some p)
    note s = slot_SomeD [OF Some]
    then have a: "in_range a" using that by (simp add: pi_wf_area_ok)
    with s that have "p < length (base pi a)" by (simp add: pi_wf_length_base)
    with a that(1) Some show ?thesis by (auto simp: plc_pi_get_byte_def base_def in_range_cases)
  qed (simp add: plc_pi_get_byte_def)
  show ?thesis
    by (auto simp: plc_pi_init_def pi_zero_def plc_pi_free_def pi_wf_def Let_def one intro!: zero)
qed

text \<open>
  A bulk write that fits is readable with a bulk read, and the read fills exactly the
  requested prefix of the caller's buffer. A transfer that does not fit is refused with
  \<open>PLC_ERR_INVAL\<close> and leaves the image (and the caller's buffer) untouched.
\<close>

lemma bulk_write_read:
  assumes "pi_wf pi" and "in_range a" and "unat len \<le> length src" and "unat len \<le> length dst"
  shows "plc_pi_read (snd (plc_pi_write pi a off (Some src) len)) a off (Some dst) len =
      (if unat off + unat len \<le> unat (pi_size pi a)
       then (PLC_OK, Some (take (unat len) src @ drop (unat len) dst))
       else (PLC_ERR_INVAL, Some dst))
    \<and> (\<not> unat off + unat len \<le> unat (pi_size pi a) \<longrightarrow>
         plc_pi_write pi a off (Some src) len = (PLC_ERR_INVAL, pi))"
proof (cases "unat off + unat len \<le> unat (pi_size pi a)")
  case True
  then have s: "slot pi a off len = Some (unat off)" using assms by (simp add: slot_eq pi_wf_area_ok)
  have fits: "unat off + unat len \<le> length (base pi a)"
    using True assms by (simp add: pi_wf_length_base)
  have "get_slice (unat off) (unat len) (put_slice (unat off) (take (unat len) src) (base pi a))
      = take (unat len) src"
    using get_put_slice [of "unat off" "take (unat len) src" "base pi a"] fits assms by simp
  with True s assms show ?thesis
    by (simp add: plc_pi_read_def plc_pi_write_def slot_SomeD(1) [OF s] put_slice_def)
qed (use assms in \<open>simp_all add: plc_pi_read_def plc_pi_write_def slot_eq\<close>)

end
