(* ===== verification/Std_FB.thy ===== *)
theory Std_FB
  imports Plc_Types
begin

text \<open>
  \<open>std_fb.h\<close> and \<open>core/std_fb.c\<close>: the IEC 61131-3 standard function blocks. One record per
  block, one function per \<open>_run\<close>, called once per scan with the elapsed time of the scan.
  A \<open>PLC_TIME\<close> is an \<open>int64_t\<close> and a \<open>PLC_INT\<close> an \<open>int16_t\<close>; both are words whose
  comparisons are signed. The addition in \<open>accumulate\<close> wraps in the model; the facts that use
  its value state that the sum is representable, which is where the C code is defined.
\<close>


subsection \<open>Edge detection and bistables\<close>

type_synonym plc_time = "64 word"
type_synonym plc_int = "16 word"

record plc_r_trig =
  rt_CLK :: bool
  rt_Q :: bool
  rt_m_prev :: bool

record plc_f_trig =
  ft_CLK :: bool
  ft_Q :: bool
  ft_m_prev :: bool

definition plc_r_trig_run :: "plc_r_trig \<Rightarrow> plc_r_trig" where
  "plc_r_trig_run fb =
     (let fb = fb\<lparr>rt_Q := rt_CLK fb \<and> \<not> rt_m_prev fb\<rparr> in fb\<lparr>rt_m_prev := rt_CLK fb\<rparr>)"

definition plc_f_trig_run :: "plc_f_trig \<Rightarrow> plc_f_trig" where
  "plc_f_trig_run fb =
     (let fb = fb\<lparr>ft_Q := \<not> ft_CLK fb \<and> ft_m_prev fb\<rparr> in fb\<lparr>ft_m_prev := ft_CLK fb\<rparr>)"

record plc_rs =
  rs_S :: bool
  rs_R1 :: bool
  rs_Q1 :: bool

record plc_sr =
  sr_S1 :: bool
  sr_R :: bool
  sr_Q1 :: bool

definition plc_rs_run :: "plc_rs \<Rightarrow> plc_rs" where
  "plc_rs_run fb = fb\<lparr>rs_Q1 := \<not> rs_R1 fb \<and> (rs_S fb \<or> rs_Q1 fb)\<rparr>"

definition plc_sr_run :: "plc_sr \<Rightarrow> plc_sr" where
  "plc_sr_run fb = fb\<lparr>sr_Q1 := sr_S1 fb \<or> (\<not> sr_R fb \<and> sr_Q1 fb)\<rparr>"

subsection \<open>Timers\<close>

definition accumulate :: "plc_time \<Rightarrow> plc_time \<Rightarrow> plc_time \<Rightarrow> plc_time" where
  "accumulate et dt pt =
     (let dt = (if sint dt < 0 then 0 else dt) in
      if sint et \<ge> sint pt then pt
      else let et = et + dt in if sint et > sint pt then pt else et)"

record plc_ton =
  ton_IN :: bool
  ton_Q :: bool
  ton_PT :: plc_time
  ton_ET :: plc_time

definition plc_ton_run :: "plc_ton \<Rightarrow> plc_time \<Rightarrow> plc_ton" where
  "plc_ton_run fb dt =
     (if \<not> ton_IN fb then fb\<lparr>ton_ET := 0, ton_Q := False\<rparr>
      else let fb = fb\<lparr>ton_ET := accumulate (ton_ET fb) dt (ton_PT fb)\<rparr> in
        fb\<lparr>ton_Q := sint (ton_ET fb) \<ge> sint (ton_PT fb)\<rparr>)"

record plc_tof =
  tof_IN :: bool
  tof_Q :: bool
  tof_PT :: plc_time
  tof_ET :: plc_time
  tof_m_prev :: bool
  tof_m_running :: bool

definition plc_tof_run :: "plc_tof \<Rightarrow> plc_time \<Rightarrow> plc_tof" where
  "plc_tof_run fb dt =
     (let fb =
        (if tof_IN fb then fb\<lparr>tof_ET := 0, tof_Q := True, tof_m_running := False\<rparr>
         else
           let fb = (if tof_m_prev fb then fb\<lparr>tof_ET := 0, tof_m_running := True\<rparr> else fb) in
           if tof_m_running fb then
             let fb = fb\<lparr>tof_ET := accumulate (tof_ET fb) dt (tof_PT fb)\<rparr> in
             if sint (tof_ET fb) \<ge> sint (tof_PT fb)
             then fb\<lparr>tof_Q := False, tof_m_running := False\<rparr> else fb
           else fb)
      in fb\<lparr>tof_m_prev := tof_IN fb\<rparr>)"

record plc_tp =
  tp_IN :: bool
  tp_Q :: bool
  tp_PT :: plc_time
  tp_ET :: plc_time
  tp_m_prev :: bool

definition plc_tp_run :: "plc_tp \<Rightarrow> plc_time \<Rightarrow> plc_tp" where
  "plc_tp_run fb dt =
     (let fb =
        (if \<not> tp_Q fb \<and> tp_IN fb \<and> \<not> tp_m_prev fb then fb\<lparr>tp_Q := True, tp_ET := 0\<rparr>
         else if tp_Q fb then
           let fb = fb\<lparr>tp_ET := accumulate (tp_ET fb) dt (tp_PT fb)\<rparr> in
           if sint (tp_ET fb) \<ge> sint (tp_PT fb) then fb\<lparr>tp_Q := False\<rparr> else fb
         else if \<not> tp_IN fb then fb\<lparr>tp_ET := 0\<rparr>
         else fb)
      in fb\<lparr>tp_m_prev := tp_IN fb\<rparr>)"

subsection \<open>Counters\<close>

abbreviation (input) INT16_MAX :: int where "INT16_MAX \<equiv> 32767"
abbreviation (input) INT16_MIN :: int where "INT16_MIN \<equiv> - 32768"

record plc_ctu =
  ctu_CU :: bool
  ctu_R :: bool
  ctu_Q :: bool
  ctu_PV :: plc_int
  ctu_CV :: plc_int
  ctu_m_prev :: bool

definition plc_ctu_run :: "plc_ctu \<Rightarrow> plc_ctu" where
  "plc_ctu_run fb =
     (let fb =
        (if ctu_R fb then fb\<lparr>ctu_CV := 0\<rparr>
         else if ctu_CU fb \<and> \<not> ctu_m_prev fb \<and> sint (ctu_CV fb) < INT16_MAX
         then fb\<lparr>ctu_CV := ctu_CV fb + 1\<rparr> else fb);
        fb = fb\<lparr>ctu_Q := sint (ctu_CV fb) \<ge> sint (ctu_PV fb)\<rparr>
      in fb\<lparr>ctu_m_prev := ctu_CU fb\<rparr>)"

record plc_ctd =
  ctd_CD :: bool
  ctd_LD :: bool
  ctd_Q :: bool
  ctd_PV :: plc_int
  ctd_CV :: plc_int
  ctd_m_prev :: bool

definition plc_ctd_run :: "plc_ctd \<Rightarrow> plc_ctd" where
  "plc_ctd_run fb =
     (let fb =
        (if ctd_LD fb then fb\<lparr>ctd_CV := ctd_PV fb\<rparr>
         else if ctd_CD fb \<and> \<not> ctd_m_prev fb \<and> sint (ctd_CV fb) > INT16_MIN
         then fb\<lparr>ctd_CV := ctd_CV fb - 1\<rparr> else fb);
        fb = fb\<lparr>ctd_Q := sint (ctd_CV fb) \<le> 0\<rparr>
      in fb\<lparr>ctd_m_prev := ctd_CD fb\<rparr>)"

record plc_ctud =
  ctud_CU :: bool
  ctud_CD :: bool
  ctud_R :: bool
  ctud_LD :: bool
  ctud_QU :: bool
  ctud_QD :: bool
  ctud_PV :: plc_int
  ctud_CV :: plc_int
  ctud_m_prev_cu :: bool
  ctud_m_prev_cd :: bool

definition plc_ctud_run :: "plc_ctud \<Rightarrow> plc_ctud" where
  "plc_ctud_run fb =
     (let up = (ctud_CU fb \<and> \<not> ctud_m_prev_cu fb);
          down = (ctud_CD fb \<and> \<not> ctud_m_prev_cd fb);
          fb =
            (if ctud_R fb then fb\<lparr>ctud_CV := 0\<rparr>
             else if ctud_LD fb then fb\<lparr>ctud_CV := ctud_PV fb\<rparr>
             else
               let fb = (if up \<and> \<not> down \<and> sint (ctud_CV fb) < INT16_MAX
                         then fb\<lparr>ctud_CV := ctud_CV fb + 1\<rparr> else fb) in
               if down \<and> \<not> up \<and> sint (ctud_CV fb) > INT16_MIN
               then fb\<lparr>ctud_CV := ctud_CV fb - 1\<rparr> else fb);
          fb = fb\<lparr>ctud_QU := sint (ctud_CV fb) \<ge> sint (ctud_PV fb)\<rparr>;
          fb = fb\<lparr>ctud_QD := sint (ctud_CV fb) \<le> 0\<rparr>
      in fb\<lparr>ctud_m_prev_cu := ctud_CU fb, ctud_m_prev_cd := ctud_CD fb\<rparr>)"


subsection \<open>Runs of a block\<close>

text \<open>
  A scan sets the inputs of a block and calls its \<open>_run\<close>. A run is a list of scans, oldest
  first; for a timer each carries the value of IN and the elapsed time.
\<close>

definition ton_scan :: "plc_ton \<Rightarrow> bool \<times> plc_time \<Rightarrow> plc_ton" where
  "ton_scan fb x = plc_ton_run (fb\<lparr>ton_IN := fst x\<rparr>) (snd x)"

definition tof_scan :: "plc_tof \<Rightarrow> bool \<times> plc_time \<Rightarrow> plc_tof" where
  "tof_scan fb x = plc_tof_run (fb\<lparr>tof_IN := fst x\<rparr>) (snd x)"

definition tp_scan :: "plc_tp \<Rightarrow> bool \<times> plc_time \<Rightarrow> plc_tp" where
  "tp_scan fb x = plc_tp_run (fb\<lparr>tp_IN := fst x\<rparr>) (snd x)"

definition ctu_scan :: "plc_ctu \<Rightarrow> bool \<times> bool \<Rightarrow> plc_ctu" where
  "ctu_scan fb x = plc_ctu_run (fb\<lparr>ctu_CU := fst x, ctu_R := snd x\<rparr>)"

definition rs_scan :: "plc_rs \<Rightarrow> bool \<times> bool \<Rightarrow> plc_rs" where
  "rs_scan fb x = plc_rs_run (fb\<lparr>rs_S := fst x, rs_R1 := snd x\<rparr>)"

definition sr_scan :: "plc_sr \<Rightarrow> bool \<times> bool \<Rightarrow> plc_sr" where
  "sr_scan fb x = plc_sr_run (fb\<lparr>sr_S1 := fst x, sr_R := snd x\<rparr>)"

definition r_trig_scan :: "plc_r_trig \<Rightarrow> bool \<Rightarrow> plc_r_trig" where
  "r_trig_scan fb x = plc_r_trig_run (fb\<lparr>rt_CLK := x\<rparr>)"

definition f_trig_scan :: "plc_f_trig \<Rightarrow> bool \<Rightarrow> plc_f_trig" where
  "f_trig_scan fb x = plc_f_trig_run (fb\<lparr>ft_CLK := x\<rparr>)"

text \<open>Elapsed time as the timers count it: a negative scan time counts as zero.\<close>

definition dt_pos :: "plc_time \<Rightarrow> int" where
  "dt_pos dt = max 0 (sint dt)"

text \<open>The scan times of a run can be added to the preset without overflowing \<open>int64_t\<close>.\<close>

definition times_ok :: "plc_time \<Rightarrow> (bool \<times> plc_time) list \<Rightarrow> bool" where
  "times_ok pt xs = list_all (\<lambda>x. sint pt + sint (snd x) < 2 ^ 63) xs"

text \<open>Reference: how long IN has been true; how long it has been false since it was true.\<close>

definition on_time :: "(bool \<times> plc_time) list \<Rightarrow> int" where
  "on_time xs = foldl (\<lambda>t (i, dt). if i then t + dt_pos dt else 0) 0 xs"

definition off_time :: "(bool \<times> plc_time) list \<Rightarrow> int option" where
  "off_time xs = foldl (\<lambda>t (i, dt). if i then Some 0 else map_option ((+) (dt_pos dt)) t) None xs"

text \<open>Reference: rising edges of CU since the last reset.\<close>

definition edges_since_reset :: "bool \<Rightarrow> (bool \<times> bool) list \<Rightarrow> nat" where
  "edges_since_reset prev xs =
     snd (foldl (\<lambda>(p, n) (cu, r). (cu, if r then 0 else if cu \<and> \<not> p then Suc n else n)) (prev, 0) xs)"


subsection \<open>Facts on one scan\<close>

lemma sint_bounds16: "- 32768 \<le> sint (x :: 16 word)" "sint (x :: 16 word) \<le> 32767"
  using sint_greater_eq [of x] sint_less [of x] by simp_all

lemma sint_succ16: "sint (x :: 16 word) < 32767 \<Longrightarrow> sint (x + 1) = sint x + 1"
  using sint_bounds16 [of x] by (simp add: sint_word_add signed_take_bit_int_eq_self)

lemma sint_pred16: "sint (x :: 16 word) > - 32768 \<Longrightarrow> sint (x - 1) = sint x - 1"
  using sint_bounds16 [of x] by (simp add: sint_word_diff signed_take_bit_int_eq_self)

lemma sint_accumulate:
  assumes "0 \<le> sint et" and "sint pt + sint dt < 2 ^ 63"
  shows "sint (accumulate et dt pt) = min (sint pt) (sint et + dt_pos dt)"
  using assms sint_add64 [of et dt] sint_bounds64
  by (auto simp: accumulate_def Let_def dt_pos_def)

lemma dt_pos_nonneg [simp]: "0 \<le> dt_pos dt"
  by (simp add: dt_pos_def)

lemma dt_pos_past: "\<not> t < p \<Longrightarrow> \<not> dt_pos dt + t < p"
  using dt_pos_nonneg [of dt] by linarith

lemma on_time_simps [simp]:
  "on_time [] = 0" "on_time (xs @ [x]) = (if fst x then on_time xs + dt_pos (snd x) else 0)"
  by (simp_all add: on_time_def split: prod.split)

lemma on_time_nonneg: "0 \<le> on_time xs"
  by (induction xs rule: rev_induct) (auto simp: dt_pos_def)

lemma off_time_simps [simp]:
  "off_time [] = None"
  "off_time (xs @ [x]) = (if fst x then Some 0 else map_option ((+) (dt_pos (snd x))) (off_time xs))"
  by (simp_all add: off_time_def split: prod.split)

lemma times_ok_simps [simp]:
  "times_ok pt []"
  "times_ok pt (x # xs) \<longleftrightarrow> sint pt + sint (snd x) < 2 ^ 63 \<and> times_ok pt xs"
  "times_ok pt (xs @ ys) \<longleftrightarrow> times_ok pt xs \<and> times_ok pt ys"
  by (simp_all add: times_ok_def)


subsection \<open>The contract of a timer\<close>

text \<open>
  What TON, TOF and TP share: the preset is an input they never change, and the elapsed time
  stays between zero and the preset, so it can neither overflow nor run free.
\<close>

locale saturating_timer =
  fixes scan :: "'s \<Rightarrow> bool \<times> plc_time \<Rightarrow> 's"
    and pt :: "'s \<Rightarrow> plc_time"
    and et :: "'s \<Rightarrow> plc_time"
  assumes pt_scan: "pt (scan s x) = pt s"
    and et_scan: "0 \<le> sint (et s) \<Longrightarrow> sint (et s) \<le> sint (pt s) \<Longrightarrow>
      sint (pt s) + sint (snd x) < 2 ^ 63 \<Longrightarrow>
      0 \<le> sint (et (scan s x)) \<and> sint (et (scan s x)) \<le> sint (pt s)"
begin

lemma pt_run: "pt (foldl scan s xs) = pt s"
  by (induction xs arbitrary: s) (simp_all add: pt_scan)

lemma et_run:
  assumes "0 \<le> sint (et s)" and "sint (et s) \<le> sint (pt s)" and "times_ok (pt s) xs"
  shows "0 \<le> sint (et (foldl scan s xs)) \<and> sint (et (foldl scan s xs)) \<le> sint (pt s)"
  using assms
proof (induction xs arbitrary: s)
  case (Cons x xs)
  with et_scan [of s x] show ?case using Cons.IH [of "scan s x"] by (simp add: pt_scan)
qed simp

end

interpretation ton: saturating_timer ton_scan ton_PT ton_ET
  by unfold_locales (auto simp: ton_scan_def plc_ton_run_def sint_accumulate dt_pos_def)

interpretation tof: saturating_timer tof_scan tof_PT tof_ET
  by unfold_locales (auto simp: tof_scan_def plc_tof_run_def Let_def sint_accumulate dt_pos_def)

interpretation tp: saturating_timer tp_scan tp_PT tp_ET
  by unfold_locales (auto simp: tp_scan_def plc_tp_run_def Let_def sint_accumulate dt_pos_def)

subsection \<open>Properties\<close>

text \<open>
  The elapsed time of every timer stays between zero and its preset over any run, whatever
  the inputs and the scan times do (as long as preset plus scan time is an \<open>int64_t\<close>), so a
  machine that runs for months cannot overflow it.
\<close>

lemma timers_saturate:
  assumes "0 \<le> sint (ton_ET a) \<and> sint (ton_ET a) \<le> sint (ton_PT a) \<and> times_ok (ton_PT a) xs"
    and "0 \<le> sint (tof_ET b) \<and> sint (tof_ET b) \<le> sint (tof_PT b) \<and> times_ok (tof_PT b) xs"
    and "0 \<le> sint (tp_ET c) \<and> sint (tp_ET c) \<le> sint (tp_PT c) \<and> times_ok (tp_PT c) xs"
  shows "(let e = sint (ton_ET (foldl ton_scan a xs)) in 0 \<le> e \<and> e \<le> sint (ton_PT a))
    \<and> (let e = sint (tof_ET (foldl tof_scan b xs)) in 0 \<le> e \<and> e \<le> sint (tof_PT b))
    \<and> (let e = sint (tp_ET (foldl tp_scan c xs)) in 0 \<le> e \<and> e \<le> sint (tp_PT c))"
  using assms ton.et_run [of a xs] tof.et_run [of b xs] tp.et_run [of c xs] by (simp add: Let_def)

lemma ton_scan_fields:
  "ton_PT (ton_scan fb x) = ton_PT fb"
  "ton_ET (ton_scan fb x) = (if fst x then accumulate (ton_ET fb) (snd x) (ton_PT fb) else 0)"
  "ton_Q (ton_scan fb x) \<longleftrightarrow> fst x \<and> sint (ton_ET (ton_scan fb x)) \<ge> sint (ton_PT fb)"
  by (auto simp: ton_scan_def plc_ton_run_def)

text \<open>
  C27: The on-delay timer is exact. Over any run from a cleared block, ET is the time IN has
  been true without interruption, stopped at PT, and Q is true just when IN is true and has
  been for at least PT. Scan times that are negative count as zero.
\<close>

theorem ton_exact:
  assumes "ton_ET fb = 0" and "0 \<le> sint (ton_PT fb)" and "times_ok (ton_PT fb) xs"
  shows "sint (ton_ET (foldl ton_scan fb xs)) = min (sint (ton_PT fb)) (on_time xs)
    \<and> (xs \<noteq> [] \<longrightarrow> ton_Q (foldl ton_scan fb xs) =
          (fst (last xs) \<and> on_time xs \<ge> sint (ton_PT fb)))"
  using assms
proof (induction xs rule: rev_induct)
  case (snoc x xs)
  let ?fb = "foldl ton_scan fb xs"
  from snoc have et: "sint (ton_ET ?fb) = min (sint (ton_PT fb)) (on_time xs)" by simp
  have et': "sint (ton_ET (ton_scan ?fb x)) = min (sint (ton_PT fb)) (on_time (xs @ [x]))"
    using snoc.prems et on_time_nonneg [of xs]
    by (auto simp: ton_scan_fields(2) ton.pt_run sint_accumulate dt_pos_def)
  then show ?case by (auto simp: ton_scan_fields(3) ton.pt_run)
qed simp

theorem ton_exact_witness:
  "ton_Q (foldl ton_scan \<lparr>ton_IN = False, ton_Q = False, ton_PT = 100, ton_ET = 0\<rparr>
     [(True, 70), (False, 90), (True, 70), (True, 40)])"
  using ton_exact [of "\<lparr>ton_IN = False, ton_Q = False, ton_PT = 100, ton_ET = 0\<rparr>"
      "[(True, 70), (False, 90), (True, 70), (True, 40)]"]
  by (simp add: on_time_def dt_pos_def)

definition tof_zero :: "plc_time \<Rightarrow> plc_tof" where
  "tof_zero pt = \<lparr>tof_IN = False, tof_Q = False, tof_PT = pt, tof_ET = 0,
                  tof_m_prev = False, tof_m_running = False\<rparr>"

definition tof_inv :: "plc_tof \<Rightarrow> bool \<Rightarrow> int option \<Rightarrow> bool" where
  "tof_inv fb last_in off \<longleftrightarrow> tof_m_prev fb = last_in \<and>
     (case off of
        None \<Rightarrow> \<not> last_in \<and> \<not> tof_m_running fb \<and> \<not> tof_Q fb
      | Some t \<Rightarrow> 0 \<le> t \<and>
          (if last_in then t = 0 \<and> \<not> tof_m_running fb \<and> tof_Q fb
           else if t < sint (tof_PT fb) then tof_m_running fb \<and> tof_Q fb \<and> sint (tof_ET fb) = t
           else \<not> tof_m_running fb \<and> \<not> tof_Q fb))"

lemma tof_inv_scan:
  assumes "tof_inv fb l off" and "sint (tof_PT fb) + sint (snd x) < 2 ^ 63"
  shows "tof_inv (tof_scan fb x) (fst x)
    (if fst x then Some 0 else map_option ((+) (dt_pos (snd x))) off)"
proof (cases "fst x")
  case True
  then show ?thesis by (auto simp: tof_inv_def tof_scan_def plc_tof_run_def)
next
  case False
  then show ?thesis
    using assms
    by (cases off; cases l; cases "tof_m_running fb")
      (simp_all add: tof_inv_def tof_scan_def plc_tof_run_def Let_def sint_accumulate dt_pos_past
        split: if_splits)
qed

lemma tof_inv_run:
  assumes "times_ok pt xs"
  shows "tof_inv (foldl tof_scan (tof_zero pt) xs) (xs \<noteq> [] \<and> fst (last xs)) (off_time xs)"
  using assms
proof (induction xs rule: rev_induct)
  case Nil
  show ?case by (simp add: tof_inv_def tof_zero_def)
next
  case (snoc x xs)
  have "tof_PT (foldl tof_scan (tof_zero pt) xs) = pt"
    by (simp add: tof.pt_run tof_zero_def)
  with snoc show ?case using tof_inv_scan [of "foldl tof_scan (tof_zero pt) xs" _ _ x] by simp
qed

text \<open>
  C28: The off-delay timer is exact from start-up. Over any run of a zero-initialised block, Q
  is true just when IN is true, or was true at some scan and has been false for less than PT
  since. In particular a block whose IN has never been true never reports Q, whatever PT is.
\<close>

theorem tof_exact:
  assumes "times_ok pt xs"
  shows "tof_Q (foldl tof_scan (tof_zero pt) xs) =
    (case off_time xs of None \<Rightarrow> False | Some t \<Rightarrow> fst (last xs) \<or> t < sint pt)"
proof -
  have "tof_PT (foldl tof_scan (tof_zero pt) xs) = pt"
    by (simp add: tof.pt_run tof_zero_def)
  then show ?thesis
    using tof_inv_run [OF assms] by (cases "xs = []") (auto simp: tof_inv_def split: option.splits)
qed

theorem tof_exact_witness:
  "tof_Q (foldl tof_scan (tof_zero 100) [(True, 10), (False, 60)])
   \<and> \<not> tof_Q (foldl tof_scan (tof_zero 100) [(True, 10), (False, 60), (False, 40)])
   \<and> \<not> tof_Q (foldl tof_scan (tof_zero 100) [(False, 10), (False, 10)])"
  using tof_exact [of 100 "[(True, 10), (False, 60)]"]
    tof_exact [of 100 "[(True, 10), (False, 60), (False, 40)]"]
    tof_exact [of 100 "[(False, 10), (False, 10)]"]
  by (simp add: off_time_def dt_pos_def)

definition total_time :: "(bool \<times> plc_time) list \<Rightarrow> int" where
  "total_time xs = sum_list (map (\<lambda>x. dt_pos (snd x)) xs)"

lemma total_time_simps [simp]:
  "total_time [] = 0" "total_time (xs @ ys) = total_time xs + total_time ys"
  "total_time (x # xs) = dt_pos (snd x) + total_time xs"
  by (simp_all add: total_time_def)

lemma tp_active:
  assumes "tp_Q fb" and "0 \<le> sint (tp_ET fb)" and "sint (tp_PT fb) + sint (snd x) < 2 ^ 63"
  shows "tp_Q (tp_scan fb x) \<longleftrightarrow> sint (tp_ET fb) + dt_pos (snd x) < sint (tp_PT fb)"
    "sint (tp_ET (tp_scan fb x)) = min (sint (tp_PT fb)) (sint (tp_ET fb) + dt_pos (snd x))"
  using assms by (auto simp: tp_scan_def plc_tp_run_def Let_def sint_accumulate)

lemma tp_pulse_run:
  assumes "tp_Q fb" and "tp_ET fb = 0" and "times_ok (tp_PT fb) xs"
    and "xs \<noteq> [] \<longrightarrow> xs = [last xs] \<or> total_time (butlast xs) < sint (tp_PT fb)"
  shows "(tp_Q (foldl tp_scan fb xs) \<longleftrightarrow> xs = [] \<or> total_time xs < sint (tp_PT fb))
    \<and> (xs \<noteq> [] \<longrightarrow> sint (tp_ET (foldl tp_scan fb xs)) = min (sint (tp_PT fb)) (total_time xs))"
  using assms
proof (induction xs rule: rev_induct)
  case (snoc x xs)
  let ?fb = "foldl tp_scan fb xs"
  have IH: "tp_Q ?fb \<and> sint (tp_ET ?fb) = total_time xs"
  proof (cases "xs = []")
    case False
    then have "total_time xs < sint (tp_PT fb)" using snoc.prems(4) by simp
    moreover have "total_time (butlast xs) \<le> total_time xs"
      using False total_time_simps(2) [of "butlast xs" "[last xs]"] by simp
    ultimately show ?thesis using False snoc by simp
  qed (use snoc in simp)
  moreover have "0 \<le> total_time xs" by (induction xs) simp_all
  ultimately show ?case using tp_active [of ?fb x] snoc.prems by (simp add: tp.pt_run)
qed simp

text \<open>
  C29: The pulse timer is exact and cannot be retriggered. A rising edge of IN on an idle block
  starts a pulse; whatever IN does afterwards, Q is still true at a later scan just when less
  than PT has passed since the edge (every earlier scan of the run being inside the pulse), so
  the pulse is neither cut short by IN going false nor prolonged by further edges.
\<close>

theorem tp_pulse_exact:
  assumes "\<not> tp_Q fb" and "\<not> tp_m_prev fb" and "times_ok (tp_PT fb) xs"
    and "length xs > 1 \<longrightarrow> total_time (butlast xs) < sint (tp_PT fb)"
  shows "tp_Q (foldl tp_scan fb ((True, dt) # xs)) =
    (xs = [] \<or> total_time xs < sint (tp_PT fb))"
proof -
  let ?fb = "tp_scan fb (True, dt)"
  have "tp_Q ?fb" "tp_ET ?fb = 0" using assms by (simp_all add: tp_scan_def plc_tp_run_def)
  moreover have "xs = [last xs]" if "xs \<noteq> []" "\<not> length xs > 1"
    using that by (cases xs) auto
  ultimately show ?thesis
    using tp_pulse_run [of ?fb xs] assms by (auto simp: tp.pt_scan)
qed

theorem tp_pulse_exact_witness:
  "tp_Q (foldl tp_scan \<lparr>tp_IN = False, tp_Q = False, tp_PT = 100, tp_ET = 0, tp_m_prev = False\<rparr>
     [(True, 10), (False, 60), (True, 30)])
   \<and> \<not> tp_Q (foldl tp_scan \<lparr>tp_IN = False, tp_Q = False, tp_PT = 100, tp_ET = 0, tp_m_prev = False\<rparr>
     [(True, 10), (False, 60), (True, 30), (True, 10)])"
  using tp_pulse_exact [of "\<lparr>tp_IN = False, tp_Q = False, tp_PT = 100, tp_ET = 0, tp_m_prev = False\<rparr>"
      "[(False, 60), (True, 30)]" 10]
    tp_pulse_exact [of "\<lparr>tp_IN = False, tp_Q = False, tp_PT = 100, tp_ET = 0, tp_m_prev = False\<rparr>"
      "[(False, 60), (True, 30), (True, 10)]" 10]
  by (simp add: dt_pos_def)

lemma ctu_scan_fields:
  "ctu_PV (ctu_scan fb x) = ctu_PV fb"
  "ctu_m_prev (ctu_scan fb x) = fst x"
  "ctu_CV (ctu_scan fb x) =
     (if snd x then 0 else if fst x \<and> \<not> ctu_m_prev fb \<and> sint (ctu_CV fb) < 32767
      then ctu_CV fb + 1 else ctu_CV fb)"
  "ctu_Q (ctu_scan fb x) \<longleftrightarrow> sint (ctu_CV (ctu_scan fb x)) \<ge> sint (ctu_PV fb)"
  by (auto simp: ctu_scan_def plc_ctu_run_def Let_def)

definition ctu_spec :: "bool \<times> nat \<Rightarrow> bool \<times> bool \<Rightarrow> bool \<times> nat" where
  "ctu_spec = (\<lambda>(p, n) (cu, r). (cu, if r then 0 else if cu \<and> \<not> p then Suc n else n))"

text \<open>A simulation: the saturated count is kept by every scan.\<close>

lemma ctu_simulation:
  assumes "ctu_m_prev fb = p" and "sint (ctu_CV fb) = min 32767 (int n)"
  shows "ctu_m_prev (ctu_scan fb x) = fst (ctu_spec (p, n) x)"
    and "sint (ctu_CV (ctu_scan fb x)) = min 32767 (int (snd (ctu_spec (p, n) x)))"
  using assms by (auto simp: ctu_scan_fields ctu_spec_def sint_succ16 split: prod.split)

lemma ctu_simulation_run:
  assumes "ctu_CV fb = 0"
  shows "ctu_PV (foldl ctu_scan fb xs) = ctu_PV fb
    \<and> ctu_m_prev (foldl ctu_scan fb xs) = fst (foldl ctu_spec (ctu_m_prev fb, 0) xs)
    \<and> sint (ctu_CV (foldl ctu_scan fb xs)) = min 32767 (int (edges_since_reset (ctu_m_prev fb) xs))"
proof (induction xs rule: rev_induct)
  case (snoc x xs)
  obtain p n where pn: "foldl ctu_spec (ctu_m_prev fb, 0) xs = (p, n)" by (cases "foldl ctu_spec (ctu_m_prev fb, 0) xs")
  with snoc ctu_simulation [of "foldl ctu_scan fb xs" p n x] show ?case
    by (simp add: edges_since_reset_def ctu_spec_def [symmetric] ctu_scan_fields(1))
qed (simp add: assms edges_since_reset_def)

text \<open>
  C30: The up counter counts exactly the rising edges of CU since the last scan with R, and
  saturates at the largest \<open>PLC_INT\<close> instead of wrapping to a negative value; Q compares the
  count with PV.
\<close>

theorem ctu_exact:
  assumes "ctu_CV fb = 0"
  shows "sint (ctu_CV (foldl ctu_scan fb xs)) = min 32767 (int (edges_since_reset (ctu_m_prev fb) xs))
    \<and> (xs \<noteq> [] \<longrightarrow> (ctu_Q (foldl ctu_scan fb xs) \<longleftrightarrow>
          min 32767 (int (edges_since_reset (ctu_m_prev fb) xs)) \<ge> sint (ctu_PV fb)))"
proof (cases xs rule: rev_cases)
  case (snoc ys y)
  with ctu_simulation_run [OF assms, of xs] ctu_simulation_run [OF assms, of ys]
  show ?thesis by (simp add: ctu_scan_fields(4))
qed (simp add: assms edges_since_reset_def)

theorem ctu_exact_witness:
  "ctu_Q (foldl ctu_scan \<lparr>ctu_CU = False, ctu_R = False, ctu_Q = False, ctu_PV = 2, ctu_CV = 0,
      ctu_m_prev = False\<rparr>
    [(True, False), (True, True), (False, False), (True, False), (False, False), (True, False)])"
  using ctu_exact [of "\<lparr>ctu_CU = False, ctu_R = False, ctu_Q = False, ctu_PV = 2, ctu_CV = 0,
      ctu_m_prev = False\<rparr>"
    "[(True, False), (True, True), (False, False), (True, False), (False, False), (True, False)]"]
  by (simp add: edges_since_reset_def)

text \<open>
  The up/down counter is integer arithmetic clamped to the range of a \<open>PLC_INT\<close>, with the
  priorities reset, load, count; simultaneous edges cancel. The down counter follows the same
  rule with load and a down edge only. The outputs are the comparisons of the new value.
\<close>

lemma counters_clamp:
  "(let v = sint (ctud_CV (plc_ctud_run fb));
        up = (ctud_CU fb \<and> \<not> ctud_m_prev_cu fb);
        down = (ctud_CD fb \<and> \<not> ctud_m_prev_cd fb) in
      v = (if ctud_R fb then 0 else if ctud_LD fb then sint (ctud_PV fb)
           else max (- 32768) (min 32767 (sint (ctud_CV fb) + of_bool up - of_bool down)))
      \<and> ctud_QU (plc_ctud_run fb) = (v \<ge> sint (ctud_PV fb)) \<and> ctud_QD (plc_ctud_run fb) = (v \<le> 0))
    \<and> (let v = sint (ctd_CV (plc_ctd_run fd)) in
      v = (if ctd_LD fd then sint (ctd_PV fd)
           else max (- 32768) (sint (ctd_CV fd) - of_bool (ctd_CD fd \<and> \<not> ctd_m_prev fd)))
      \<and> ctd_Q (plc_ctd_run fd) = (v \<le> 0))"
  using sint_bounds16 [of "ctud_CV fb"] sint_bounds16 [of "ctd_CV fd"]
  by (auto simp: plc_ctud_run_def plc_ctd_run_def Let_def sint_succ16 sint_pred16)

lemma trig_prev:
  "rt_m_prev (foldl r_trig_scan r xs) = last (rt_m_prev r # xs)"
  "ft_m_prev (foldl f_trig_scan f xs) = last (ft_m_prev f # xs)"
  by (cases xs rule: rev_cases;
      simp add: r_trig_scan_def plc_r_trig_run_def f_trig_scan_def plc_f_trig_run_def Let_def)+

text \<open>Some scan set the latch (without resetting it, if reset dominates) and none since reset it.\<close>

definition set_since :: "bool \<Rightarrow> (bool \<times> bool) list \<Rightarrow> bool" where
  "set_since reset_dominant xs \<longleftrightarrow>
     (\<exists>ys x zs. xs = ys @ x # zs \<and> fst x \<and> (reset_dominant \<longrightarrow> \<not> snd x) \<and> list_all (\<lambda>y. \<not> snd y) zs)"

lemma set_since_snoc:
  "set_since d (xs @ [x]) \<longleftrightarrow> fst x \<and> (d \<longrightarrow> \<not> snd x) \<or> \<not> snd x \<and> set_since d xs"
proof
  assume "set_since d (xs @ [x])"
  then obtain ys y zs where *: "xs @ [x] = ys @ y # zs" "fst y" "d \<longrightarrow> \<not> snd y"
      "list_all (\<lambda>y. \<not> snd y) zs" unfolding set_since_def by blast
  show "fst x \<and> (d \<longrightarrow> \<not> snd x) \<or> \<not> snd x \<and> set_since d xs"
  proof (cases zs rule: rev_cases)
    case Nil
    with * show ?thesis by simp
  next
    case (snoc zs' z)
    with * have "xs = ys @ y # zs'" "\<not> snd x" "list_all (\<lambda>y. \<not> snd y) zs'" by auto
    with * show ?thesis unfolding set_since_def by blast
  qed
next
  assume "fst x \<and> (d \<longrightarrow> \<not> snd x) \<or> \<not> snd x \<and> set_since d xs"
  then show "set_since d (xs @ [x])"
  proof
    assume "fst x \<and> (d \<longrightarrow> \<not> snd x)"
    then have "xs @ [x] = xs @ x # []" "fst x" "d \<longrightarrow> \<not> snd x" "list_all (\<lambda>y. \<not> snd y) []" by auto
    then show ?thesis unfolding set_since_def by blast
  next
    assume "\<not> snd x \<and> set_since d xs"
    then obtain ys y zs where "xs @ [x] = ys @ y # (zs @ [x])" "fst y" "d \<longrightarrow> \<not> snd y"
      "list_all (\<lambda>y. \<not> snd y) (zs @ [x])" unfolding set_since_def by auto
    then show ?thesis unfolding set_since_def by blast
  qed
qed

lemma set_since_Nil [simp]: "\<not> set_since d []"
  by (simp add: set_since_def)

lemma rs_scan_Q: "rs_Q1 (rs_scan fb x) \<longleftrightarrow> \<not> snd x \<and> (fst x \<or> rs_Q1 fb)"
  by (simp add: rs_scan_def plc_rs_run_def)

lemma sr_scan_Q: "sr_Q1 (sr_scan fb x) \<longleftrightarrow> fst x \<or> \<not> snd x \<and> sr_Q1 fb"
  by (simp add: sr_scan_def plc_sr_run_def)

text \<open>
  The edge detectors report an edge at exactly the scans where the input changed in their
  direction, and the bistables remember the last command: a reset-dominant latch is set just
  when some scan set it and neither that scan nor a later one reset it (or it was set to begin
  with and never reset); in the set-dominant latch the setting scan itself may also reset.
\<close>

lemma edges_and_latches:
  "rt_Q (foldl r_trig_scan r (bs @ [b])) = (b \<and> \<not> last (rt_m_prev r # bs))
   \<and> ft_Q (foldl f_trig_scan f (bs @ [b])) = (\<not> b \<and> last (ft_m_prev f # bs))
   \<and> rs_Q1 (foldl rs_scan p xs) =
       (set_since True xs \<or> rs_Q1 p \<and> list_all (\<lambda>y. \<not> snd y) xs)
   \<and> sr_Q1 (foldl sr_scan q xs) =
       (set_since False xs \<or> sr_Q1 q \<and> list_all (\<lambda>y. \<not> snd y) xs)"
proof (intro conjI)
  show "rt_Q (foldl r_trig_scan r (bs @ [b])) = (b \<and> \<not> last (rt_m_prev r # bs))"
    using trig_prev(1) [of r bs] by (simp add: r_trig_scan_def plc_r_trig_run_def Let_def)
  show "ft_Q (foldl f_trig_scan f (bs @ [b])) = (\<not> b \<and> last (ft_m_prev f # bs))"
    using trig_prev(2) [of f bs] by (simp add: f_trig_scan_def plc_f_trig_run_def Let_def)
  show "rs_Q1 (foldl rs_scan p xs) = (set_since True xs \<or> rs_Q1 p \<and> list_all (\<lambda>y. \<not> snd y) xs)"
    by (induction xs rule: rev_induct) (auto simp: rs_scan_Q set_since_snoc)
  show "sr_Q1 (foldl sr_scan q xs) = (set_since False xs \<or> sr_Q1 q \<and> list_all (\<lambda>y. \<not> snd y) xs)"
    by (induction xs rule: rev_induct) (auto simp: sr_scan_Q set_since_snoc)
qed

end
