(* ===== verification/Spsc_Ring.thy ===== *)
theory Spsc_Ring
  imports Plc_Types
begin

text \<open>
  \<open>ipc/spsc_ring.h\<close> and \<open>ipc/spsc_ring.c\<close>: the single-producer single-consumer ring of
  four frames that carries one direction of the copy boundary. Each operation is modelled as
  one step of its side; the interleaving of the two sides' memory accesses is the subject of
  the theory on concurrency. The contents of a ring belong to the peer as much as to us, so
  the operations are defined, and their safety is proved, for every value of the cursors and
  of the frames.
\<close>


subsection \<open>State\<close>

abbreviation (input) PLC_IPC_MAX_FRAME_BYTES :: u32 where "PLC_IPC_MAX_FRAME_BYTES \<equiv> 496"
abbreviation (input) PLC_IPC_RING_SLOTS :: u32 where "PLC_IPC_RING_SLOTS \<equiv> 4"
abbreviation (input) PLC_IPC_FRAME_DATA_INVALID :: u32 where "PLC_IPC_FRAME_DATA_INVALID \<equiv> 1"

record plc_ipc_frame =
  fr_seq :: u32
  fr_len :: u32
  fr_flags :: u32
  fr_data :: "byte list"

record plc_spsc_ring =
  head :: u32
  tail :: u32
  slots :: "plc_ipc_frame list"

definition frame_zero :: plc_ipc_frame where
  "frame_zero = \<lparr>fr_seq = 0, fr_len = 0, fr_flags = 0, fr_data = replicate 496 0\<rparr>"

subsection \<open>Operations\<close>

definition plc_spsc_init :: "plc_spsc_ring \<Rightarrow> plc_spsc_ring" where
  "plc_spsc_init r = \<lparr>head = 0, tail = 0, slots = replicate 4 frame_zero\<rparr>"

definition plc_spsc_push_flagged ::
  "plc_spsc_ring \<Rightarrow> u32 \<Rightarrow> u32 \<Rightarrow> byte list option \<Rightarrow> u32 \<Rightarrow> plc_status \<times> plc_spsc_ring" where
  "plc_spsc_push_flagged r seq flags data len =
     (if len > PLC_IPC_MAX_FRAME_BYTES \<or> (len \<noteq> 0 \<and> data = None) then (PLC_ERR_INVAL, r)
      else if head r - tail r \<ge> PLC_IPC_RING_SLOTS then (PLC_ERR_AGAIN, r)
      else
        let i = unat (head r AND (PLC_IPC_RING_SLOTS - 1));
            slot = (slots r ! i)\<lparr>fr_seq := seq, fr_len := len, fr_flags := flags\<rparr>;
            slot = (if len \<noteq> 0
                    then slot\<lparr>fr_data := put_slice 0 (take (unat len) (the data)) (fr_data slot)\<rparr>
                    else slot)
        in (PLC_OK, r\<lparr>slots := (slots r)[i := slot], head := head r + 1\<rparr>))"

definition plc_spsc_push ::
  "plc_spsc_ring \<Rightarrow> u32 \<Rightarrow> byte list option \<Rightarrow> u32 \<Rightarrow> plc_status \<times> plc_spsc_ring" where
  "plc_spsc_push r seq data len = plc_spsc_push_flagged r seq 0 data len"

definition plc_spsc_pop ::
  "plc_spsc_ring \<Rightarrow> plc_ipc_frame \<Rightarrow> u32 \<Rightarrow> plc_status \<times> plc_spsc_ring \<times> plc_ipc_frame" where
  "plc_spsc_pop r out cap =
     (if cap > PLC_IPC_MAX_FRAME_BYTES then (PLC_ERR_INVAL, r, out)
      else if tail r = head r then (PLC_ERR_AGAIN, r, out)
      else
        let slot = slots r ! unat (tail r AND (PLC_IPC_RING_SLOTS - 1));
            seq = fr_seq slot; len = fr_len slot; flags = fr_flags slot
        in if len > PLC_IPC_MAX_FRAME_BYTES
           then (PLC_ERR_PROTO, r\<lparr>tail := tail r + 1\<rparr>, out)
           else
             let out = out\<lparr>fr_seq := seq, fr_len := (if len < cap then len else cap), fr_flags := flags\<rparr>;
                 out = (if fr_len out \<noteq> 0
                        then out\<lparr>fr_data :=
                          put_slice 0 (get_slice 0 (unat (fr_len out)) (fr_data slot)) (fr_data out)\<rparr>
                        else out)
             in (PLC_OK, r\<lparr>tail := tail r + 1\<rparr>, out))"

definition plc_spsc_count :: "plc_spsc_ring \<Rightarrow> u32" where
  "plc_spsc_count r = head r - tail r"

definition plc_spsc_drain :: "plc_spsc_ring \<Rightarrow> plc_spsc_ring" where
  "plc_spsc_drain r = r\<lparr>tail := head r\<rparr>"

subsection \<open>Memory layout\<close>

text \<open>
  \<open>ring_wf\<close> is what the C type guarantees of any bytes in the region; \<open>ring_ok\<close> adds that
  both sides followed the protocol.
\<close>

definition frame_wf :: "plc_ipc_frame \<Rightarrow> bool" where
  "frame_wf f \<longleftrightarrow> length (fr_data f) = 496"

definition ring_wf :: "plc_spsc_ring \<Rightarrow> bool" where
  "ring_wf r \<longleftrightarrow> length (slots r) = 4 \<and> list_all frame_wf (slots r)"

definition idx :: "u32 \<Rightarrow> nat" where
  "idx c = unat (c AND 3)"

definition count :: "plc_spsc_ring \<Rightarrow> nat" where
  "count r = unat (head r - tail r)"

lemma idx_mod: "idx c = unat c mod 4"
proof -
  have "c AND 3 = take_bit 2 c" by (simp add: take_bit_eq_mask mask_eq_exp_minus_1)
  then have "idx c = take_bit 2 (unat c)" unfolding idx_def by (simp only: unsigned_take_bit_eq)
  then show ?thesis by (simp add: take_bit_eq_mod)
qed

lemma idx_less [simp]: "idx c < 4"
  by (simp add: idx_mod)

lemma idx_add: "idx (c + of_nat i) = (idx c + i) mod 4"
proof -
  have "unat (c + of_nat i) = (unat c + i) mod 2 ^ 32"
    by (simp add: unat_word_ariths(1) unat_of_nat mod_add_right_eq)
  then have "idx (c + of_nat i) = (unat c + i) mod 2 ^ 32 mod 4" by (simp add: idx_mod)
  also have "\<dots> = (unat c + i) mod 4" by (rule mod_mod_cancel) simp
  finally show ?thesis by (simp add: idx_mod mod_add_left_eq)
qed

lemma mod4_cancel: "a < 4 \<Longrightarrow> i < 4 \<Longrightarrow> j < 4 \<Longrightarrow> (a + i) mod 4 = (a + j) mod 4 \<longleftrightarrow> i = (j :: nat)"
proof -
  have "x mod 4 = (if x < 4 then x else x - 4)" if "x < 8" for x :: nat
    using that by (simp add: mod_if [of x] mod_less)
  moreover assume "a < 4" "i < 4" "j < 4"
  ultimately have "(a + i) mod 4 = (if a + i < 4 then a + i else a + i - 4)"
      "(a + j) mod 4 = (if a + j < 4 then a + j else a + j - 4)" by simp_all
  with \<open>a < 4\<close> \<open>i < 4\<close> \<open>j < 4\<close> show ?thesis by (auto split: if_splits)
qed

lemma idx_add_inj: "i < 4 \<Longrightarrow> j < 4 \<Longrightarrow> idx (c + of_nat i) = idx (c + of_nat j) \<longleftrightarrow> i = j"
  by (simp add: idx_add mod4_cancel)

lemma head_eq: "head r = tail r + of_nat (count r)"
  by (simp add: count_def)

lemma count_Suc:
  assumes "count r < 4"
  shows "unat (head r + 1 - tail r) = Suc (count r)"
proof -
  have eq: "head r + 1 - tail r = (head r - tail r) + 1" by simp
  show ?thesis unfolding eq using assms by (simp add: count_def unat_word_ariths)
qed

lemma count_pred:
  assumes "tail r \<noteq> head r"
  shows "count r = Suc (unat (head r - (tail r + 1)))"
proof -
  have "head r - tail r \<noteq> 0" using assms by auto
  then have "unat (head r - tail r - 1) = unat (head r - tail r) - 1" "unat (head r - tail r) \<noteq> 0"
    by (simp_all add: unat_minus_one unat_eq_zero)
  moreover have eq: "head r - (tail r + 1) = head r - tail r - 1" by simp
  ultimately show ?thesis unfolding eq by (simp add: count_def)
qed

lemma not_full_iff: "head r - tail r \<ge> 4 \<longleftrightarrow> count r \<ge> 4"
  by (simp add: count_def word_le_nat_alt)

lemma empty_iff: "tail r = head r \<longleftrightarrow> count r = 0"
  by (auto simp: count_def unat_eq_zero)


subsection \<open>The queue behind the ring\<close>

text \<open>
  A message is what a frame means: sequence number, flags and the first \<open>len\<close> payload bytes.
  The ring stands for the messages between its cursors, oldest first.
\<close>

type_synonym msg = "u32 \<times> u32 \<times> byte list"

definition frame_msg :: "plc_ipc_frame \<Rightarrow> msg" where
  "frame_msg f = (fr_seq f, fr_flags f, take (unat (fr_len f)) (fr_data f))"

definition ring_slot :: "plc_spsc_ring \<Rightarrow> nat \<Rightarrow> plc_ipc_frame" where
  "ring_slot r i = slots r ! idx (tail r + of_nat i)"

definition msgs :: "plc_spsc_ring \<Rightarrow> msg list" where
  "msgs r = map (\<lambda>i. frame_msg (ring_slot r i)) [0 ..< count r]"

definition ring_ok :: "plc_spsc_ring \<Rightarrow> bool" where
  "ring_ok r \<longleftrightarrow> ring_wf r \<and> count r \<le> 4 \<and>
     list_all (\<lambda>i. fr_len (ring_slot r i) \<le> 496) [0 ..< count r]"

definition msg_ok :: "msg \<Rightarrow> bool" where
  "msg_ok m \<longleftrightarrow> length (snd (snd m)) \<le> 496"

text \<open>The sender's and the receiver's call, with the status read as a result.\<close>

definition ring_put :: "plc_spsc_ring \<Rightarrow> msg \<Rightarrow> plc_spsc_ring option" where
  "ring_put r m = (case m of (seq, flags, bs) \<Rightarrow>
     (case plc_spsc_push_flagged r seq flags (Some bs) (of_nat (length bs)) of
        (PLC_OK, r') \<Rightarrow> Some r' | _ \<Rightarrow> None))"

definition ring_get :: "plc_spsc_ring \<Rightarrow> (msg \<times> plc_spsc_ring) option" where
  "ring_get r = (case plc_spsc_pop r frame_zero 496 of
     (PLC_OK, r', f) \<Rightarrow> Some (frame_msg f, r') | _ \<Rightarrow> None)"

lemma ring_wf_nth: "ring_wf r \<Longrightarrow> i < 4 \<Longrightarrow> frame_wf (slots r ! i)"
  by (simp add: ring_wf_def list_all_length)

lemma ring_wf_slot: "ring_wf r \<Longrightarrow> length (fr_data (ring_slot r i)) = 496"
  using ring_wf_nth [of r "idx (tail r + of_nat i)"] by (simp add: ring_slot_def frame_wf_def)

lemma unat_of_nat_len: "n \<le> 496 \<Longrightarrow> unat (of_nat n :: u32) = n"
  by (simp add: unat_of_nat)

definition filled :: "plc_ipc_frame \<Rightarrow> u32 \<Rightarrow> u32 \<Rightarrow> byte list \<Rightarrow> plc_ipc_frame" where
  "filled f seq flags bs = f\<lparr>fr_seq := seq, fr_len := of_nat (length bs), fr_flags := flags,
     fr_data := put_slice 0 bs (fr_data f)\<rparr>"

lemma push_exact:
  assumes "count r < 4" and "length bs \<le> 496"
  shows "plc_spsc_push_flagged r seq flags (Some bs) (of_nat (length bs)) =
    (PLC_OK, r\<lparr>slots := (slots r)[idx (head r) := filled (slots r ! idx (head r)) seq flags bs],
                head := head r + 1\<rparr>)"
proof -
  have len: "\<not> (of_nat (length bs) :: u32) > 496"
    using assms(2) by (simp add: word_less_nat_alt unat_of_nat_len)
  have full: "\<not> head r - tail r \<ge> 4" using assms(1) by (simp add: not_full_iff)
  have zero: "(of_nat (length bs) :: u32) = 0 \<longleftrightarrow> bs = []"
    using unat_of_nat_len [OF assms(2)] unat_eq_zero [of "of_nat (length bs) :: u32"] by simp
  show ?thesis
    by (simp add: plc_spsc_push_flagged_def filled_def len full zero idx_def Let_def
        unat_of_nat_len [OF assms(2)])
qed

lemma filled_facts:
  assumes "frame_wf f" and "length bs \<le> 496"
  shows "frame_wf (filled f seq flags bs)" and "frame_msg (filled f seq flags bs) = (seq, flags, bs)"
    and "fr_len (filled f seq flags bs) \<le> 496"
  using assms
  by (simp_all add: filled_def frame_wf_def frame_msg_def unat_of_nat_len word_le_nat_alt
      length_put_slice put_slice_def)

lemma push_full: "count r \<ge> 4 \<Longrightarrow> fst (plc_spsc_push_flagged r seq flags d len) \<noteq> PLC_OK"
  by (simp add: plc_spsc_push_flagged_def not_full_iff)

lemma pop_OK:
  assumes "ring_wf r" and "count r \<noteq> 0" and "fr_len (ring_slot r 0) \<le> 496" and "cap \<le> 496"
    and "frame_wf out"
  shows "\<exists>f. plc_spsc_pop r out cap = (PLC_OK, r\<lparr>tail := tail r + 1\<rparr>, f)
    \<and> frame_wf f \<and> fr_seq f = fr_seq (ring_slot r 0) \<and> fr_flags f = fr_flags (ring_slot r 0)
    \<and> fr_len f = min (fr_len (ring_slot r 0)) cap
    \<and> take (unat (fr_len f)) (fr_data f) = take (unat (fr_len f)) (fr_data (ring_slot r 0))
    \<and> drop (unat (fr_len f)) (fr_data f) = drop (unat (fr_len f)) (fr_data out)"
proof -
  let ?s = "slots r ! unat (tail r AND 3)"
  let ?n = "if fr_len ?s < cap then fr_len ?s else cap"
  have s: "ring_slot r 0 = ?s" by (simp add: ring_slot_def idx_def)
  have n: "?n = min (fr_len ?s) cap" by (auto simp: min_def)
  have "unat ?n \<le> 496" using assms(3,4) by (simp add: s word_le_nat_alt)
  with ring_wf_slot [OF assms(1), of 0] assms(5)
  have "length (put_slice 0 (get_slice 0 (unat ?n) (fr_data ?s)) (fr_data out)) = 496"
    "take (unat ?n) (put_slice 0 (get_slice 0 (unat ?n) (fr_data ?s)) (fr_data out)) = take (unat ?n) (fr_data ?s)"
    "drop (unat ?n) (put_slice 0 (get_slice 0 (unat ?n) (fr_data ?s)) (fr_data out)) = drop (unat ?n) (fr_data out)"
    by (auto simp: put_slice_def get_slice_def s frame_wf_def)
  then show ?thesis
    using assms n s
    by (auto simp: plc_spsc_pop_def empty_iff Let_def frame_wf_def)
qed

lemma ring_slot_push:
  assumes "ring_wf r" and "count r < 4" and "i \<le> count r"
  shows "ring_slot (r\<lparr>slots := (slots r)[idx (head r) := f], head := head r + 1\<rparr>) i =
    (if i = count r then f else ring_slot r i)"
proof -
  have "length (slots r) = 4" using assms(1) by (simp add: ring_wf_def)
  moreover have "idx (tail r + of_nat i) = idx (head r) \<longleftrightarrow> i = count r"
    using idx_add_inj [of i "count r" "tail r"] assms(2,3) by (simp add: head_eq [of r, symmetric])
  ultimately show ?thesis by (auto simp: ring_slot_def)
qed

lemma ring_wf_push:
  "ring_wf r \<Longrightarrow> frame_wf f \<Longrightarrow> ring_wf (r\<lparr>slots := (slots r)[i := f], head := h\<rparr>)"
  using set_update_subset_insert [of "slots r" i f] by (auto simp: ring_wf_def list_all_iff)

lemma ring_ok_iff:
  "ring_ok r \<longleftrightarrow> ring_wf r \<and> count r \<le> 4 \<and> (\<forall>i < count r. fr_len (ring_slot r i) \<le> 496)"
  by (auto simp: ring_ok_def list_all_iff)

lemma ring_ok_push:
  assumes "ring_ok r" and "count r < 4" and "frame_wf f" and "fr_len f \<le> 496"
  defines "r' \<equiv> r\<lparr>slots := (slots r)[idx (head r) := f], head := head r + 1\<rparr>"
  shows "ring_ok r'" and "msgs r' = msgs r @ [frame_msg f]"
proof -
  have wf: "ring_wf r" using assms(1) by (simp add: ring_ok_def)
  have c: "count r' = Suc (count r)" using count_Suc [OF assms(2)] by (simp add: count_def r'_def)
  have s: "ring_slot r' i = (if i = count r then f else ring_slot r i)" if "i \<le> count r" for i
    unfolding r'_def using that by (rule ring_slot_push [OF wf assms(2)])
  have "ring_wf r'" unfolding r'_def using wf assms(3) by (rule ring_wf_push)
  then show "ring_ok r'" using assms(1-4) c by (simp add: ring_ok_iff less_Suc_eq_le s)
  show "msgs r' = msgs r @ [frame_msg f]" by (simp add: msgs_def c s)
qed

lemma ring_slot_pop: "ring_slot (r\<lparr>tail := tail r + 1\<rparr>) i = ring_slot r (Suc i)"
  by (simp add: ring_slot_def add_ac)

lemma ring_ok_pop:
  assumes "ring_ok r" and "count r \<noteq> 0"
  shows "ring_ok (r\<lparr>tail := tail r + 1\<rparr>)"
    and "msgs r = frame_msg (ring_slot r 0) # msgs (r\<lparr>tail := tail r + 1\<rparr>)"
proof -
  let ?r = "r\<lparr>tail := tail r + 1\<rparr>"
  have c: "count r = Suc (count ?r)"
    using count_pred [of r] assms(2) by (simp add: count_def [of ?r] empty_iff)
  show "ring_ok ?r"
    using assms(1) c by (simp add: ring_ok_iff ring_wf_def ring_slot_pop)
  have "[0 ..< count r] = 0 # map Suc [0 ..< count ?r]"
    by (simp add: c upt_conv_Cons map_Suc_upt del: upt_Suc)
  then show "msgs r = frame_msg (ring_slot r 0) # msgs ?r"
    by (simp add: msgs_def ring_slot_pop o_def del: upt_Suc)
qed

lemma length_msgs [simp]: "length (msgs r) = count r"
  by (simp add: msgs_def)

subsection \<open>The contract of a bounded queue\<close>

datatype 'm queue_op = Put 'm | Get

text \<open>Runs the calls of both sides in the order given; collects what was accepted and delivered.\<close>

fun queue_run ::
  "('q \<Rightarrow> 'm \<Rightarrow> 'q option) \<Rightarrow> ('q \<Rightarrow> ('m \<times> 'q) option) \<Rightarrow> 'q \<Rightarrow> 'm queue_op list
   \<Rightarrow> 'q \<times> 'm list \<times> 'm list" where
  "queue_run put get q [] = (q, [], [])"
| "queue_run put get q (Put m # ops) =
     (case put q m of
        None \<Rightarrow> queue_run put get q ops
      | Some q' \<Rightarrow> (case queue_run put get q' ops of (q'', acc, del) \<Rightarrow> (q'', m # acc, del)))"
| "queue_run put get q (Get # ops) =
     (case get q of
        None \<Rightarrow> queue_run put get q ops
      | Some (m, q') \<Rightarrow> (case queue_run put get q' ops of (q'', acc, del) \<Rightarrow> (q'', acc, m # del)))"

fun op_ok :: "('m \<Rightarrow> bool) \<Rightarrow> 'm queue_op \<Rightarrow> bool" where
  "op_ok P (Put m) = P m"
| "op_ok P Get = True"

locale bounded_fifo =
  fixes put :: "'q \<Rightarrow> 'm \<Rightarrow> 'q option"
    and get :: "'q \<Rightarrow> ('m \<times> 'q) option"
    and content :: "'q \<Rightarrow> 'm list"
    and inv :: "'q \<Rightarrow> bool"
    and valid :: "'m \<Rightarrow> bool"
    and capacity :: nat
  assumes content_le: "inv q \<Longrightarrow> length (content q) \<le> capacity"
    and put_room: "inv q \<Longrightarrow> valid m \<Longrightarrow> length (content q) < capacity \<Longrightarrow>
      \<exists>q'. put q m = Some q' \<and> inv q' \<and> content q' = content q @ [m]"
    and put_full: "inv q \<Longrightarrow> length (content q) = capacity \<Longrightarrow> put q m = None"
    and get_empty: "inv q \<Longrightarrow> content q = [] \<Longrightarrow> get q = None"
    and get_cons: "inv q \<Longrightarrow> content q = m # ms \<Longrightarrow>
      \<exists>q'. get q = Some (m, q') \<and> inv q' \<and> content q' = ms"
begin

lemma put_cases:
  assumes "inv q" and "valid m"
  obtains "put q m = None"
  | q' where "put q m = Some q'" and "inv q'" and "content q' = content q @ [m]"
  using assms content_le [of q] put_room [of q m] put_full [of q m] by (meson le_neq_implies_less)

lemma get_cases:
  assumes "inv q"
  obtains "get q = None" and "content q = []"
  | m q' where "get q = Some (m, q')" and "inv q'" and "content q = m # content q'"
  using assms get_empty [of q] get_cons [of q] by (cases "content q") auto

lemma fifo:
  assumes "inv q" and "list_all (op_ok valid) ops" and "queue_run put get q ops = (q', acc, del)"
  shows "inv q' \<and> content q @ acc = del @ content q'"
  using assms
proof (induction ops arbitrary: q acc del)
  case (Cons p ops)
  show ?case
  proof (cases p)
    case (Put m)
    with Cons.prems have "valid m" by simp
    with Cons.prems(1) show ?thesis
    proof (cases rule: put_cases)
      case (2 q1)
      with Cons.prems Cons.IH [of q1] Put show ?thesis by (auto split: prod.splits)
    qed (use Cons Put in auto)
  next
    case Get
    from Cons.prems(1) show ?thesis
    proof (cases rule: get_cases)
      case 1
      with Cons.prems Cons.IH [of q acc del] Get show ?thesis by simp
    next
      case (2 m q1)
      with Cons.prems Cons.IH [of q1] Get show ?thesis by (auto split: prod.splits)
    qed
  qed
qed simp

end

lemma ring_put_room:
  assumes "ring_ok r" and "msg_ok m" and "count r < 4"
  shows "\<exists>r'. ring_put r m = Some r' \<and> ring_ok r' \<and> msgs r' = msgs r @ [m]"
proof -
  obtain seq flags bs where m: "m = (seq, flags, bs)" by (cases m)
  have wf: "ring_wf r" using assms(1) by (simp add: ring_ok_def)
  from assms(2) m have "length bs \<le> 496" by (simp add: msg_ok_def)
  then show ?thesis
    using ring_ok_push [OF assms(1,3), of "filled (slots r ! idx (head r)) seq flags bs"]
      filled_facts [OF ring_wf_nth [OF wf, of "idx (head r)"], of bs seq flags]
    by (simp add: ring_put_def m push_exact [OF assms(3)])
qed

lemma ring_get_cons:
  assumes "ring_ok r" and "count r \<noteq> 0"
  shows "ring_get r = Some (frame_msg (ring_slot r 0), r\<lparr>tail := tail r + 1\<rparr>)"
proof -
  have wf: "ring_wf r" and len: "fr_len (ring_slot r 0) \<le> 496"
    using assms by (simp_all add: ring_ok_iff)
  have min: "min (fr_len (ring_slot r 0)) 496 = fr_len (ring_slot r 0)" using len by (simp add: min_def)
  have "frame_wf frame_zero" by (simp add: frame_wf_def frame_zero_def)
  from pop_OK [OF wf assms(2) len _ this, of 496] show ?thesis
    by (auto simp: ring_get_def frame_msg_def min)
qed

interpretation ring: bounded_fifo ring_put ring_get msgs ring_ok msg_ok 4
proof
  fix q m ms
  show "ring_ok q \<Longrightarrow> length (msgs q) \<le> 4" by (simp add: ring_ok_def)
  show "ring_ok q \<Longrightarrow> msg_ok m \<Longrightarrow> length (msgs q) < 4 \<Longrightarrow>
      \<exists>q'. ring_put q m = Some q' \<and> ring_ok q' \<and> msgs q' = msgs q @ [m]"
    by (simp add: ring_put_room)
  show "ring_ok q \<Longrightarrow> length (msgs q) = 4 \<Longrightarrow> ring_put q m = None"
    using push_full [of q "fst m" "fst (snd m)" "Some (snd (snd m))" "of_nat (length (snd (snd m)))"]
    by (auto simp: ring_put_def split: prod.splits plc_status.splits)
  show "ring_ok q \<Longrightarrow> msgs q = [] \<Longrightarrow> ring_get q = None"
    using length_msgs [of q] by (simp add: ring_get_def plc_spsc_pop_def empty_iff)
  show "ring_ok q \<Longrightarrow> msgs q = m # ms \<Longrightarrow> \<exists>q'. ring_get q = Some (m, q') \<and> ring_ok q' \<and> msgs q' = ms"
    using ring_get_cons [of q] ring_ok_pop [of q] length_msgs [of q] by auto
qed

subsection \<open>Properties\<close>

text \<open>
  C2: The ring is a bounded first-in first-out queue. For any sequence of pushes and pops,
  from any protocol-conforming state whatever the values of the 32-bit cursors (which wrap
  freely), the frames delivered are exactly the frames accepted, in order, unaltered and
  without loss or duplication; and a push is refused just when four frames are queued.
\<close>

theorem ring_fifo:
  assumes "ring_ok r" and "list_all (op_ok msg_ok) ops"
    and "queue_run ring_put ring_get r ops = (r', accepted, delivered)"
  shows "ring_ok r' \<and> msgs r @ accepted = delivered @ msgs r'
    \<and> (\<forall>m. msg_ok m \<longrightarrow> (ring_put r' m = None \<longleftrightarrow> unat (plc_spsc_count r') = 4))"
proof -
  from ring.fifo [OF assms] have ok: "ring_ok r'" and eq: "msgs r @ accepted = delivered @ msgs r'"
    by simp_all
  have "ring_put r' m = None \<longleftrightarrow> count r' = 4" if "msg_ok m" for m
    using that ok ring.put_full [of r' m] ring.put_room [of r' m] ring.content_le [of r']
    by (auto simp: le_less)
  with ok eq show ?thesis by (simp add: plc_spsc_count_def count_def)
qed

text \<open>An empty ring whose cursors are about to wrap.\<close>

definition wrap_ring :: plc_spsc_ring where
  "wrap_ring = \<lparr>head = 0xFFFFFFFF, tail = 0xFFFFFFFF, slots = replicate 4 frame_zero\<rparr>"

lemma wrap_ring_ok: "ring_ok wrap_ring" "msgs wrap_ring = []"
  by (simp_all add: ring_ok_def ring_wf_def wrap_ring_def count_def msgs_def frame_wf_def
      frame_zero_def list_all_length)

theorem ring_fifo_witness:
  "let ops = [Put (1, 0, [5, 6]), Put (2, 1, [7]), Get];
       (r', accepted, delivered) = queue_run ring_put ring_get wrap_ring ops
   in ring_ok r' \<and> accepted = delivered @ msgs r'"
  using ring_fifo [OF wrap_ring_ok(1), of "[Put (1, 0, [5, 6]), Put (2, 1, [7]), Get]"]
  by (simp add: wrap_ring_ok(2) msg_ok_def Let_def split: prod.split)

lemma pop_outcome:
  assumes "ring_wf r" and "frame_wf out" and "plc_spsc_pop r out cap = (st, r', out')"
  shows "ring_wf r' \<and> frame_wf out' \<and> head r' = head r \<and> slots r' = slots r
    \<and> st = (if cap > 496 then PLC_ERR_INVAL else if plc_spsc_count r = 0 then PLC_ERR_AGAIN
            else if fr_len (ring_slot r 0) > 496 then PLC_ERR_PROTO else PLC_OK)
    \<and> tail r' = (if st = PLC_OK \<or> st = PLC_ERR_PROTO then tail r + 1 else tail r)
    \<and> (if st = PLC_OK then fr_len out' \<le> cap \<and> fr_len out' \<le> fr_len (ring_slot r 0)
       else out' = out)"
proof (cases "cap > 496 \<or> count r = 0 \<or> fr_len (ring_slot r 0) > 496")
  case True
  have "plc_spsc_count r = 0 \<longleftrightarrow> count r = 0" by (simp add: plc_spsc_count_def count_def unat_eq_zero)
  moreover have "ring_slot r 0 = slots r ! unat (tail r AND 3)" by (simp add: ring_slot_def idx_def)
  ultimately show ?thesis
    using True assms by (auto simp: plc_spsc_pop_def empty_iff Let_def ring_wf_def split: if_splits)
next
  case False
  then have "count r \<noteq> 0" "cap \<le> 496" "fr_len (ring_slot r 0) \<le> 496" by auto
  with pop_OK [OF assms(1) _ _ _ assms(2), of cap] assms show ?thesis
    by (auto simp: ring_wf_def plc_spsc_count_def count_def unat_eq_zero)
qed

text \<open>
  C20: The consumer is safe against its peer. Whatever the shared region contains (cursors and
  length fields included), a pop reads and writes only inside the ring and the caller's frame,
  never reports more bytes than the caller's capacity, moves only the consumer's cursor and by
  at most one, and a frame with an impossible length is skipped and reported as
  \<open>PLC_ERR_PROTO\<close> without touching the caller's frame.
\<close>

theorem pop_safe:
  assumes "ring_wf r" and "frame_wf out" and "plc_spsc_pop r out cap = (st, r', out')"
  shows "ring_wf r' \<and> frame_wf out' \<and> head r' = head r \<and> slots r' = slots r
    \<and> st = (if cap > 496 then PLC_ERR_INVAL else if plc_spsc_count r = 0 then PLC_ERR_AGAIN
            else if fr_len (ring_slot r 0) > 496 then PLC_ERR_PROTO else PLC_OK)
    \<and> tail r' = (if st = PLC_OK \<or> st = PLC_ERR_PROTO then tail r + 1 else tail r)
    \<and> (if st = PLC_OK then fr_len out' \<le> cap \<and> fr_len out' \<le> fr_len (ring_slot r 0)
       else out' = out)"
  by (rule pop_outcome [OF assms])

theorem pop_safe_witness:
  "ring_wf (fst (snd (plc_spsc_pop (wrap_ring\<lparr>head := 77,
      slots := replicate 4 (frame_zero\<lparr>fr_len := 0xFFFF0000\<rparr>)\<rparr>) frame_zero 32)))
   \<and> fst (plc_spsc_pop (wrap_ring\<lparr>head := 77,
      slots := replicate 4 (frame_zero\<lparr>fr_len := 0xFFFF0000\<rparr>)\<rparr>) frame_zero 32) = PLC_ERR_PROTO"
proof -
  let ?r = "wrap_ring\<lparr>head := 77, slots := replicate 4 (frame_zero\<lparr>fr_len := 0xFFFF0000\<rparr>)\<rparr>"
  have "ring_wf ?r" "frame_wf frame_zero"
    by (simp_all add: ring_wf_def frame_wf_def frame_zero_def list_all_length)
  moreover have "ring_slot ?r 0 = frame_zero\<lparr>fr_len := 0xFFFF0000\<rparr>" "plc_spsc_count ?r = 78"
    by (simp_all add: ring_slot_def plc_spsc_count_def wrap_ring_def)
  ultimately show ?thesis
    using pop_safe [of ?r frame_zero 32 "fst (plc_spsc_pop ?r frame_zero 32)"
        "fst (snd (plc_spsc_pop ?r frame_zero 32))" "snd (snd (plc_spsc_pop ?r frame_zero 32))"]
    by simp
qed

end
