(* ===== verification/Spsc_Concurrent.thy ===== *)
theory Spsc_Concurrent
  imports Spsc_Ring
begin

text \<open>
  The two sides of the ring as they really run: \<open>plc_spsc_push_flagged\<close> and \<open>plc_spsc_pop\<close> as
  sequences of single loads and stores that interleave arbitrarily, and either process may
  die between any two of them. Accesses are sequentially consistent steps; the release store
  and the acquire load of the cursors are what makes this the behaviour of the C code, because
  they order a side's frame accesses with respect to the cursor the other side reads.

  Stage \<open>k\<close> of a push or pop is its next access to the frame: 0, 1 and 2 are the sequence
  number, the length and the flags, \<open>3 + j\<close> is payload byte \<open>j\<close>, and after the last byte
  comes the cursor store.
\<close>


subsection \<open>Processes\<close>

datatype producer = P_Idle | P_Write msg nat | P_Dead
datatype consumer = C_Idle | C_Read plc_ipc_frame nat | C_Dead

record world =
  ring :: plc_spsc_ring
  prod :: producer
  cons :: consumer
  sent :: "msg list"
  received :: "msg list"

text \<open>One store of the producer into its slot, one load of the consumer from its slot.\<close>

definition store_stage :: "msg \<Rightarrow> nat \<Rightarrow> plc_ipc_frame \<Rightarrow> plc_ipc_frame" where
  "store_stage m k f = (case m of (seq, flags, bs) \<Rightarrow>
     if k = 0 then f\<lparr>fr_seq := seq\<rparr>
     else if k = 1 then f\<lparr>fr_len := of_nat (length bs)\<rparr>
     else if k = 2 then f\<lparr>fr_flags := flags\<rparr>
     else f\<lparr>fr_data := (fr_data f)[k - 3 := bs ! (k - 3)]\<rparr>)"

definition load_stage :: "plc_ipc_frame \<Rightarrow> nat \<Rightarrow> plc_ipc_frame \<Rightarrow> plc_ipc_frame" where
  "load_stage slot k out =
     (if k = 0 then out\<lparr>fr_seq := fr_seq slot\<rparr>
      else if k = 1 then out\<lparr>fr_len := fr_len slot\<rparr>
      else if k = 2 then out\<lparr>fr_flags := fr_flags slot\<rparr>
      else out\<lparr>fr_data := (fr_data out)[k - 3 := fr_data slot ! (k - 3)]\<rparr>)"

definition put_slot :: "plc_spsc_ring \<Rightarrow> plc_ipc_frame \<Rightarrow> plc_spsc_ring" where
  "put_slot r f = r\<lparr>slots := (slots r)[idx (head r) := f]\<rparr>"

inductive spsc_step :: "world \<Rightarrow> world \<Rightarrow> bool" where
  push_begin: "prod w = P_Idle \<Longrightarrow> msg_ok m \<Longrightarrow> \<not> head (ring w) - tail (ring w) \<ge> 4 \<Longrightarrow>
    spsc_step w (w\<lparr>prod := P_Write m 0\<rparr>)"
| push_store: "prod w = P_Write m k \<Longrightarrow> k < 3 + length (snd (snd m)) \<Longrightarrow>
    spsc_step w (w\<lparr>ring := put_slot (ring w) (store_stage m k (slots (ring w) ! idx (head (ring w)))),
                   prod := P_Write m (Suc k)\<rparr>)"
| push_publish: "prod w = P_Write m k \<Longrightarrow> k = 3 + length (snd (snd m)) \<Longrightarrow>
    spsc_step w (w\<lparr>ring := (ring w)\<lparr>head := head (ring w) + 1\<rparr>, prod := P_Idle,
                   sent := sent w @ [m]\<rparr>)"
| push_crash: "spsc_step w (w\<lparr>prod := P_Dead\<rparr>)"
| pop_begin: "cons w = C_Idle \<Longrightarrow> tail (ring w) \<noteq> head (ring w) \<Longrightarrow>
    spsc_step w (w\<lparr>cons := C_Read frame_zero 0\<rparr>)"
| pop_load: "cons w = C_Read out k \<Longrightarrow> k < 3 \<or> fr_len out \<le> 496 \<Longrightarrow>
    k < 3 + unat (fr_len out) \<Longrightarrow>
    spsc_step w (w\<lparr>cons := C_Read (load_stage (slots (ring w) ! idx (tail (ring w))) k out) (Suc k)\<rparr>)"
| pop_skip: "cons w = C_Read out 3 \<Longrightarrow> fr_len out > 496 \<Longrightarrow>
    spsc_step w (w\<lparr>ring := (ring w)\<lparr>tail := tail (ring w) + 1\<rparr>, cons := C_Idle\<rparr>)"
| pop_release: "cons w = C_Read out k \<Longrightarrow> fr_len out \<le> 496 \<Longrightarrow> k = 3 + unat (fr_len out) \<Longrightarrow>
    spsc_step w (w\<lparr>ring := (ring w)\<lparr>tail := tail (ring w) + 1\<rparr>, cons := C_Idle,
                   received := received w @ [frame_msg out]\<rparr>)"
| pop_crash: "spsc_step w (w\<lparr>cons := C_Dead\<rparr>)"

inductive_cases spsc_stepE: "spsc_step w w'"

definition spsc_initial :: "world \<Rightarrow> bool" where
  "spsc_initial w \<longleftrightarrow> ring_ok (ring w) \<and> count (ring w) = 0 \<and> prod w = P_Idle \<and> cons w = C_Idle
     \<and> sent w = [] \<and> received w = []"

text \<open>The first \<open>k\<close> stages of a message are in the frame.\<close>

definition stored :: "msg \<Rightarrow> nat \<Rightarrow> plc_ipc_frame \<Rightarrow> bool" where
  "stored m k f \<longleftrightarrow> (case m of (seq, flags, bs) \<Rightarrow>
     k \<le> 3 + length bs \<and> (k > 0 \<longrightarrow> fr_seq f = seq) \<and> (k > 1 \<longrightarrow> fr_len f = of_nat (length bs))
     \<and> (k > 2 \<longrightarrow> fr_flags f = flags) \<and> take (k - 3) (fr_data f) = take (k - 3) bs)"

definition loaded :: "plc_ipc_frame \<Rightarrow> nat \<Rightarrow> plc_ipc_frame \<Rightarrow> bool" where
  "loaded slot k f \<longleftrightarrow>
     (k > 0 \<longrightarrow> fr_seq f = fr_seq slot) \<and> (k > 1 \<longrightarrow> fr_len f = fr_len slot)
     \<and> (k > 2 \<longrightarrow> fr_flags f = fr_flags slot) \<and> k \<le> 3 + unat (fr_len slot)
     \<and> take (k - 3) (fr_data f) = take (k - 3) (fr_data slot)"

fun prod_inv :: "plc_spsc_ring \<Rightarrow> producer \<Rightarrow> bool" where
  "prod_inv r (P_Write m k) \<longleftrightarrow> msg_ok m \<and> count r < 4 \<and> stored m k (slots r ! idx (head r))"
| "prod_inv r _ \<longleftrightarrow> True"

fun cons_inv :: "plc_spsc_ring \<Rightarrow> consumer \<Rightarrow> bool" where
  "cons_inv r (C_Read out k) \<longleftrightarrow> count r > 0 \<and> frame_wf out \<and> loaded (ring_slot r 0) k out"
| "cons_inv r _ \<longleftrightarrow> True"

definition spsc_inv :: "world \<Rightarrow> bool" where
  "spsc_inv w \<longleftrightarrow> ring_ok (ring w) \<and> received w @ msgs (ring w) = sent w
     \<and> prod_inv (ring w) (prod w) \<and> cons_inv (ring w) (cons w)"


subsection \<open>The invariant is kept by every step\<close>

lemma count_put_slot [simp]: "count (put_slot r f) = count r"
  by (simp add: put_slot_def count_def)

lemma put_slot_fields [simp]: "head (put_slot r f) = head r" "tail (put_slot r f) = tail r"
  by (simp_all add: put_slot_def)

lemma put_slot_head: "ring_wf r \<Longrightarrow> slots (put_slot r f) ! idx (head r) = f"
  by (simp add: put_slot_def ring_wf_def)

lemma ring_slot_put_slot:
  assumes "count r < 4" and "i < count r"
  shows "ring_slot (put_slot r f) i = ring_slot r i"
proof -
  have "idx (tail r + of_nat i) \<noteq> idx (head r)"
    using idx_add_inj [of i "count r" "tail r"] assms by (simp add: head_eq [of r, symmetric])
  then show ?thesis by (simp add: ring_slot_def put_slot_def)
qed

lemma msgs_put_slot: "count r < 4 \<Longrightarrow> msgs (put_slot r f) = msgs r"
  by (simp add: msgs_def ring_slot_put_slot)

lemma ring_ok_put_slot: "ring_ok r \<Longrightarrow> count r < 4 \<Longrightarrow> frame_wf f \<Longrightarrow> ring_ok (put_slot r f)"
  using ring_wf_push [of r f "head r" "idx (head r)"]
  by (simp add: ring_ok_iff ring_slot_put_slot) (simp add: put_slot_def ring_wf_def)

lemma store_stage_wf: "frame_wf f \<Longrightarrow> frame_wf (store_stage m k f)"
  by (simp add: store_stage_def frame_wf_def split: prod.split)

lemma take_Suc_update:
  "k < length xs \<Longrightarrow> take (Suc k) (xs[k := x]) = take k xs @ [x]"
  by (simp add: take_Suc_conv_app_nth)

lemma stored_stage:
  assumes "stored m k f" and "frame_wf f" and "msg_ok m" and "k < 3 + length (snd (snd m))"
  shows "stored m (Suc k) (store_stage m k f)"
proof -
  obtain seq flags bs where m: "m = (seq, flags, bs)" by (cases m)
  show ?thesis
  proof (cases "k < 3")
    case True
    then have "k = 0 \<or> k = 1 \<or> k = 2" by auto
    with assms(1) m show ?thesis by (auto simp: stored_def store_stage_def)
  next
    case False
    then obtain j where k: "k = 3 + j" using le_Suc_ex by fastforce
    from assms(2-4) m k have "j < length (fr_data f)" "j < length bs"
      by (simp_all add: frame_wf_def msg_ok_def)
    with assms(1) m k show ?thesis
      by (simp add: stored_def store_stage_def take_Suc_update take_Suc_conv_app_nth [of j bs])
  qed
qed

lemma stored_all:
  assumes "stored m (3 + length (snd (snd m))) f" and "msg_ok m"
  shows "frame_msg f = m" and "fr_len f \<le> 496"
  using assms by (auto simp: stored_def frame_msg_def msg_ok_def unat_of_nat_len word_le_nat_alt
      split: prod.splits)

lemma load_stage_wf: "frame_wf f \<Longrightarrow> frame_wf (load_stage s k f)"
  by (simp add: load_stage_def frame_wf_def)

lemma loaded_stage:
  assumes "loaded s k f" and "frame_wf f" and "frame_wf s" and "fr_len s \<le> 496"
    and "k < 3 + unat (fr_len f)"
  shows "loaded s (Suc k) (load_stage s k f)"
proof (cases "k < 3")
  case True
  then have "k = 0 \<or> k = 1 \<or> k = 2" by auto
  with assms(1) show ?thesis by (auto simp: loaded_def load_stage_def)
next
  case False
  then obtain j where k: "k = 3 + j" using le_Suc_ex by fastforce
  with assms have "fr_len f = fr_len s" by (simp add: loaded_def)
  with assms k have "j < length (fr_data f)" "j < length (fr_data s)" "j < unat (fr_len s)"
    by (simp_all add: frame_wf_def word_le_nat_alt)
  with assms(1) k show ?thesis
    by (simp add: loaded_def load_stage_def take_Suc_update take_Suc_conv_app_nth [of j "fr_data s"])
qed

lemma loaded_all:
  assumes "loaded s k f" and "k = 3 + unat (fr_len f)"
  shows "frame_msg f = frame_msg s"
  using assms by (auto simp: loaded_def frame_msg_def)

lemma cons_inv_ring:
  assumes "cons_inv r c" and "count r \<le> count r'"
    and "count r > 0 \<Longrightarrow> ring_slot r' 0 = ring_slot r 0"
  shows "cons_inv r' c"
  using assms by (cases c) auto

lemma spsc_inv_store:
  assumes "spsc_inv w" and "prod w = P_Write m k" and "k < 3 + length (snd (snd m))"
  shows "spsc_inv (w\<lparr>ring := put_slot (ring w) (store_stage m k (slots (ring w) ! idx (head (ring w)))),
                     prod := P_Write m (Suc k)\<rparr>)"
proof -
  let ?r = "ring w" and ?f = "slots (ring w) ! idx (head (ring w))"
  from assms have ok: "ring_ok ?r" and c: "cons_inv ?r (cons w)" and eq: "received w @ msgs ?r = sent w"
    and room: "count ?r < 4" and m: "msg_ok m" and st: "stored m k ?f" by (simp_all add: spsc_inv_def)
  from ok have wf: "ring_wf ?r" by (simp add: ring_ok_iff)
  have f: "frame_wf ?f" by (rule ring_wf_nth [OF wf idx_less])
  have "ring_ok (put_slot ?r (store_stage m k ?f))"
    using ok room store_stage_wf [OF f] by (rule ring_ok_put_slot)
  moreover have "cons_inv (put_slot ?r (store_stage m k ?f)) (cons w)"
    using c by (rule cons_inv_ring) (simp_all add: ring_slot_put_slot [OF room])
  moreover have "stored m (Suc k) (store_stage m k ?f)" using st f m assms(3) by (rule stored_stage)
  ultimately show ?thesis
    using eq room m by (simp add: spsc_inv_def msgs_put_slot put_slot_head [OF wf])
qed

lemma spsc_inv_publish:
  assumes "spsc_inv w" and "prod w = P_Write m (3 + length (snd (snd m)))"
  shows "spsc_inv (w\<lparr>ring := (ring w)\<lparr>head := head (ring w) + 1\<rparr>, prod := P_Idle,
                     sent := sent w @ [m]\<rparr>)"
proof -
  let ?r = "ring w" and ?f = "slots (ring w) ! idx (head (ring w))"
  from assms have ok: "ring_ok ?r" and room: "count ?r < 4" and c: "cons_inv ?r (cons w)"
    and st: "stored m (3 + length (snd (snd m))) ?f" "msg_ok m" by (simp_all add: spsc_inv_def)
  note f = stored_all [OF st]
  from ok have wf: "ring_wf ?r" by (simp add: ring_ok_iff)
  have fwf: "frame_wf ?f" by (rule ring_wf_nth [OF wf idx_less])
  have eq: "?r\<lparr>slots := (slots ?r)[idx (head ?r) := ?f], head := head ?r + 1\<rparr> = ?r\<lparr>head := head ?r + 1\<rparr>"
    by (cases ?r) simp
  from ring_ok_push [OF ok room fwf f(2)] have ok': "ring_ok (?r\<lparr>head := head ?r + 1\<rparr>)"
    and ms: "msgs (?r\<lparr>head := head ?r + 1\<rparr>) = msgs ?r @ [m]" unfolding eq f(1) by simp_all
  have "ring_slot (?r\<lparr>head := head ?r + 1\<rparr>) 0 = ring_slot ?r 0" by (simp add: ring_slot_def)
  moreover have "count (?r\<lparr>head := head ?r + 1\<rparr>) = Suc (count ?r)"
    using count_Suc [OF room] by (simp add: count_def)
  ultimately have "cons_inv (?r\<lparr>head := head ?r + 1\<rparr>) (cons w)"
    using cons_inv_ring [OF c] by simp
  with assms(1) ok' ms show ?thesis by (auto simp: spsc_inv_def)
qed

lemma spsc_inv_load:
  assumes "spsc_inv w" and "cons w = C_Read out k" and "k < 3 + unat (fr_len out)"
  shows "spsc_inv (w\<lparr>cons := C_Read (load_stage (slots (ring w) ! idx (tail (ring w))) k out) (Suc k)\<rparr>)"
proof -
  have slot: "ring_slot (ring w) 0 = slots (ring w) ! idx (tail (ring w))" by (simp add: ring_slot_def)
  from assms have *: "count (ring w) > 0" "frame_wf out" "loaded (ring_slot (ring w) 0) k out"
    "ring_ok (ring w)" by (auto simp: spsc_inv_def)
  then have "frame_wf (ring_slot (ring w) 0)" "fr_len (ring_slot (ring w) 0) \<le> 496"
    using ring_wf_slot [of "ring w" 0] by (simp_all add: ring_ok_iff frame_wf_def)
  with * have "loaded (ring_slot (ring w) 0) (Suc k) (load_stage (ring_slot (ring w) 0) k out)"
    using assms(3) by (intro loaded_stage) auto
  with assms * show ?thesis by (simp add: spsc_inv_def slot load_stage_wf)
qed

lemma spsc_inv_release:
  assumes "spsc_inv w" and "cons w = C_Read out k" and "k = 3 + unat (fr_len out)"
  shows "spsc_inv (w\<lparr>ring := (ring w)\<lparr>tail := tail (ring w) + 1\<rparr>, cons := C_Idle,
                     received := received w @ [frame_msg out]\<rparr>)"
proof -
  let ?r = "ring w" and ?r' = "(ring w)\<lparr>tail := tail (ring w) + 1\<rparr>"
  from assms have ok: "ring_ok ?r" and c: "count ?r \<noteq> 0"
    and ld: "loaded (ring_slot ?r 0) k out" by (auto simp: spsc_inv_def)
  have "count ?r = Suc (count ?r')" using count_pred [of ?r] c by (simp add: count_def [of ?r'] empty_iff)
  then have "prod_inv ?r' (prod w)"
    using assms(1) by (cases "prod w") (auto simp: spsc_inv_def)
  moreover have "frame_msg out = frame_msg (ring_slot ?r 0)" using ld assms(3) by (rule loaded_all)
  ultimately show ?thesis
    using assms(1) ring_ok_pop [OF ok c] by (simp add: spsc_inv_def)
qed

lemma spsc_inv_step: "spsc_step w w' \<Longrightarrow> spsc_inv w \<Longrightarrow> spsc_inv w'"
proof (induction rule: spsc_step.induct)
  case (push_begin w m)
  then show ?case
    by (auto simp: spsc_inv_def not_full_iff stored_def split: prod.splits)
next
  case (push_store w m k)
  then show ?case by (intro spsc_inv_store)
next
  case (push_publish w m k)
  then show ?case by (intro spsc_inv_publish) simp_all
next
  case (pop_begin w)
  then have "0 < count (ring w)" using empty_iff [of "ring w"] by simp
  with pop_begin show ?case
    by (simp add: spsc_inv_def loaded_def frame_wf_def frame_zero_def)
next
  case (pop_load w out k)
  then show ?case by (intro spsc_inv_load)
next
  case (pop_skip w out)
  then have "loaded (ring_slot (ring w) 0) 3 out" "fr_len (ring_slot (ring w) 0) \<le> 496"
    by (auto simp: spsc_inv_def ring_ok_iff)
  with pop_skip have False by (simp add: loaded_def)
  then show ?case ..
next
  case (pop_release w out k)
  then show ?case by (intro spsc_inv_release [where k = k])
qed (simp_all add: spsc_inv_def)

lemma spsc_inv_reachable:
  assumes "spsc_initial w\<^sub>0" and "spsc_step\<^sup>*\<^sup>* w\<^sub>0 w"
  shows "spsc_inv w"
  using assms(2,1)
proof (induction rule: rtranclp_induct)
  case base
  then have "msgs (ring w\<^sub>0) = []" by (simp add: spsc_initial_def msgs_def)
  with base show ?case by (simp add: spsc_inv_def spsc_initial_def)
qed (blast intro: spsc_inv_step)

text \<open>
  A push that is not interrupted takes these steps and ends as \<^const>\<open>plc_spsc_push_flagged\<close>
  says.
\<close>

lemma fold_store_stage:
  assumes "n \<le> length bs" and "length bs \<le> length (fr_data f)"
  shows "fold (store_stage (seq, flags, bs)) [0 ..< 3 + n] f =
    f\<lparr>fr_seq := seq, fr_len := of_nat (length bs), fr_flags := flags,
      fr_data := take n bs @ drop n (fr_data f)\<rparr>"
  using assms
proof (induction n)
  case 0
  have "[0 ..< 3] = [0, 1, 2 :: nat]" by (simp add: upt_rec)
  then show ?case by (simp add: store_stage_def)
next
  case (Suc n)
  then have IH: "fold (store_stage (seq, flags, bs)) [0 ..< 3 + n] f =
    f\<lparr>fr_seq := seq, fr_len := of_nat (length bs), fr_flags := flags,
      fr_data := take n bs @ drop n (fr_data f)\<rparr>" "n < length (fr_data f)" by simp_all
  have "[0 ..< 3 + Suc n] = [0 ..< 3 + n] @ [3 + n]"
    using upt_Suc_append [of 0 "3 + n"] by (simp only: add_Suc_right)
  moreover have "store_stage (seq, flags, bs) (3 + n) g = g\<lparr>fr_data := (fr_data g)[n := bs ! n]\<rparr>" for g
    by (simp add: store_stage_def)
  ultimately show ?case using IH Suc.prems
    by (simp add: list_update_append take_Suc_conv_app_nth Cons_nth_drop_Suc [symmetric] del: upt_Suc)
qed

lemma put_slot_put_slot: "put_slot (put_slot r f) g = put_slot r g"
  by (simp add: put_slot_def)

lemma push_stores:
  assumes "ring_wf (ring w)" and "prod w = P_Write m 0" and "k \<le> 3 + length (snd (snd m))"
  shows "spsc_step\<^sup>*\<^sup>* w (w\<lparr>ring := put_slot (ring w)
      (fold (store_stage m) [0 ..< k] (slots (ring w) ! idx (head (ring w)))), prod := P_Write m k\<rparr>)"
  using assms(3)
proof (induction k)
  case 0
  have "put_slot (ring w) (slots (ring w) ! idx (head (ring w))) = ring w" by (simp add: put_slot_def)
  moreover have "w\<lparr>ring := ring w, prod := P_Write m 0\<rparr> = w" using assms(2) by (cases w) simp
  ultimately show ?case by simp
next
  case (Suc k)
  let ?f = "fold (store_stage m) [0 ..< k] (slots (ring w) ! idx (head (ring w)))"
  let ?w = "w\<lparr>ring := put_slot (ring w) ?f, prod := P_Write m k\<rparr>"
  have "spsc_step ?w (w\<lparr>ring := put_slot (ring w) (store_stage m k ?f), prod := P_Write m (Suc k)\<rparr>)"
    using push_store [of ?w m k] Suc.prems
    by (simp add: put_slot_head [OF assms(1)] put_slot_put_slot)
  with Suc show ?case by simp
qed

lemma push_run:
  assumes "ring_wf (ring w)" and "prod w = P_Idle" and "count (ring w) < 4" and "length bs \<le> 496"
  shows "spsc_step\<^sup>*\<^sup>* w (w\<lparr>ring := snd (plc_spsc_push_flagged (ring w) seq flags (Some bs)
      (of_nat (length bs))), sent := sent w @ [(seq, flags, bs)]\<rparr>)"
proof -
  let ?m = "(seq, flags, bs)" and ?r = "ring w"
  let ?f = "fold (store_stage ?m) [0 ..< 3 + length bs] (slots ?r ! idx (head ?r))"
  let ?w1 = "w\<lparr>prod := P_Write ?m 0\<rparr>"
  let ?w2 = "w\<lparr>ring := put_slot ?r ?f, prod := P_Write ?m (3 + length bs)\<rparr>"
  have "spsc_step w ?w1"
    using assms by (intro push_begin) (simp_all add: msg_ok_def not_full_iff)
  moreover have "spsc_step\<^sup>*\<^sup>* ?w1 ?w2" using push_stores [of ?w1 ?m "3 + length bs"] assms(1) by simp
  moreover have "spsc_step ?w2 (?w2\<lparr>ring := (ring ?w2)\<lparr>head := head (ring ?w2) + 1\<rparr>, prod := P_Idle,
      sent := sent ?w2 @ [?m]\<rparr>)"
    by (intro push_publish [where k = "3 + length bs"]) simp_all
  moreover have "length (fr_data (slots ?r ! idx (head ?r))) = 496"
    using ring_wf_nth [OF assms(1), of "idx (head ?r)"] by (simp add: frame_wf_def)
  then have "snd (plc_spsc_push_flagged ?r seq flags (Some bs) (of_nat (length bs))) =
      (put_slot ?r ?f)\<lparr>head := head ?r + 1\<rparr>"
    using fold_store_stage [of "length bs" bs "slots ?r ! idx (head ?r)" seq flags] assms(4)
    by (simp add: push_exact [OF assms(3,4)] put_slot_def filled_def put_slice_def)
  moreover have "?w2\<lparr>ring := (ring ?w2)\<lparr>head := head (ring ?w2) + 1\<rparr>, prod := P_Idle,
      sent := sent ?w2 @ [?m]\<rparr> = w\<lparr>ring := (put_slot ?r ?f)\<lparr>head := head ?r + 1\<rparr>, sent := sent w @ [?m]\<rparr>"
    using assms(2) by (cases w) simp
  ultimately show ?thesis by (simp only: rtranclp.rtrancl_into_rtrancl converse_rtranclp_into_rtranclp)
qed

text \<open>
  C1: The ring is safe under every interleaving and every crash. In each state reachable from
  an empty ring by single loads and stores of the two processes, either of which may have died
  between any two of them, what has been received followed by what is queued is exactly what
  has been published, in order: no frame is lost, duplicated or reordered, and no half-written
  frame is ever visible.
\<close>

theorem interleaving_safe:
  assumes "spsc_initial w\<^sub>0" and "spsc_step\<^sup>*\<^sup>* w\<^sub>0 w"
  shows "received w @ msgs (ring w) = sent w \<and> ring_ok (ring w)"
  using spsc_inv_reachable [OF assms] by (simp add: spsc_inv_def)

definition idle_world :: world where
  "idle_world = \<lparr>ring = wrap_ring, prod = P_Idle, cons = C_Idle, sent = [], received = []\<rparr>"

lemma idle_world_initial: "spsc_initial idle_world"
  using wrap_ring_ok by (simp add: idle_world_def spsc_initial_def count_def wrap_ring_def)

theorem interleaving_safe_witness:
  "\<exists>w. spsc_step\<^sup>*\<^sup>* idle_world w \<and> prod w = P_Dead \<and> sent w = [(7, 0, [1, 2])]
     \<and> received w @ msgs (ring w) = [(7, 0, [1, 2])]"
proof -
  let ?r = "snd (plc_spsc_push_flagged wrap_ring 7 0 (Some [1, 2]) (of_nat (length [1 :: byte, 2])))"
  let ?w1 = "idle_world\<lparr>ring := ?r, sent := [(7, 0, [1, 2])]\<rparr>"
  have room: "ring_wf (ring idle_world)" "count (ring idle_world) < 4" "prod idle_world = P_Idle"
    using wrap_ring_ok(1) by (simp_all add: idle_world_def ring_ok_def count_def wrap_ring_def)
  from push_run [OF room(1,3,2), of "[1, 2]" 7 0] have 1: "spsc_step\<^sup>*\<^sup>* idle_world ?w1"
    by (simp add: idle_world_def)
  have "count ?r = 1"
    using push_exact [of wrap_ring "[1, 2]" 7 0] by (simp add: count_def) (simp add: wrap_ring_def)
  then have "spsc_step ?w1 (?w1\<lparr>prod := P_Write (8, 0, [3]) 0\<rparr>)"
    by (intro push_begin) (simp_all add: idle_world_def msg_ok_def not_full_iff)
  moreover have "spsc_step (?w1\<lparr>prod := P_Write (8, 0, [3]) 0\<rparr>) (?w1\<lparr>prod := P_Dead\<rparr>)"
    using push_crash [of "?w1\<lparr>prod := P_Write (8, 0, [3]) 0\<rparr>"] by simp
  moreover define w where "w = ?w1\<lparr>prod := P_Dead\<rparr>"
  ultimately have r: "spsc_step\<^sup>*\<^sup>* idle_world w"
    using 1 by (meson rtranclp.rtrancl_into_rtrancl)
  have "prod w = P_Dead" "sent w = [(7, 0, [1, 2])]" by (simp_all add: w_def)
  with interleaving_safe [OF idle_world_initial r] r show ?thesis by auto
qed

end
