(* ===== verification/Protocol_Adapter.thy ===== *)
theory Protocol_Adapter
  imports Plc_Types
begin

text \<open>
  \<open>protocol_adapter.h\<close> and \<open>core/protocol_adapter.c\<close>: the interface between the core and a
  protocol stack, the shared staleness and failsafe helpers, and the checked call wrappers.

  The dispatch table is a record of optional functions over the implementation's private state
  \<open>'i\<close>. A call takes one more argument, of type \<open>'e\<close>, for everything the outside world does
  during it (clock readings, answers of the peer). The caller's input buffer goes in and comes
  back as a value; nothing else of the caller is reachable from an adapter.
\<close>


subsection \<open>Data\<close>

datatype plc_failsafe_policy = PLC_FAILSAFE_HOLD | PLC_FAILSAFE_CLEAR

datatype plc_adapter_state_t =
  PLC_ADAPTER_CLOSED | PLC_ADAPTER_OPENING | PLC_ADAPTER_ONLINE
| PLC_ADAPTER_DEGRADED | PLC_ADAPTER_FAULTED

abbreviation (input) PLC_ADAPTER_ABI_VERSION :: u32 where "PLC_ADAPTER_ABI_VERSION \<equiv> 1"
abbreviation (input) PLC_ADAPTER_CAP_OUT_OF_PROCESS :: u32 where "PLC_ADAPTER_CAP_OUT_OF_PROCESS \<equiv> 1"

record plc_adapter_caps =
  abi_version :: u32
  cap_name :: string
  protocol :: string
  input_bytes :: u32
  output_bytes :: u32
  failsafe_policy :: plc_failsafe_policy
  exchange_timeout_us :: u32
  failsafe_timeout_us :: u32
  cap_flags :: u32
  point_override_capacity :: u32

record plc_adapter_config =
  cfg_name :: "string option"
  cfg_endpoint :: "string option"
  cfg_input_bytes :: u32
  cfg_output_bytes :: u32
  cfg_failsafe_policy :: plc_failsafe_policy
  cfg_exchange_timeout_us :: u32
  cfg_failsafe_timeout_us :: u32

record plc_adapter_stats =
  exchanges :: u64
  timeouts :: u64
  stale_for_us :: u64
  failsafe_activations :: u64
  data_invalid :: u64
  protocol_errors :: u64
  last_rtt_us :: u64
  max_rtt_us :: u64

record plc_staleness =
  last_good_us :: u64
  have_good :: bool

definition caps_zero :: plc_adapter_caps where
  "caps_zero = \<lparr>abi_version = 0, cap_name = '''', protocol = '''', input_bytes = 0, output_bytes = 0,
     failsafe_policy = PLC_FAILSAFE_HOLD, exchange_timeout_us = 0, failsafe_timeout_us = 0,
     cap_flags = 0, point_override_capacity = 0\<rparr>"

definition stats_zero :: plc_adapter_stats where
  "stats_zero = \<lparr>exchanges = 0, timeouts = 0, stale_for_us = 0, failsafe_activations = 0,
     data_invalid = 0, protocol_errors = 0, last_rtt_us = 0, max_rtt_us = 0\<rparr>"

definition staleness_zero :: plc_staleness where
  "staleness_zero = \<lparr>last_good_us = 0, have_good = False\<rparr>"

subsection \<open>Helpers shared by the adapters\<close>

definition plc_adapter_config_init :: plc_adapter_config where
  "plc_adapter_config_init = \<lparr>cfg_name = None, cfg_endpoint = None, cfg_input_bytes = 0,
     cfg_output_bytes = 0, cfg_failsafe_policy = PLC_FAILSAFE_HOLD, cfg_exchange_timeout_us = 0,
     cfg_failsafe_timeout_us = 0\<rparr>"

text \<open>The clock reading is the pair of seconds and nanoseconds that \<open>clock_gettime\<close> returns.\<close>

definition plc_now_us :: "u64 \<times> u64 \<Rightarrow> u64" where
  "plc_now_us ts = fst ts * 1000000 + snd ts div 1000"

definition plc_staleness_mark_fresh :: "u64 \<Rightarrow> plc_staleness \<Rightarrow> plc_staleness" where
  "plc_staleness_mark_fresh now st = st\<lparr>last_good_us := now, have_good := True\<rparr>"

definition plc_staleness_age_us :: "u64 \<Rightarrow> plc_staleness \<Rightarrow> u64 \<Rightarrow> u64" where
  "plc_staleness_age_us now st opened_us =
     (let from = (if have_good st then last_good_us st else opened_us) in
      if from \<noteq> 0 \<and> now > from then now - from else 0)"

fun plc_adapter_state_name :: "plc_adapter_state_t \<Rightarrow> string" where
  "plc_adapter_state_name PLC_ADAPTER_CLOSED = ''CLOSED''"
| "plc_adapter_state_name PLC_ADAPTER_OPENING = ''OPENING''"
| "plc_adapter_state_name PLC_ADAPTER_ONLINE = ''ONLINE''"
| "plc_adapter_state_name PLC_ADAPTER_DEGRADED = ''DEGRADED''"
| "plc_adapter_state_name PLC_ADAPTER_FAULTED = ''FAULTED''"

definition plc_adapter_apply_failsafe ::
  "plc_failsafe_policy \<Rightarrow> byte list option \<Rightarrow> byte list option \<Rightarrow> size_t \<Rightarrow> byte list option" where
  "plc_adapter_apply_failsafe policy in_buf last_good len =
     (case in_buf of
        None \<Rightarrow> None
      | Some bs \<Rightarrow>
          if len = 0 then Some bs
          else (case last_good of
              None \<Rightarrow> Some (put_slice 0 (replicate (unat len) 0) bs)
            | Some lg \<Rightarrow>
                if policy = PLC_FAILSAFE_CLEAR then Some (put_slice 0 (replicate (unat len) 0) bs)
                else Some (put_slice 0 (get_slice 0 (unat len) lg) bs)))"

subsection \<open>The dispatch table and its checked wrappers\<close>

record ('i, 'e) plc_adapter_vtbl =
  vt_open :: "('i \<Rightarrow> plc_adapter_config \<Rightarrow> 'e \<Rightarrow> plc_status \<times> 'i) option"
  vt_close :: "('i \<Rightarrow> plc_status \<times> 'i) option"
  vt_exchange :: "('i \<Rightarrow> byte list option \<Rightarrow> size_t \<Rightarrow> byte list option \<Rightarrow> size_t \<Rightarrow> 'e
                   \<Rightarrow> plc_status \<times> 'i \<times> byte list option) option"
  vt_get_caps :: "('i \<Rightarrow> plc_status \<times> plc_adapter_caps) option"
  vt_get_stats :: "('i \<Rightarrow> plc_status \<times> plc_adapter_stats) option"
  vt_state :: "('i \<Rightarrow> plc_adapter_state_t) option"

record ('i, 'e) plc_protocol_adapter =
  vtbl :: "('i, 'e) plc_adapter_vtbl option"
  impl :: 'i

definition plc_adapter_open ::
  "('i, 'e) plc_protocol_adapter \<Rightarrow> plc_adapter_config option \<Rightarrow> 'e
   \<Rightarrow> plc_status \<times> ('i, 'e) plc_protocol_adapter" where
  "plc_adapter_open a cfg e =
     (case (Option.bind (vtbl a) vt_open, cfg) of
        (Some f, Some c) \<Rightarrow> (case f (impl a) c e of (st, i) \<Rightarrow> (st, a\<lparr>impl := i\<rparr>))
      | _ \<Rightarrow> (PLC_ERR_INVAL, a))"

definition plc_adapter_close ::
  "('i, 'e) plc_protocol_adapter \<Rightarrow> plc_status \<times> ('i, 'e) plc_protocol_adapter" where
  "plc_adapter_close a =
     (case Option.bind (vtbl a) vt_close of
        Some f \<Rightarrow> (case f (impl a) of (st, i) \<Rightarrow> (st, a\<lparr>impl := i\<rparr>))
      | None \<Rightarrow> (PLC_ERR_INVAL, a))"

definition plc_adapter_exchange ::
  "('i, 'e) plc_protocol_adapter \<Rightarrow> byte list option \<Rightarrow> size_t \<Rightarrow> byte list option \<Rightarrow> size_t \<Rightarrow> 'e
   \<Rightarrow> plc_status \<times> ('i, 'e) plc_protocol_adapter \<times> byte list option" where
  "plc_adapter_exchange a out out_len in_buf in_len e =
     (case Option.bind (vtbl a) vt_exchange of
        None \<Rightarrow> (PLC_ERR_INVAL, a, in_buf)
      | Some f \<Rightarrow>
          if (out_len \<noteq> 0 \<and> out = None) \<or> (in_len \<noteq> 0 \<and> in_buf = None) then (PLC_ERR_INVAL, a, in_buf)
          else (case f (impl a) out out_len in_buf in_len e of (st, i, b) \<Rightarrow> (st, a\<lparr>impl := i\<rparr>, b)))"

definition plc_adapter_get_caps ::
  "('i, 'e) plc_protocol_adapter \<Rightarrow> plc_status \<times> plc_adapter_caps option" where
  "plc_adapter_get_caps a =
     (case Option.bind (vtbl a) vt_get_caps of
        None \<Rightarrow> (PLC_ERR_INVAL, None)
      | Some f \<Rightarrow> (case f (impl a) of (st, c) \<Rightarrow> (st, Some c)))"

definition plc_adapter_get_stats ::
  "('i, 'e) plc_protocol_adapter \<Rightarrow> plc_status \<times> plc_adapter_stats option" where
  "plc_adapter_get_stats a =
     (case Option.bind (vtbl a) vt_get_stats of
        None \<Rightarrow> (PLC_ERR_INVAL, None)
      | Some f \<Rightarrow> (case f (impl a) of (st, c) \<Rightarrow> (st, Some c)))"

definition plc_adapter_state :: "('i, 'e) plc_protocol_adapter \<Rightarrow> plc_adapter_state_t" where
  "plc_adapter_state a =
     (case Option.bind (vtbl a) vt_state of None \<Rightarrow> PLC_ADAPTER_CLOSED | Some f \<Rightarrow> f (impl a))"


subsection \<open>Facts on the helpers\<close>

lemma apply_failsafe_None [simp]: "plc_adapter_apply_failsafe p None lg len = None"
  by (simp add: plc_adapter_apply_failsafe_def)

lemma apply_failsafe_Some:
  "unat len \<le> length lg \<Longrightarrow>
   plc_adapter_apply_failsafe p (Some bs) (Some lg) len =
     Some (put_slice 0 (if p = PLC_FAILSAFE_CLEAR then replicate (unat len) 0 else take (unat len) lg) bs)"
  by (auto simp: plc_adapter_apply_failsafe_def get_slice_def)

lemma apply_failsafe_window:
  assumes "unat len \<le> length lg" and "unat len \<le> length bs"
  shows "\<exists>bs'. plc_adapter_apply_failsafe p (Some bs) (Some lg) len = Some bs'
    \<and> length bs' = length bs \<and> drop (unat len) bs' = drop (unat len) bs
    \<and> take (unat len) bs' = (if p = PLC_FAILSAFE_CLEAR then replicate (unat len) 0 else take (unat len) lg)"
  using assms by (auto simp: apply_failsafe_Some put_slice_def)

text \<open>The age is the true time since the reference point, as long as the clock moved forward.\<close>

lemma age_fresh:
  "now \<le> later \<Longrightarrow> now \<noteq> 0 \<Longrightarrow>
   plc_staleness_age_us later (plc_staleness_mark_fresh now st) opened = later - now"
  by (auto simp: plc_staleness_age_us_def plc_staleness_mark_fresh_def Let_def)

lemma age_never_fresh:
  "opened \<le> later \<Longrightarrow> opened \<noteq> 0 \<Longrightarrow> plc_staleness_age_us later staleness_zero opened = later - opened"
  by (auto simp: plc_staleness_age_us_def staleness_zero_def)

subsection \<open>The contract of an adapter\<close>

text \<open>
  What the header demands of every implementation, seen from the scan. An open, well-formed
  adapter reports its capabilities and keeps them. An exchange within the announced sizes
  leaves it open and well formed; it writes the window of the caller's buffer it was given
  and nothing else (copy semantics), and it writes all of it whatever the peer did: what the
  buffer held before has no influence on the outcome (no uninitialised or torn input image).
\<close>

definition out_fits :: "size_t \<Rightarrow> byte list option \<Rightarrow> bool" where
  "out_fits ol out \<longleftrightarrow> (case out of None \<Rightarrow> ol = 0 | Some bs \<Rightarrow> unat ol \<le> length bs)"

locale io_adapter =
  fixes good :: "('i, 'e) plc_protocol_adapter \<Rightarrow> bool"
    and caps :: "('i, 'e) plc_protocol_adapter \<Rightarrow> plc_adapter_caps"
    and env_ok :: "'e \<Rightarrow> bool"
  assumes get_caps: "good a \<Longrightarrow> plc_adapter_get_caps a = (PLC_OK, Some (caps a))"
    and exchange_contract:
      "\<lbrakk>good a; env_ok e; unat ol \<le> unat (output_bytes (caps a)); unat il \<le> unat (input_bytes (caps a));
        out_fits ol out; length b1 = unat il; length b2 = unat il;
        plc_adapter_exchange a out ol (Some b1) il e = (st, a', b')\<rbrakk> \<Longrightarrow>
       good a' \<and> caps a' = caps a \<and> (\<exists>b. b' = Some b \<and> length b = unat il)
       \<and> plc_adapter_exchange a out ol (Some b2) il e = (st, a', b')"
begin

lemma exchange_keeps:
  assumes "good a" and "env_ok e" and "unat ol \<le> unat (output_bytes (caps a))"
    and "unat il \<le> unat (input_bytes (caps a))" and "out_fits ol out" and "length b = unat il"
  obtains st a' b' where "plc_adapter_exchange a out ol (Some b) il e = (st, a', Some b')"
    and "good a'" and "caps a' = caps a" and "length b' = unat il"
  using exchange_contract [OF assms(1-6) assms(6)]
  by (cases "plc_adapter_exchange a out ol (Some b) il e") blast

end

end
