(* ===== verification/Loopback_Adapter.thy ===== *)
theory Loopback_Adapter
  imports Protocol_Adapter
begin

text \<open>
  \<open>adapters/loopback/loopback_adapter.c\<close>: the in-process reference adapter, which mirrors its
  outputs back as inputs and can be told to time out. Its environment is one clock reading per
  call. It is the first implementation of the adapter contract.
\<close>


subsection \<open>State and operations\<close>

abbreviation (input) LOOPBACK_DEFAULT_BYTES :: u32 where "LOOPBACK_DEFAULT_BYTES \<equiv> 32"
abbreviation (input) LOOPBACK_MAX_BYTES :: u32 where "LOOPBACK_MAX_BYTES \<equiv> 512"

record loopback_impl =
  lb_caps_f :: plc_adapter_caps
  lb_stats_f :: plc_adapter_stats
  lb_state_f :: plc_adapter_state_t
  lb_stale :: plc_staleness
  lb_opened_us :: u64
  lb_last_good :: "byte list"
  lb_mirror :: "byte list"
  lb_force_timeouts :: u32

definition plc_loopback_force_timeouts ::
  "(loopback_impl, u64) plc_protocol_adapter \<Rightarrow> u32 \<Rightarrow> (loopback_impl, u64) plc_protocol_adapter" where
  "plc_loopback_force_timeouts a n = a\<lparr>impl := (impl a)\<lparr>lb_force_timeouts := n\<rparr>\<rparr>"

definition lb_open :: "loopback_impl \<Rightarrow> plc_adapter_config \<Rightarrow> u64 \<Rightarrow> plc_status \<times> loopback_impl" where
  "lb_open i cfg now =
     (if lb_state_f i \<noteq> PLC_ADAPTER_CLOSED then (PLC_ERR_STATE, i)
      else
        let inb = (if cfg_input_bytes cfg \<noteq> 0 then cfg_input_bytes cfg else LOOPBACK_DEFAULT_BYTES);
            outb = (if cfg_output_bytes cfg \<noteq> 0 then cfg_output_bytes cfg else LOOPBACK_DEFAULT_BYTES)
        in if inb > LOOPBACK_MAX_BYTES \<or> outb > LOOPBACK_MAX_BYTES then (PLC_ERR_INVAL, i)
           else (PLC_OK, i\<lparr>
             lb_stats_f := stats_zero,
             lb_last_good := replicate 512 0,
             lb_mirror := replicate 512 0,
             lb_caps_f := caps_zero\<lparr>
               abi_version := PLC_ADAPTER_ABI_VERSION,
               cap_name := snprintf_s 32 (case cfg_name cfg of Some n \<Rightarrow> n | None \<Rightarrow> ''loop0''),
               protocol := snprintf_s 32 ''loopback'',
               input_bytes := inb,
               output_bytes := outb,
               failsafe_policy := cfg_failsafe_policy cfg,
               exchange_timeout_us :=
                 (if cfg_exchange_timeout_us cfg \<noteq> 0 then cfg_exchange_timeout_us cfg else 1000),
               failsafe_timeout_us :=
                 (if cfg_failsafe_timeout_us cfg \<noteq> 0 then cfg_failsafe_timeout_us cfg else 30000),
               cap_flags := 0,
               point_override_capacity := 0\<rparr>,
             lb_opened_us := now,
             lb_stale := staleness_zero,
             lb_state_f := PLC_ADAPTER_ONLINE\<rparr>))"

definition lb_close :: "loopback_impl \<Rightarrow> plc_status \<times> loopback_impl" where
  "lb_close i = (PLC_OK, i\<lparr>lb_state_f := PLC_ADAPTER_CLOSED\<rparr>)"

definition lb_timeout ::
  "loopback_impl \<Rightarrow> byte list option \<Rightarrow> size_t \<Rightarrow> u64 \<Rightarrow> plc_status \<times> loopback_impl \<times> byte list option" where
  "lb_timeout i in_buf in_len now =
     (let i = i\<lparr>lb_force_timeouts := lb_force_timeouts i - 1,
                lb_stats_f := (lb_stats_f i)\<lparr>timeouts := timeouts (lb_stats_f i) + 1\<rparr>\<rparr>;
          age = plc_staleness_age_us now (lb_stale i) (lb_opened_us i);
          i = i\<lparr>lb_stats_f := (lb_stats_f i)\<lparr>stale_for_us := age\<rparr>\<rparr>
      in if age \<ge> ucast (failsafe_timeout_us (lb_caps_f i)) then
           let i = (if lb_state_f i \<noteq> PLC_ADAPTER_FAULTED
                    then i\<lparr>lb_state_f := PLC_ADAPTER_FAULTED,
                           lb_stats_f := (lb_stats_f i)\<lparr>failsafe_activations :=
                             failsafe_activations (lb_stats_f i) + 1\<rparr>\<rparr>
                    else i)
           in (PLC_ERR_TIMEOUT, i,
               plc_adapter_apply_failsafe (failsafe_policy (lb_caps_f i)) in_buf (Some (lb_last_good i)) in_len)
         else
           (PLC_ERR_TIMEOUT, i\<lparr>lb_state_f := PLC_ADAPTER_DEGRADED\<rparr>,
            plc_adapter_apply_failsafe PLC_FAILSAFE_HOLD in_buf (Some (lb_last_good i)) in_len))"

definition lb_exchange ::
  "loopback_impl \<Rightarrow> byte list option \<Rightarrow> size_t \<Rightarrow> byte list option \<Rightarrow> size_t \<Rightarrow> u64
   \<Rightarrow> plc_status \<times> loopback_impl \<times> byte list option" where
  "lb_exchange i out out_len in_buf in_len now =
     (if lb_state_f i = PLC_ADAPTER_CLOSED then (PLC_ERR_STATE, i, in_buf)
      else if out_len > ucast (output_bytes (lb_caps_f i)) \<or> in_len > ucast (input_bytes (lb_caps_f i))
      then (PLC_ERR_INVAL, i, in_buf)
      else if lb_force_timeouts i \<noteq> 0 then lb_timeout i in_buf in_len now
      else
        let i = (case out of
                   Some bs \<Rightarrow> if out_len \<noteq> 0
                     then i\<lparr>lb_mirror := put_slice 0 (take (unat out_len) bs) (lb_mirror i)\<rparr> else i
                 | None \<Rightarrow> i);
            (i, in_buf) = (case in_buf of
                   Some bs \<Rightarrow> if in_len \<noteq> 0
                     then let bs = put_slice 0 (get_slice 0 (unat in_len) (lb_mirror i)) bs
                          in (i\<lparr>lb_last_good := put_slice 0 (get_slice 0 (unat in_len) bs) (lb_last_good i)\<rparr>, Some bs)
                     else (i, Some bs)
                 | None \<Rightarrow> (i, None));
            i = i\<lparr>lb_stats_f := (lb_stats_f i)\<lparr>exchanges := exchanges (lb_stats_f i) + 1\<rparr>\<rparr>;
            i = i\<lparr>lb_stale := plc_staleness_mark_fresh now (lb_stale i)\<rparr>;
            i = i\<lparr>lb_stats_f := (lb_stats_f i)\<lparr>stale_for_us := 0\<rparr>\<rparr>
        in (PLC_OK, i\<lparr>lb_state_f := PLC_ADAPTER_ONLINE\<rparr>, in_buf))"

definition lb_caps :: "loopback_impl \<Rightarrow> plc_status \<times> plc_adapter_caps" where
  "lb_caps i = (PLC_OK, lb_caps_f i)"

definition lb_stats :: "loopback_impl \<Rightarrow> plc_status \<times> plc_adapter_stats" where
  "lb_stats i = (PLC_OK, lb_stats_f i)"

definition lb_state :: "loopback_impl \<Rightarrow> plc_adapter_state_t" where
  "lb_state i = lb_state_f i"

definition kLoopbackVtbl :: "(loopback_impl, u64) plc_adapter_vtbl" where
  "kLoopbackVtbl = \<lparr>vt_open = Some lb_open, vt_close = Some lb_close, vt_exchange = Some lb_exchange,
     vt_get_caps = Some lb_caps, vt_get_stats = Some lb_stats, vt_state = Some lb_state\<rparr>"

text \<open>The two \<open>calloc\<close> calls of the constructor succeed or fail independently.\<close>

definition lb_create :: "bool \<Rightarrow> bool \<Rightarrow> (loopback_impl, u64) plc_protocol_adapter option" where
  "lb_create alloc_a alloc_impl =
     (if \<not> alloc_a \<or> \<not> alloc_impl then None
      else Some \<lparr>vtbl = Some kLoopbackVtbl,
                 impl = \<lparr>lb_caps_f = caps_zero, lb_stats_f = stats_zero, lb_state_f = PLC_ADAPTER_CLOSED,
                         lb_stale = staleness_zero, lb_opened_us = 0, lb_last_good = replicate 512 0,
                         lb_mirror = replicate 512 0, lb_force_timeouts = 0\<rparr>\<rparr>)"


subsection \<open>The adapter contract\<close>

definition lb_inv :: "loopback_impl \<Rightarrow> bool" where
  "lb_inv i \<longleftrightarrow> lb_state_f i \<noteq> PLC_ADAPTER_CLOSED \<and> length (lb_last_good i) = 512
     \<and> length (lb_mirror i) = 512
     \<and> unat (input_bytes (lb_caps_f i)) \<le> 512 \<and> unat (output_bytes (lb_caps_f i)) \<le> 512"

definition lb_good :: "(loopback_impl, u64) plc_protocol_adapter \<Rightarrow> bool" where
  "lb_good a \<longleftrightarrow> vtbl a = Some kLoopbackVtbl \<and> lb_inv (impl a)"

lemma unat_gt_ucast: "(x :: size_t) > ucast (y :: u32) \<longleftrightarrow> unat x > unat y"
  by (simp add: word_less_nat_alt)

text \<open>What the mirror holds after the outputs have been copied in.\<close>

definition lb_mirrored :: "loopback_impl \<Rightarrow> byte list option \<Rightarrow> size_t \<Rightarrow> byte list" where
  "lb_mirrored i out out_len = put_slice 0 (take (unat out_len) (case out of Some bs \<Rightarrow> bs | None \<Rightarrow> [])) (lb_mirror i)"

lemma length_lb_mirrored:
  "lb_inv i \<Longrightarrow> out_fits ol out \<Longrightarrow> unat ol \<le> unat (output_bytes (lb_caps_f i)) \<Longrightarrow>
   length (lb_mirrored i out ol) = 512"
  by (auto simp: lb_inv_def lb_mirrored_def put_slice_def out_fits_def split: option.splits)

lemma lb_exchange_ok:
  assumes "lb_inv i" and "lb_force_timeouts i = 0"
    and "unat ol \<le> unat (output_bytes (lb_caps_f i))" and "unat il \<le> unat (input_bytes (lb_caps_f i))"
    and "out_fits ol out"
  shows "\<exists>i'. (\<forall>b. length b = unat il \<longrightarrow>
        lb_exchange i out ol (Some b) il now = (PLC_OK, i', Some (take (unat il) (lb_mirrored i out ol))))
    \<and> lb_inv i' \<and> lb_caps_f i' = lb_caps_f i \<and> lb_mirror i' = lb_mirrored i out ol
    \<and> lb_last_good i' = take (unat il) (lb_mirrored i out ol) @ drop (unat il) (lb_last_good i)
    \<and> lb_stale i' = \<lparr>last_good_us = now, have_good = True\<rparr> \<and> lb_state_f i' = PLC_ADAPTER_ONLINE
    \<and> lb_force_timeouts i' = 0 \<and> lb_opened_us i' = lb_opened_us i"
proof -
  let ?m = "lb_mirrored i out ol"
  let ?i = "i\<lparr>lb_mirror := ?m,
      lb_last_good := take (unat il) ?m @ drop (unat il) (lb_last_good i),
      lb_stats_f := (lb_stats_f i)\<lparr>exchanges := exchanges (lb_stats_f i) + 1, stale_for_us := 0\<rparr>,
      lb_stale := \<lparr>last_good_us = now, have_good = True\<rparr>, lb_state_f := PLC_ADAPTER_ONLINE\<rparr>"
  have len: "length ?m = 512" using assms by (intro length_lb_mirrored)
  have il: "unat il \<le> 512" using assms by (simp add: lb_inv_def)
  have mirror: "(case out of Some bs \<Rightarrow> if ol \<noteq> 0 then i\<lparr>lb_mirror := put_slice 0 (take (unat ol) bs) (lb_mirror i)\<rparr> else i
      | None \<Rightarrow> i) = i\<lparr>lb_mirror := ?m\<rparr>"
    by (simp add: lb_mirrored_def put_slice_def split: option.split)
  have last: "put_slice 0 (get_slice 0 (unat il) (take (unat il) ?m)) (lb_last_good i) =
      take (unat il) ?m @ drop (unat il) (lb_last_good i)"
    using len il by (simp add: put_slice_def get_slice_def)
  have fresh: "plc_staleness_mark_fresh now (lb_stale i) = \<lparr>last_good_us = now, have_good = True\<rparr>"
    by (simp add: plc_staleness_mark_fresh_def)
  have "lb_exchange i out ol (Some b) il now = (PLC_OK, ?i, Some (take (unat il) ?m))"
    if b: "length b = unat il" for b
  proof -
    have "put_slice 0 (get_slice 0 (unat il) ?m) b = take (unat il) ?m"
      using b len il by (simp add: put_slice_def get_slice_def)
    moreover have "b = []" if "il = 0" using b that by simp
    ultimately show ?thesis
      using assms last fresh unfolding lb_exchange_def mirror
      by (cases "il = 0") (simp_all add: lb_inv_def unat_gt_ucast Let_def)
  qed
  moreover have "lb_inv ?i" using assms(1) len il by (simp add: lb_inv_def)
  ultimately show ?thesis using assms(2) by (intro exI [of _ ?i]) simp
qed

lemma lb_exchange_timeout:
  assumes "lb_inv i" and "lb_force_timeouts i \<noteq> 0"
    and "unat ol \<le> unat (output_bytes (lb_caps_f i))" and "unat il \<le> unat (input_bytes (lb_caps_f i))"
  shows "\<exists>i'. (\<forall>b. length b = unat il \<longrightarrow> lb_exchange i out ol (Some b) il now = (PLC_ERR_TIMEOUT, i',
      Some (if plc_staleness_age_us now (lb_stale i) (lb_opened_us i) \<ge> ucast (failsafe_timeout_us (lb_caps_f i))
              \<and> failsafe_policy (lb_caps_f i) = PLC_FAILSAFE_CLEAR
            then replicate (unat il) 0 else take (unat il) (lb_last_good i))))
    \<and> lb_inv i' \<and> lb_caps_f i' = lb_caps_f i \<and> lb_last_good i' = lb_last_good i \<and> lb_stale i' = lb_stale i"
proof -
  have "plc_adapter_apply_failsafe p (Some b) (Some (lb_last_good i)) il =
      Some (if p = PLC_FAILSAFE_CLEAR then replicate (unat il) 0 else take (unat il) (lb_last_good i))"
    if "length b = unat il" for p b
    using assms that by (auto simp: lb_inv_def apply_failsafe_Some put_slice_def)
  then show ?thesis
    using assms
    by (intro exI [of _ "fst (snd (lb_timeout i None 0 now))"])
      (simp add: lb_exchange_def lb_timeout_def Let_def lb_inv_def unat_gt_ucast)
qed

lemma lb_wrapper:
  "lb_good a \<Longrightarrow> out_fits ol out \<Longrightarrow>
   plc_adapter_exchange a out ol (Some b) il now =
     (case lb_exchange (impl a) out ol (Some b) il now of (st, i, b') \<Rightarrow> (st, a\<lparr>impl := i\<rparr>, b'))"
  by (auto simp: plc_adapter_exchange_def lb_good_def kLoopbackVtbl_def out_fits_def)

interpretation loopback: io_adapter lb_good "\<lambda>a. lb_caps_f (impl a)" "\<lambda>_. True"
proof
  fix a :: "(loopback_impl, u64) plc_protocol_adapter" and e st a' b' and ol il :: size_t
    and out and b1 b2 :: "byte list"
  show "plc_adapter_get_caps a = (PLC_OK, Some (lb_caps_f (impl a)))" if "lb_good a"
    using that by (simp add: lb_good_def plc_adapter_get_caps_def kLoopbackVtbl_def lb_caps_def)
  assume *: "lb_good a" "unat ol \<le> unat (output_bytes (lb_caps_f (impl a)))"
    "unat il \<le> unat (input_bytes (lb_caps_f (impl a)))" "out_fits ol out"
    "length b1 = unat il" "length b2 = unat il"
    and ex: "plc_adapter_exchange a out ol (Some b1) il e = (st, a', b')"
  from *(1) have inv: "lb_inv (impl a)" by (simp add: lb_good_def)
  have "\<exists>i' b st. (\<forall>b0. length b0 = unat il \<longrightarrow> lb_exchange (impl a) out ol (Some b0) il e = (st, i', Some b))
      \<and> lb_inv i' \<and> lb_caps_f i' = lb_caps_f (impl a) \<and> length b = unat il"
  proof (cases "lb_force_timeouts (impl a) = 0")
    case True
    from lb_exchange_ok [OF inv True *(2-4), of e] length_lb_mirrored [OF inv *(4,2)] *(3) inv
    show ?thesis by (force simp: lb_inv_def)
  next
    case False
    have "length (if c then replicate (unat il) 0 else take (unat il) (lb_last_good (impl a))) = unat il" for c
      using *(3) inv by (simp add: lb_inv_def)
    with lb_exchange_timeout [OF inv False *(2,3), of out e] show ?thesis by blast
  qed
  with * ex show "lb_good a' \<and> lb_caps_f (impl a') = lb_caps_f (impl a) \<and> (\<exists>b. b' = Some b \<and> length b = unat il)
      \<and> plc_adapter_exchange a out ol (Some b2) il e = (st, a', b')"
    by (auto simp: lb_wrapper) (simp add: lb_good_def)
qed

subsection \<open>Properties\<close>

lemma lb_open_good:
  assumes "lb_open i cfg now = (PLC_OK, i')"
  shows "lb_inv i'" and "abi_version (lb_caps_f i') = 1"
    and "input_bytes (lb_caps_f i') = (if cfg_input_bytes cfg = 0 then 32 else cfg_input_bytes cfg)"
    and "output_bytes (lb_caps_f i') = (if cfg_output_bytes cfg = 0 then 32 else cfg_output_bytes cfg)"
  using assms by (auto simp: lb_open_def Let_def lb_inv_def word_less_nat_alt split: if_splits)


text \<open>A loopback adapter opened at time 1000 with two-byte images and the CLEAR policy.\<close>

definition demo_loopback :: "u32 \<Rightarrow> (loopback_impl, u64) plc_protocol_adapter" where
  "demo_loopback faults = plc_loopback_force_timeouts
     (snd (plc_adapter_open (the (lb_create True True))
        (Some (plc_adapter_config_init\<lparr>cfg_input_bytes := 2, cfg_output_bytes := 2,
           cfg_failsafe_policy := PLC_FAILSAFE_CLEAR\<rparr>)) 1000)) faults"

lemma demo_loopback_good:
  "lb_good (demo_loopback n)" "unat (output_bytes (lb_caps_f (impl (demo_loopback n)))) = 2"
  "unat (input_bytes (lb_caps_f (impl (demo_loopback n)))) = 2"
  by (simp_all add: demo_loopback_def plc_loopback_force_timeouts_def plc_adapter_open_def lb_create_def
      kLoopbackVtbl_def lb_open_def Let_def plc_adapter_config_init_def lb_good_def lb_inv_def)

lemma demo_loopback_fields:
  "lb_force_timeouts (impl (demo_loopback n)) = n" "lb_stale (impl (demo_loopback n)) = staleness_zero"
  "lb_opened_us (impl (demo_loopback n)) = 1000" "lb_mirror (impl (demo_loopback n)) = replicate 512 0"
  "failsafe_timeout_us (lb_caps_f (impl (demo_loopback n))) = 30000"
  "failsafe_policy (lb_caps_f (impl (demo_loopback n))) = PLC_FAILSAFE_CLEAR"
  by (simp_all add: demo_loopback_def plc_loopback_force_timeouts_def plc_adapter_open_def lb_create_def
      kLoopbackVtbl_def lb_open_def Let_def plc_adapter_config_init_def)


end
