(* ===== verification/Plc_Runtime.thy ===== *)
theory Plc_Runtime
  imports Process_Image Protocol_Adapter "HOL-Library.Signed_Division"
begin

text \<open>
  \<open>plc_runtime.h\<close> and \<open>core/plc_runtime.c\<close>: the scan engine. A runtime holds the process
  image, the bindings of adapters to slices of it, the programs and the output shadow; a scan
  exchanges with every adapter, runs every program and latches the outputs.

  Adapters are objects in a store \<open>ads\<close>, and a binding refers to one by its address, so two
  bindings of the same adapter share its state as they do in C. The memory the programs reach
  through their \<open>user\<close> pointers is one value of type \<open>'u\<close>. The environment of a scan supplies
  its two clock readings and what happens in each exchange.
\<close>


subsection \<open>State\<close>

abbreviation (input) PLC_MAX_BINDINGS :: nat where "PLC_MAX_BINDINGS \<equiv> 8"
abbreviation (input) PLC_MAX_PROGRAMS :: nat where "PLC_MAX_PROGRAMS \<equiv> 8"

type_synonym rt_time = "64 word"

record plc_pou_ctx =
  ctx_now :: rt_time
  ctx_dt :: rt_time
  ctx_scan :: u64
  ctx_first :: bool
  ctx_user :: nat

type_synonym 'u plc_pou_fn = "plc_pou_ctx \<Rightarrow> plc_process_image \<times> 'u \<Rightarrow> plc_process_image \<times> 'u"

record plc_io_binding =
  b_adapter :: nat
  i_offset :: size_t
  q_offset :: size_t
  b_caps :: plc_adapter_caps

record 'u plc_program =
  prog_name :: string
  prog_fn :: "'u plc_pou_fn"
  prog_user :: nat

record plc_runtime_stats =
  st_scans :: u64
  st_overruns :: u64
  st_io_faults :: u64
  st_last_scan_us :: u64
  st_max_scan_us :: u64
  st_last_jitter_us :: u64
  st_max_jitter_us :: u64

record plc_runtime_config =
  cycle_us :: u32
  i_bytes :: size_t
  q_bytes :: size_t
  m_bytes :: size_t
  continue_on_io_fault :: bool

record 'u plc_runtime =
  rt_cfg :: plc_runtime_config
  rt_pi :: plc_process_image
  bindings :: "plc_io_binding list"
  programs :: "'u plc_program list"
  q_shadow :: "byte list"
  q_shadow_len :: size_t
  stop :: bool
  scan_no :: u64
  started_ns :: rt_time
  last_scan_ns :: rt_time
  first_scan :: bool
  rt_stats :: plc_runtime_stats

type_synonym ('i, 'e) adapters = "nat \<Rightarrow> ('i, 'e) plc_protocol_adapter"

definition now_ns :: "int \<times> int \<Rightarrow> rt_time" where
  "now_ns ts = of_int (fst ts) * 1000000000 + of_int (snd ts)"

definition plc_runtime_config_init :: plc_runtime_config where
  "plc_runtime_config_init = \<lparr>cycle_us = 10000, i_bytes = 256, q_bytes = 256, m_bytes = 1024,
     continue_on_io_fault = True\<rparr>"

subsection \<open>Lifecycle and configuration\<close>

definition rt_stats_zero :: plc_runtime_stats where
  "rt_stats_zero = \<lparr>st_scans = 0, st_overruns = 0, st_io_faults = 0, st_last_scan_us = 0,
     st_max_scan_us = 0, st_last_jitter_us = 0, st_max_jitter_us = 0\<rparr>"

text \<open>\<open>h\<close> counts live heap blocks; the three flags say which allocations succeed.\<close>

definition plc_runtime_create ::
  "bool \<Rightarrow> (plc_area \<Rightarrow> bool) \<Rightarrow> bool \<Rightarrow> nat \<Rightarrow> plc_runtime_config \<Rightarrow> nat \<times> 'u plc_runtime option" where
  "plc_runtime_create alloc_rt alloc_area alloc_shadow h cfg =
     (if \<not> alloc_rt then (h, None)
      else let h = Suc h in
        case plc_pi_init alloc_area h (i_bytes cfg) (q_bytes cfg) (m_bytes cfg) of (st, h, pi) \<Rightarrow>
          if st \<noteq> PLC_OK then (h - 1, None)
          else if \<not> alloc_shadow then (fst (plc_pi_free h pi) - 1, None)
          else (Suc h, Some \<lparr>rt_cfg = cfg, rt_pi = pi, bindings = [], programs = [],
                  q_shadow = replicate (if q_bytes cfg \<noteq> 0 then unat (q_bytes cfg) else 1) 0,
                  q_shadow_len = q_bytes cfg, stop = False, scan_no = 0, started_ns = 0,
                  last_scan_ns = 0, first_scan = True, rt_stats = rt_stats_zero\<rparr>))"

definition plc_runtime_destroy :: "nat \<Rightarrow> 'u plc_runtime \<Rightarrow> nat" where
  "plc_runtime_destroy h rt = fst (plc_pi_free (h - 1) (rt_pi rt)) - 1"

definition plc_runtime_image :: "'u plc_runtime \<Rightarrow> plc_process_image" where
  "plc_runtime_image rt = rt_pi rt"

definition plc_runtime_bind_adapter ::
  "('i, 'e) adapters \<Rightarrow> 'u plc_runtime \<Rightarrow> nat option \<Rightarrow> size_t \<Rightarrow> size_t \<Rightarrow> plc_status \<times> 'u plc_runtime" where
  "plc_runtime_bind_adapter ads rt adapter i_off q_off =
     (case adapter of
        None \<Rightarrow> (PLC_ERR_INVAL, rt)
      | Some a \<Rightarrow>
          if length (bindings rt) \<ge> PLC_MAX_BINDINGS then (PLC_ERR_NOMEM, rt)
          else (case plc_adapter_get_caps (ads a) of (st, c) \<Rightarrow>
            if st \<noteq> PLC_OK then (st, rt)
            else
              let caps = the c;
                  i_size = plc_pi_area_size (rt_pi rt) PLC_AREA_I;
                  q_size = plc_pi_area_size (rt_pi rt) PLC_AREA_Q
              in if abi_version caps \<noteq> PLC_ADAPTER_ABI_VERSION then (PLC_ERR_PROTO, rt)
                 else if i_off > i_size \<or> ucast (input_bytes caps) > i_size - i_off then (PLC_ERR_INVAL, rt)
                 else if q_off > q_size \<or> ucast (output_bytes caps) > q_size - q_off then (PLC_ERR_INVAL, rt)
                 else (PLC_OK, rt\<lparr>bindings := bindings rt @
                   [\<lparr>b_adapter = a, i_offset = i_off, q_offset = q_off, b_caps = caps\<rparr>]\<rparr>)))"

definition plc_runtime_add_program ::
  "'u plc_runtime \<Rightarrow> string option \<Rightarrow> 'u plc_pou_fn option \<Rightarrow> nat \<Rightarrow> plc_status \<times> 'u plc_runtime" where
  "plc_runtime_add_program rt name fn user =
     (case fn of
        None \<Rightarrow> (PLC_ERR_INVAL, rt)
      | Some f \<Rightarrow>
          if length (programs rt) \<ge> PLC_MAX_PROGRAMS then (PLC_ERR_NOMEM, rt)
          else (PLC_OK, rt\<lparr>programs := programs rt @
            [\<lparr>prog_name = (case name of Some n \<Rightarrow> n | None \<Rightarrow> ''<unnamed>''),
              prog_fn = f, prog_user = user\<rparr>]\<rparr>))"

definition plc_runtime_request_stop :: "'u plc_runtime \<Rightarrow> 'u plc_runtime" where
  "plc_runtime_request_stop rt = rt\<lparr>stop := True\<rparr>"

definition plc_runtime_get_stats :: "'u plc_runtime \<Rightarrow> plc_runtime_stats" where
  "plc_runtime_get_stats rt = rt_stats rt"

definition plc_runtime_binding_count :: "'u plc_runtime \<Rightarrow> nat" where
  "plc_runtime_binding_count rt = length (bindings rt)"

definition plc_runtime_binding_at :: "'u plc_runtime \<Rightarrow> nat \<Rightarrow> plc_io_binding option" where
  "plc_runtime_binding_at rt i = (if i \<ge> length (bindings rt) then None else Some (bindings rt ! i))"

subsection \<open>The scan\<close>

text \<open>
  One exchange per binding, in order. The adapter gets the window of %I that starts at the
  binding's offset and has the length announced in its capabilities.
\<close>

fun scan_io_loop ::
  "byte list \<Rightarrow> size_t \<Rightarrow> (nat \<Rightarrow> 'e) \<Rightarrow> nat \<Rightarrow> plc_io_binding list \<Rightarrow> plc_status
   \<Rightarrow> plc_process_image \<Rightarrow> ('i, 'e) adapters \<Rightarrow> plc_status \<times> plc_process_image \<times> ('i, 'e) adapters" where
  "scan_io_loop shadow shadow_len env i [] worst pi ads = (worst, pi, ads)"
| "scan_io_loop shadow shadow_len env i (b # bs) worst pi ads =
     (case plc_pi_area pi PLC_AREA_I of
        None \<Rightarrow> (PLC_ERR_STATE, pi, ads)
      | Some i_base \<Rightarrow>
          let out = (if output_bytes (b_caps b) \<noteq> 0 \<and> q_offset b \<le> shadow_len
                     then Some (drop (unat (q_offset b)) shadow) else None)
          in case plc_adapter_exchange (ads (b_adapter b)) out (ucast (output_bytes (b_caps b)))
                 (Some (get_slice (unat (i_offset b)) (unat (input_bytes (b_caps b))) i_base))
                 (ucast (input_bytes (b_caps b))) (env i) of (st, a, buf) \<Rightarrow>
             scan_io_loop shadow shadow_len env (Suc i) bs (if st \<noteq> PLC_OK then st else worst)
               (case buf of Some w \<Rightarrow> poke pi PLC_AREA_I (unat (i_offset b)) w | None \<Rightarrow> pi)
               (ads(b_adapter b := a)))"

definition scan_io ::
  "(nat \<Rightarrow> 'e) \<Rightarrow> 'u plc_runtime \<Rightarrow> ('i, 'e) adapters \<Rightarrow> plc_status \<times> 'u plc_runtime \<times> ('i, 'e) adapters" where
  "scan_io env rt ads =
     (case scan_io_loop (q_shadow rt) (q_shadow_len rt) env 0 (bindings rt) PLC_OK (rt_pi rt) ads of
        (st, pi, ads) \<Rightarrow> (st, rt\<lparr>rt_pi := pi\<rparr>, ads))"

text \<open>Phase 2: every program in order, each with its own \<open>user\<close> pointer in the context.\<close>

definition run_programs ::
  "plc_pou_ctx \<Rightarrow> 'u plc_program list \<Rightarrow> plc_process_image \<times> 'u \<Rightarrow> plc_process_image \<times> 'u" where
  "run_programs ctx ps s = fold (\<lambda>p. prog_fn p (ctx\<lparr>ctx_user := prog_user p\<rparr>)) ps s"

text \<open>Phase 3: latch %Q for the next scan's exchanges.\<close>

definition latch_outputs :: "'u plc_runtime \<Rightarrow> 'u plc_runtime" where
  "latch_outputs rt =
     (case plc_pi_area (rt_pi rt) PLC_AREA_Q of
        Some q \<Rightarrow> if q_shadow_len rt \<noteq> 0
          then rt\<lparr>q_shadow := put_slice 0 (get_slice 0 (unat (q_shadow_len rt)) q) (q_shadow rt)\<rparr> else rt
      | None \<Rightarrow> rt)"

definition account :: "rt_time \<Rightarrow> rt_time \<Rightarrow> 'u plc_runtime \<Rightarrow> 'u plc_runtime" where
  "account t0 t1 rt =
     (let dur_us = (of_int (sint (t1 - t0) sdiv 1000) :: u64);
          s = rt_stats rt;
          s = s\<lparr>st_scans := st_scans s + 1, st_last_scan_us := dur_us\<rparr>;
          s = (if dur_us > st_max_scan_us s then s\<lparr>st_max_scan_us := dur_us\<rparr> else s);
          s = (if \<not> first_scan rt \<and> cycle_us (rt_cfg rt) \<noteq> 0 then
                 let period_us = sint (t0 - last_scan_ns rt) sdiv 1000;
                     jitter = period_us - int (unat (cycle_us (rt_cfg rt)));
                     jitter = (if jitter < 0 then - jitter else jitter);
                     s = s\<lparr>st_last_jitter_us := of_int jitter\<rparr>;
                     s = (if (of_int jitter :: u64) > st_max_jitter_us s
                          then s\<lparr>st_max_jitter_us := of_int jitter\<rparr> else s)
                 in if dur_us > ucast (cycle_us (rt_cfg rt)) then s\<lparr>st_overruns := st_overruns s + 1\<rparr> else s
               else s)
      in rt\<lparr>rt_stats := s\<rparr>)"

record 'e scan_env =
  env_t0 :: rt_time
  env_t1 :: rt_time
  env_exchange :: "nat \<Rightarrow> 'e"

definition scan_begin :: "rt_time \<Rightarrow> 'u plc_runtime \<Rightarrow> 'u plc_runtime" where
  "scan_begin t0 rt = (if first_scan rt then rt\<lparr>started_ns := t0, last_scan_ns := t0\<rparr> else rt)"

definition count_io_fault :: "plc_status \<Rightarrow> 'u plc_runtime \<Rightarrow> 'u plc_runtime" where
  "count_io_fault io_st rt =
     (if io_st \<noteq> PLC_OK
      then rt\<lparr>rt_stats := (rt_stats rt)\<lparr>st_io_faults := st_io_faults (rt_stats rt) + 1\<rparr>\<rparr> else rt)"

definition pou_context :: "rt_time \<Rightarrow> 'u plc_runtime \<Rightarrow> plc_pou_ctx" where
  "pou_context t0 rt =
     \<lparr>ctx_now = t0, ctx_dt = (if first_scan rt then 0 else t0 - last_scan_ns rt),
      ctx_scan = scan_no rt, ctx_first = first_scan rt, ctx_user = 0\<rparr>"

definition plc_runtime_scan_once ::
  "'e scan_env \<Rightarrow> 'u plc_runtime \<times> ('i, 'e) adapters \<times> 'u
   \<Rightarrow> plc_status \<times> 'u plc_runtime \<times> ('i, 'e) adapters \<times> 'u" where
  "plc_runtime_scan_once env s =
     (case s of (rt, ads, u) \<Rightarrow>
        let t0 = env_t0 env in
        case scan_io (env_exchange env) (scan_begin t0 rt) ads of (io_st, rt, ads) \<Rightarrow>
          let rt = count_io_fault io_st rt in
          if io_st \<noteq> PLC_OK \<and> \<not> continue_on_io_fault (rt_cfg rt) then (io_st, rt, ads, u)
          else
            case run_programs (pou_context t0 rt) (programs rt) (rt_pi rt, u) of (pi, u) \<Rightarrow>
              let rt = account t0 (env_t1 env) (latch_outputs (rt\<lparr>rt_pi := pi\<rparr>))
              in (io_st, rt\<lparr>last_scan_ns := t0, first_scan := False, scan_no := scan_no rt + 1\<rparr>, ads, u))"

subsection \<open>The cyclic task\<close>

text \<open>
  One iteration of the loop in \<open>plc_runtime_run\<close>: whether the stop flag is seen set when the
  condition is evaluated, what happens in the scan, and the clock reading after it. The loop
  runs until the condition or a break ends it; a list of iterations that ends before the loop
  does is a task that is still running (\<open>None\<close>). \<open>trace\<close> collects the deadlines slept for.
\<close>

record 'e iteration =
  it_stop :: bool
  it_scan :: "'e scan_env"
  it_now :: rt_time

fun run_loop ::
  "u64 \<Rightarrow> rt_time \<Rightarrow> 'e iteration list \<Rightarrow> rt_time \<Rightarrow> rt_time list
   \<Rightarrow> 'u plc_runtime \<times> ('i, 'e) adapters \<times> 'u
   \<Rightarrow> (plc_status \<times> ('u plc_runtime \<times> ('i, 'e) adapters \<times> 'u) \<times> rt_time list) option" where
  "run_loop max_scans period [] deadline trace s = None"
| "run_loop max_scans period (it # its) deadline trace s =
     (if it_stop it \<or> stop (fst s) then Some (PLC_OK, s, trace)
      else case plc_runtime_scan_once (it_scan it) s of (st, s') \<Rightarrow>
        if st \<noteq> PLC_OK \<and> \<not> continue_on_io_fault (rt_cfg (fst s')) then Some (st, s', trace)
        else if max_scans \<noteq> 0 \<and> scan_no (fst s') \<ge> max_scans then Some (PLC_OK, s', trace)
        else if sint period > 0 then
          let deadline = deadline + period;
              t = it_now it;
              deadline = (if sint deadline < sint t then t else deadline)
          in run_loop max_scans period its deadline (trace @ [deadline]) s'
        else run_loop max_scans period its deadline trace s')"

definition plc_runtime_run ::
  "u64 \<Rightarrow> rt_time \<Rightarrow> 'e iteration list \<Rightarrow> 'u plc_runtime \<times> ('i, 'e) adapters \<times> 'u
   \<Rightarrow> (plc_status \<times> ('u plc_runtime \<times> ('i, 'e) adapters \<times> 'u) \<times> rt_time list) option" where
  "plc_runtime_run max_scans start its s =
     (let rt = (fst s)\<lparr>stop := False\<rparr>;
          period = ucast (cycle_us (rt_cfg rt)) * 1000
      in run_loop max_scans period its start [] (rt, snd s))"

text \<open>The timespec that \<open>sleep_until\<close> hands to \<open>clock_nanosleep\<close>.\<close>

definition sleep_until :: "rt_time \<Rightarrow> int \<times> int" where
  "sleep_until deadline_ns = (sint deadline_ns sdiv 1000000000, sint deadline_ns smod 1000000000)"

subsection \<open>Well-formed runtimes\<close>

definition binding_fits :: "plc_process_image \<Rightarrow> plc_io_binding \<Rightarrow> bool" where
  "binding_fits pi b \<longleftrightarrow>
     unat (i_offset b) + unat (input_bytes (b_caps b)) \<le> unat (pi_size pi PLC_AREA_I)
     \<and> unat (q_offset b) + unat (output_bytes (b_caps b)) \<le> unat (pi_size pi PLC_AREA_Q)"

definition rt_wf :: "'u plc_runtime \<Rightarrow> bool" where
  "rt_wf rt \<longleftrightarrow> pi_wf (rt_pi rt) \<and> q_shadow_len rt = pi_size (rt_pi rt) PLC_AREA_Q
     \<and> length (q_shadow rt) = max 1 (unat (q_shadow_len rt))
     \<and> length (bindings rt) \<le> PLC_MAX_BINDINGS \<and> length (programs rt) \<le> PLC_MAX_PROGRAMS
     \<and> list_all (binding_fits (rt_pi rt)) (bindings rt)"

text \<open>Every bound adapter is open and still has the capabilities recorded when it was bound.\<close>

definition bound_ok ::
  "(('i, 'e) plc_protocol_adapter \<Rightarrow> bool) \<Rightarrow> (('i, 'e) plc_protocol_adapter \<Rightarrow> plc_adapter_caps)
   \<Rightarrow> ('i, 'e) adapters \<Rightarrow> plc_io_binding list \<Rightarrow> bool" where
  "bound_ok good caps ads bs =
     list_all (\<lambda>b. good (ads (b_adapter b)) \<and> caps (ads (b_adapter b)) = b_caps b) bs"

definition in_slice :: "plc_io_binding \<Rightarrow> nat \<Rightarrow> bool" where
  "in_slice b j \<longleftrightarrow> unat (i_offset b) \<le> j \<and> j < unat (i_offset b) + unat (input_bytes (b_caps b))"

text \<open>Two images that differ at most inside the input slices of some bindings.\<close>

definition pi_agree :: "plc_io_binding list \<Rightarrow> plc_process_image \<Rightarrow> plc_process_image \<Rightarrow> bool" where
  "pi_agree bs p q \<longleftrightarrow> pi_wf p \<and> pi_wf q \<and> pi_size p = pi_size q \<and> owns_memory p = owns_memory q
     \<and> (\<forall>a. a \<noteq> 0 \<longrightarrow> area p a = area q a)
     \<and> (\<forall>j < length (base p 0). (\<forall>b \<in> set bs. \<not> in_slice b j) \<longrightarrow> base p 0 ! j = base q 0 ! j)"

lemma pi_wf_area_I: "pi_wf pi \<Longrightarrow> plc_pi_area pi 0 = Some (base pi 0)"
  by (simp add: plc_pi_area_def pi_wf_area_ok pi_wf_area)

lemma binding_slot:
  assumes "pi_wf pi" and "binding_fits pi b"
  shows "slot pi 0 (i_offset b) (ucast (input_bytes (b_caps b))) = Some (unat (i_offset b))"
  using assms by (simp add: slot_eq pi_wf_area_ok binding_fits_def)

lemma binding_window:
  assumes "pi_wf pi" and "binding_fits pi b"
  shows "length (get_slice (unat (i_offset b)) (unat (input_bytes (b_caps b))) (base pi 0)) =
    unat (input_bytes (b_caps b))"
  using assms pi_wf_length_base [of pi 0] by (intro length_get_slice) (auto simp: binding_fits_def)

lemma poke_window_wf:
  assumes "pi_wf pi" and "binding_fits pi b" and "length w = unat (input_bytes (b_caps b))"
  shows "pi_wf (poke pi 0 (unat (i_offset b)) w)"
  using poke_wf [OF assms(1) binding_slot [OF assms(1,2)]] assms(3) by simp

lemma nth_poke_window:
  assumes "pi_wf pi" and "binding_fits pi b" and "length w = unat (input_bytes (b_caps b))"
    and "j < length (base pi 0)"
  shows "base (poke pi 0 (unat (i_offset b)) w) 0 ! j =
    (if in_slice b j then w ! (j - unat (i_offset b)) else base pi 0 ! j)"
  using nth_poke [OF assms(1) binding_slot [OF assms(1,2)], of w 0 j] assms(3,4)
  by (simp add: in_slice_def)

lemma pi_agree_poke:
  assumes "pi_agree (b # bs) p q" and "binding_fits p b" and "length w = unat (input_bytes (b_caps b))"
  shows "pi_agree bs (poke p 0 (unat (i_offset b)) w) (poke q 0 (unat (i_offset b)) w)"
proof -
  from assms have p: "pi_wf p" and q: "pi_wf q" and qf: "binding_fits q b"
    and len: "length (base q 0) = length (base p 0)"
    by (simp_all add: pi_agree_def binding_fits_def pi_wf_length_base)
  have "length (base (poke p 0 (unat (i_offset b)) w) 0) = length (base p 0)"
    using poke_window_wf [OF p assms(2,3)] p by (simp add: pi_wf_length_base del: poke_simps(2))
  then show ?thesis
    using assms poke_window_wf [OF p assms(2,3)] poke_window_wf [OF q qf assms(3)]
      nth_poke_window [OF p assms(2,3)] nth_poke_window [OF q qf assms(3)] len
    by (simp add: pi_agree_def del: poke_simps(2))
qed

lemma pi_agree_Nil:
  assumes "pi_agree [] p q"
  shows "p = q"
proof -
  from assms have "length (base p 0) = length (base q 0)"
    by (simp add: pi_agree_def pi_wf_length_base)
  with assms have "base p 0 = base q 0" by (intro nth_equalityI) (simp_all add: pi_agree_def)
  with assms have "area p a = area q a" for a
    using pi_wf_area [of p 0] pi_wf_area [of q 0] by (cases "a = 0") (simp_all add: pi_agree_def)
  then have "area p = area q" by auto
  with assms show ?thesis by (cases p; cases q) (simp add: pi_agree_def)
qed


subsection \<open>The I/O phase over adapters that keep the contract\<close>

definition out_buf :: "byte list \<Rightarrow> size_t \<Rightarrow> plc_io_binding \<Rightarrow> byte list option" where
  "out_buf shadow shadow_len b =
     (if output_bytes (b_caps b) \<noteq> 0 \<and> q_offset b \<le> shadow_len
      then Some (drop (unat (q_offset b)) shadow) else None)"

lemma out_buf_fits:
  assumes "unat (q_offset b) + unat (output_bytes (b_caps b)) \<le> unat shadow_len"
    and "length shadow = max 1 (unat shadow_len)"
  shows "out_fits (ucast (output_bytes (b_caps b))) (out_buf shadow shadow_len b)"
proof -
  have "q_offset b \<le> shadow_len" using assms(1) by (simp add: word_le_nat_alt)
  moreover have "(ucast (output_bytes (b_caps b)) :: size_t) = 0" if "output_bytes (b_caps b) = 0"
    using that by simp
  ultimately show ?thesis using assms by (auto simp: out_fits_def out_buf_def)
qed

text \<open>One pass of the loop, on an image whose %I area exists.\<close>

lemma scan_io_loop_step:
  assumes "pi_wf pi"
  shows "scan_io_loop shadow shadow_len env i (b # bs) worst pi ads =
    (case plc_adapter_exchange (ads (b_adapter b)) (out_buf shadow shadow_len b)
        (ucast (output_bytes (b_caps b)))
        (Some (get_slice (unat (i_offset b)) (unat (input_bytes (b_caps b))) (base pi 0)))
        (ucast (input_bytes (b_caps b))) (env i) of (st, a, buf) \<Rightarrow>
      scan_io_loop shadow shadow_len env (Suc i) bs (if st \<noteq> PLC_OK then st else worst)
        (case buf of Some w \<Rightarrow> poke pi 0 (unat (i_offset b)) w | None \<Rightarrow> pi) (ads(b_adapter b := a)))"
  using assms by (simp add: pi_wf_area_I out_buf_def Let_def)

declare scan_io_loop.simps(2) [simp del]

context io_adapter
begin

lemma bound_ok_update:
  "bound_ok good caps ads bs \<Longrightarrow> good a \<Longrightarrow> caps a = caps (ads k) \<Longrightarrow>
   bound_ok good caps (ads(k := a)) bs"
  by (auto simp: bound_ok_def list_all_iff)

text \<open>The outcome of one exchange of the scan, for two images that differ only in their windows.\<close>

lemma scan_exchange:
  assumes "pi_wf p" and "pi_wf q" and "binding_fits p b" and "binding_fits q b"
    and "good (ads (b_adapter b))" and "caps (ads (b_adapter b)) = b_caps b" and "env_ok (env i)"
    and "shadow_len = pi_size p 1" and "length shadow = max 1 (unat shadow_len)"
  obtains st a w where "length w = unat (input_bytes (b_caps b))" and "good a"
    and "caps a = caps (ads (b_adapter b))"
    and "\<And>bs worst. scan_io_loop shadow shadow_len env i (b # bs) worst p ads =
      scan_io_loop shadow shadow_len env (Suc i) bs (if st \<noteq> PLC_OK then st else worst)
        (poke p 0 (unat (i_offset b)) w) (ads(b_adapter b := a))"
    and "\<And>bs worst. scan_io_loop shadow shadow_len env i (b # bs) worst q ads =
      scan_io_loop shadow shadow_len env (Suc i) bs (if st \<noteq> PLC_OK then st else worst)
        (poke q 0 (unat (i_offset b)) w) (ads(b_adapter b := a))"
proof -
  let ?ol = "ucast (output_bytes (b_caps b)) :: size_t" and ?il = "ucast (input_bytes (b_caps b)) :: size_t"
  let ?out = "out_buf shadow shadow_len b" and ?a = "ads (b_adapter b)"
  let ?w = "\<lambda>pi. get_slice (unat (i_offset b)) (unat (input_bytes (b_caps b))) (base pi 0)"
  have fits: "out_fits ?ol ?out" using assms(3,8,9) by (intro out_buf_fits) (auto simp: binding_fits_def)
  have len: "length (?w p) = unat ?il" "length (?w q) = unat ?il"
    using assms(1-4) by (simp_all add: binding_window)
  have sz: "unat ?ol \<le> unat (output_bytes (caps ?a))" "unat ?il \<le> unat (input_bytes (caps ?a))"
    using assms(6) by simp_all
  obtain st a w where ex: "plc_adapter_exchange ?a ?out ?ol (Some (?w p)) ?il (env i) = (st, a, Some w)"
    and a: "good a" "caps a = caps ?a" and w: "length w = unat ?il"
    by (rule exchange_keeps [OF assms(5,7) sz fits len(1)])
  from exchange_contract [OF assms(5,7) sz fits len ex]
  have ex': "plc_adapter_exchange ?a ?out ?ol (Some (?w q)) ?il (env i) = (st, a, Some w)" by simp
  show thesis
    by (rule that [of w a st]) (use w a in \<open>simp_all add: scan_io_loop_step assms(1,2) ex ex'\<close>)
qed

lemma scan_io_loop_inv:
  assumes "pi_wf pi" and "list_all (binding_fits pi) bs" and "bound_ok good caps ads bs"
    and "bound_ok good caps ads all" and "\<And>i. env_ok (env i)"
    and "shadow_len = pi_size pi 1" and "length shadow = max 1 (unat shadow_len)"
    and "scan_io_loop shadow shadow_len env i bs worst pi ads = (st, pi', ads')"
  shows "pi_wf pi' \<and> pi_size pi' = pi_size pi \<and> (\<forall>a. a \<noteq> 0 \<longrightarrow> area pi' a = area pi a)
    \<and> bound_ok good caps ads' all
    \<and> (\<forall>j < length (base pi 0). (\<forall>b \<in> set bs. \<not> in_slice b j) \<longrightarrow> base pi' 0 ! j = base pi 0 ! j)"
  using assms
proof (induction bs arbitrary: i worst pi ads)
  case (Cons b bs)
  have b: "binding_fits pi b" "good (ads (b_adapter b))" "caps (ads (b_adapter b)) = b_caps b"
    using Cons.prems(2,3) by (simp_all add: bound_ok_def)
  obtain st1 a w where w: "length w = unat (input_bytes (b_caps b))" and a: "good a" "caps a = caps (ads (b_adapter b))"
    and eq: "\<And>bs worst. scan_io_loop shadow shadow_len env i (b # bs) worst pi ads =
      scan_io_loop shadow shadow_len env (Suc i) bs (if st1 \<noteq> PLC_OK then st1 else worst)
        (poke pi 0 (unat (i_offset b)) w) (ads(b_adapter b := a))"
    by (rule scan_exchange [where ads = ads and env = env and i = i, OF Cons.prems(1,1) b(1,1,2,3)
        Cons.prems(5) [of i] Cons.prems(6,7)]) (rule that)
  let ?pi = "poke pi 0 (unat (i_offset b)) w"
  have wf: "pi_wf ?pi" by (rule poke_window_wf [OF Cons.prems(1) b(1) w])
  have len: "length (base ?pi 0) = length (base pi 0)"
    using wf Cons.prems(1) by (simp add: pi_wf_length_base del: poke_simps(2))
  have fits: "list_all (binding_fits ?pi) bs"
    using Cons.prems(2) by (simp add: list_all_iff binding_fits_def)
  have "bound_ok good caps ads bs" using Cons.prems(3) by (simp add: bound_ok_def)
  note bd = this [THEN bound_ok_update, OF a] Cons.prems(4) [THEN bound_ok_update, OF a]
  have IH: "pi_wf pi' \<and> pi_size pi' = pi_size ?pi \<and> (\<forall>a. a \<noteq> 0 \<longrightarrow> area pi' a = area ?pi a)
    \<and> bound_ok good caps ads' all
    \<and> (\<forall>j < length (base ?pi 0). (\<forall>b \<in> set bs. \<not> in_slice b j) \<longrightarrow> base pi' 0 ! j = base ?pi 0 ! j)"
    by (rule Cons.IH [OF wf fits bd Cons.prems(5) _ Cons.prems(7) Cons.prems(8) [unfolded eq]])
      (simp add: Cons.prems(6))
  have "base pi' 0 ! j = base pi 0 ! j"
    if "j < length (base pi 0)" "\<forall>b \<in> set (b # bs). \<not> in_slice b j" for j
    using that IH nth_poke_window [OF Cons.prems(1) b(1) w that(1)] len by (simp del: poke_simps(2))
  with IH show ?case by simp
qed simp

lemma scan_io_loop_determined:
  assumes "pi_agree bs p q" and "list_all (binding_fits p) bs" and "bound_ok good caps ads bs"
    and "\<And>i. env_ok (env i)" and "shadow_len = pi_size p 1" and "length shadow = max 1 (unat shadow_len)"
  shows "scan_io_loop shadow shadow_len env i bs worst p ads = scan_io_loop shadow shadow_len env i bs worst q ads"
  using assms
proof (induction bs arbitrary: i worst p q ads)
  case Nil
  then show ?case using pi_agree_Nil [of p q] by simp
next
  case (Cons b bs)
  have wf: "pi_wf p" "pi_wf q" and sz: "pi_size p = pi_size q" using Cons.prems(1) by (simp_all add: pi_agree_def)
  have b: "binding_fits p b" "binding_fits q b" "good (ads (b_adapter b))" "caps (ads (b_adapter b)) = b_caps b"
    using Cons.prems(2,3) sz by (simp_all add: bound_ok_def binding_fits_def)
  obtain st a w where w: "length w = unat (input_bytes (b_caps b))" and a: "good a" "caps a = caps (ads (b_adapter b))"
    and eq: "\<And>bs worst. scan_io_loop shadow shadow_len env i (b # bs) worst p ads =
      scan_io_loop shadow shadow_len env (Suc i) bs (if st \<noteq> PLC_OK then st else worst)
        (poke p 0 (unat (i_offset b)) w) (ads(b_adapter b := a))"
      "\<And>bs worst. scan_io_loop shadow shadow_len env i (b # bs) worst q ads =
      scan_io_loop shadow shadow_len env (Suc i) bs (if st \<noteq> PLC_OK then st else worst)
        (poke q 0 (unat (i_offset b)) w) (ads(b_adapter b := a))"
    by (rule scan_exchange [where ads = ads and env = env and i = i, OF wf b
        Cons.prems(4) [of i] Cons.prems(5,6)]) (rule that)
  have fits: "list_all (binding_fits (poke p 0 (unat (i_offset b)) w)) bs"
    using Cons.prems(2) by (simp add: list_all_iff binding_fits_def)
  have bd: "bound_ok good caps (ads(b_adapter b := a)) bs"
    using Cons.prems(3) a by (intro bound_ok_update) (simp_all add: bound_ok_def)
  show ?case unfolding eq
    using Cons.prems(5,6)
    by (intro Cons.IH [OF pi_agree_poke [OF Cons.prems(1) b(1) w] fits bd Cons.prems(4)]) simp_all
qed

end

subsection \<open>A whole scan\<close>

text \<open>What the engine needs of a program: it works on the image through the accessors.\<close>

definition pou_ok :: "'u plc_program \<Rightarrow> bool" where
  "pou_ok p \<longleftrightarrow> (\<forall>ctx pi u. pi_wf pi \<longrightarrow>
     pi_wf (fst (prog_fn p ctx (pi, u))) \<and> pi_size (fst (prog_fn p ctx (pi, u))) = pi_size pi)"

lemma run_programs_keeps:
  assumes "pi_wf pi" and "list_all pou_ok ps"
  shows "pi_wf (fst (run_programs ctx ps (pi, u))) \<and> pi_size (fst (run_programs ctx ps (pi, u))) = pi_size pi"
  using assms
proof (induction ps arbitrary: pi u)
  case (Cons p ps)
  obtain pi' u' where s: "prog_fn p (ctx\<lparr>ctx_user := prog_user p\<rparr>) (pi, u) = (pi', u')"
    by (cases "prog_fn p (ctx\<lparr>ctx_user := prog_user p\<rparr>) (pi, u)")
  from Cons.prems s have "pi_wf pi'" "pi_size pi' = pi_size pi" "list_all pou_ok ps"
    unfolding pou_ok_def by (simp_all, metis fst_conv, metis fst_conv)
  with Cons.IH [of pi' u'] s show ?case by (simp add: run_programs_def)
qed (simp add: run_programs_def)

lemma account_fields [simp]:
  "rt_pi (account t0 t1 rt) = rt_pi rt" "bindings (account t0 t1 rt) = bindings rt"
  "programs (account t0 t1 rt) = programs rt" "q_shadow (account t0 t1 rt) = q_shadow rt"
  "q_shadow_len (account t0 t1 rt) = q_shadow_len rt" "rt_cfg (account t0 t1 rt) = rt_cfg rt"
  "scan_no (account t0 t1 rt) = scan_no rt" "stop (account t0 t1 rt) = stop rt"
  by (simp_all add: account_def Let_def)

lemma latch_fields [simp]:
  "rt_pi (latch_outputs rt) = rt_pi rt" "bindings (latch_outputs rt) = bindings rt"
  "programs (latch_outputs rt) = programs rt" "q_shadow_len (latch_outputs rt) = q_shadow_len rt"
  "rt_cfg (latch_outputs rt) = rt_cfg rt" "scan_no (latch_outputs rt) = scan_no rt"
  "stop (latch_outputs rt) = stop rt" "rt_stats (latch_outputs rt) = rt_stats rt"
  "first_scan (latch_outputs rt) = first_scan rt" "last_scan_ns (latch_outputs rt) = last_scan_ns rt"
  by (simp_all add: latch_outputs_def split: option.split)

lemma latch_shadow:
  assumes "pi_wf (rt_pi rt)" and "q_shadow_len rt = pi_size (rt_pi rt) 1"
    and "length (q_shadow rt) = max 1 (unat (q_shadow_len rt))"
  shows "q_shadow (latch_outputs rt) = (if q_shadow_len rt = 0 then q_shadow rt else base (rt_pi rt) 1)"
proof -
  have q: "plc_pi_area (rt_pi rt) 1 = Some (base (rt_pi rt) 1)"
    using assms(1) by (simp add: plc_pi_area_def pi_wf_area_ok pi_wf_area)
  have "unat (q_shadow_len rt) \<ge> 1" if "q_shadow_len rt \<noteq> 0"
    using that by (simp add: Suc_le_eq unat_gt_0)
  then show ?thesis
    using assms pi_wf_length_base [OF assms(1), of 1]
    by (auto simp: latch_outputs_def q get_slice_def max_def)
qed

text \<open>The state of the image and of the adapters after the I/O phase.\<close>

definition after_io ::
  "'e scan_env \<Rightarrow> 'u plc_runtime \<times> ('i, 'e) adapters \<times> 'u \<Rightarrow> plc_status \<times> plc_process_image \<times> ('i, 'e) adapters" where
  "after_io env s = scan_io_loop (q_shadow (fst s)) (q_shadow_len (fst s)) (env_exchange env) 0
     (bindings (fst s)) PLC_OK (rt_pi (fst s)) (fst (snd s))"

lemma scan_begin_fields [simp]:
  "rt_pi (scan_begin t rt) = rt_pi rt" "bindings (scan_begin t rt) = bindings rt"
  "programs (scan_begin t rt) = programs rt" "q_shadow (scan_begin t rt) = q_shadow rt"
  "q_shadow_len (scan_begin t rt) = q_shadow_len rt" "rt_cfg (scan_begin t rt) = rt_cfg rt"
  "scan_no (scan_begin t rt) = scan_no rt" "stop (scan_begin t rt) = stop rt"
  "first_scan (scan_begin t rt) = first_scan rt" "rt_stats (scan_begin t rt) = rt_stats rt"
  by (simp_all add: scan_begin_def)

lemma count_io_fault_fields [simp]:
  "rt_pi (count_io_fault st rt) = rt_pi rt" "bindings (count_io_fault st rt) = bindings rt"
  "programs (count_io_fault st rt) = programs rt" "q_shadow (count_io_fault st rt) = q_shadow rt"
  "q_shadow_len (count_io_fault st rt) = q_shadow_len rt" "rt_cfg (count_io_fault st rt) = rt_cfg rt"
  "scan_no (count_io_fault st rt) = scan_no rt" "stop (count_io_fault st rt) = stop rt"
  "first_scan (count_io_fault st rt) = first_scan rt"
  by (simp_all add: count_io_fault_def)

lemma scan_once_eq:
  assumes "after_io env (rt, ads, u) = (io, pi, ads')"
  shows "plc_runtime_scan_once env (rt, ads, u) =
    (let rt1 = count_io_fault io ((scan_begin (env_t0 env) rt)\<lparr>rt_pi := pi\<rparr>) in
     if io \<noteq> PLC_OK \<and> \<not> continue_on_io_fault (rt_cfg rt) then (io, rt1, ads', u)
     else case run_programs (pou_context (env_t0 env) rt1) (programs rt) (pi, u) of (pi', u') \<Rightarrow>
       let rt2 = account (env_t0 env) (env_t1 env) (latch_outputs (rt1\<lparr>rt_pi := pi'\<rparr>))
       in (io, rt2\<lparr>last_scan_ns := env_t0 env, first_scan := False, scan_no := scan_no rt + 1\<rparr>, ads', u'))"
  using assms by (simp add: plc_runtime_scan_once_def scan_io_def after_io_def Let_def)

text \<open>The frame of a scan: what no scan changes, whether it completes or aborts.\<close>

lemma scan_once_frame:
  assumes "plc_runtime_scan_once env (rt, ads, u) = (st, rt', ads', u')"
  shows "bindings rt' = bindings rt" and "programs rt' = programs rt" and "rt_cfg rt' = rt_cfg rt"
    and "q_shadow_len rt' = q_shadow_len rt" and "stop rt' = stop rt"
    and "st = fst (after_io env (rt, ads, u))" and "ads' = snd (snd (after_io env (rt, ads, u)))"
    and "scan_no rt' = (if st \<noteq> PLC_OK \<and> \<not> continue_on_io_fault (rt_cfg rt) then scan_no rt else scan_no rt + 1)"
  using assms scan_once_eq [of env rt ads u "fst (after_io env (rt, ads, u))"
      "fst (snd (after_io env (rt, ads, u)))" "snd (snd (after_io env (rt, ads, u)))"]
  by (auto simp: Let_def split: prod.splits if_splits)

context io_adapter
begin

lemma after_io_keeps:
  assumes "rt_wf rt" and "bound_ok good caps ads (bindings rt)" and "\<And>i. env_ok (env_exchange env i)"
    and "after_io env (rt, ads, u) = (io, pi, ads')"
  shows "pi_wf pi" and "pi_size pi = pi_size (rt_pi rt)" and "bound_ok good caps ads' (bindings rt)"
    and "a \<noteq> 0 \<Longrightarrow> area pi a = area (rt_pi rt) a"
    and "j < length (base (rt_pi rt) 0) \<Longrightarrow> \<forall>b \<in> set (bindings rt). \<not> in_slice b j \<Longrightarrow>
      base pi 0 ! j = base (rt_pi rt) 0 ! j"
proof -
  have wf: "pi_wf (rt_pi rt)" and fits: "list_all (binding_fits (rt_pi rt)) (bindings rt)"
    and sh: "q_shadow_len rt = pi_size (rt_pi rt) 1" "length (q_shadow rt) = max 1 (unat (q_shadow_len rt))"
    using assms(1) by (simp_all add: rt_wf_def)
  have "scan_io_loop (q_shadow rt) (q_shadow_len rt) (env_exchange env) 0 (bindings rt) PLC_OK (rt_pi rt) ads =
      (io, pi, ads')"
    using assms(4) by (simp add: after_io_def)
  from scan_io_loop_inv [OF wf fits assms(2,2,3) sh this]
  show "pi_wf pi" "pi_size pi = pi_size (rt_pi rt)" "bound_ok good caps ads' (bindings rt)"
    "a \<noteq> 0 \<Longrightarrow> area pi a = area (rt_pi rt) a"
    "j < length (base (rt_pi rt) 0) \<Longrightarrow> \<forall>b \<in> set (bindings rt). \<not> in_slice b j \<Longrightarrow>
      base pi 0 ! j = base (rt_pi rt) 0 ! j" by simp_all
qed

lemma scan_once_keeps:
  assumes "rt_wf rt" and "bound_ok good caps ads (bindings rt)" and "list_all pou_ok (programs rt)"
    and "\<And>i. env_ok (env_exchange env i)"
    and "plc_runtime_scan_once env (rt, ads, u) = (st, rt', ads', u')"
  shows "rt_wf rt' \<and> bound_ok good caps ads' (bindings rt') \<and> list_all pou_ok (programs rt')
    \<and> (if st \<noteq> PLC_OK \<and> \<not> continue_on_io_fault (rt_cfg rt)
       then q_shadow rt' = q_shadow rt \<and> u' = u \<and> base (rt_pi rt') 1 = base (rt_pi rt) 1
       else q_shadow_len rt \<noteq> 0 \<longrightarrow> q_shadow rt' = base (rt_pi rt') 1)"
proof -
  obtain io pi ads1 where io: "after_io env (rt, ads, u) = (io, pi, ads1)" by (cases "after_io env (rt, ads, u)")
  note k = after_io_keeps [OF assms(1,2,4) io]
  note fr = scan_once_frame [OF assms(5)]
  have fits: "binding_fits p b" if "pi_size p = pi_size (rt_pi rt)" "b \<in> set (bindings rt)" for p b
    using assms(1) that by (auto simp: rt_wf_def list_all_iff binding_fits_def)
  have sz: "q_shadow_len rt = pi_size (rt_pi rt) 1" "length (q_shadow rt) = max 1 (unat (q_shadow_len rt))"
    "length (bindings rt) \<le> 8" "length (programs rt) \<le> 8" using assms(1) by (simp_all add: rt_wf_def)
  show ?thesis
  proof (cases "st \<noteq> PLC_OK \<and> \<not> continue_on_io_fault (rt_cfg rt)")
    case True
    with assms(5) io scan_once_eq [OF io] have "rt_pi rt' = pi" "q_shadow rt' = q_shadow rt" "u' = u" "ads' = ads1"
      by (auto simp: Let_def fr(6))
    with True k fits sz fr assms(3) show ?thesis
      by (simp add: rt_wf_def list_all_iff base_def)
  next
    case False
    let ?ctx = "pou_context (env_t0 env) (count_io_fault io ((scan_begin (env_t0 env) rt)\<lparr>rt_pi := pi\<rparr>))"
    obtain pi' where p: "run_programs ?ctx (programs rt) (pi, u) = (pi', u')" "rt_pi rt' = pi'" "ads' = ads1"
      and q: "q_shadow rt' = q_shadow (latch_outputs
        ((count_io_fault io ((scan_begin (env_t0 env) rt)\<lparr>rt_pi := pi\<rparr>))\<lparr>rt_pi := pi'\<rparr>))"
      using False assms(5) io scan_once_eq [OF io] fr(6) by (auto simp: Let_def split: prod.splits)
    from run_programs_keeps [OF k(1) assms(3), of ?ctx u] p k(2)
    have wf: "pi_wf pi'" "pi_size pi' = pi_size (rt_pi rt)" by simp_all
    let ?rt = "(count_io_fault io ((scan_begin (env_t0 env) rt)\<lparr>rt_pi := pi\<rparr>))\<lparr>rt_pi := pi'\<rparr>"
    have "q_shadow rt' = (if q_shadow_len rt = 0 then q_shadow rt else base pi' 1)"
      using latch_shadow [of ?rt] wf sz unfolding q by simp
    with False p(2,3) wf fits sz fr(1-4) assms(3) k(3) show ?thesis
      by (simp add: rt_wf_def list_all_iff pi_wf_length_base) blast
  qed
qed

end

lemma scan_once_snd:
  assumes "plc_runtime_scan_once env s = (st, s')"
  shows "stop (fst s') = stop (fst s)" "rt_cfg (fst s') = rt_cfg (fst s)"
    "st = PLC_OK \<or> continue_on_io_fault (rt_cfg (fst s)) \<Longrightarrow> scan_no (fst s') = scan_no (fst s) + 1"
    "st \<noteq> PLC_OK \<and> \<not> continue_on_io_fault (rt_cfg (fst s)) \<Longrightarrow> scan_no (fst s') = scan_no (fst s)"
proof -
  obtain rt ads u where s: "s = (rt, ads, u)" by (cases s)
  obtain rt' ads' u' where s': "s' = (rt', ads', u')" by (cases s')
  note fr = scan_once_frame [OF assms [unfolded s s']]
  show "stop (fst s') = stop (fst s)" "rt_cfg (fst s') = rt_cfg (fst s)"
    "st = PLC_OK \<or> continue_on_io_fault (rt_cfg (fst s)) \<Longrightarrow> scan_no (fst s') = scan_no (fst s) + 1"
    "st \<noteq> PLC_OK \<and> \<not> continue_on_io_fault (rt_cfg (fst s)) \<Longrightarrow> scan_no (fst s') = scan_no (fst s)"
    using fr(3,5,8) by (simp_all add: s s')
qed

lemma run_loop_returns:
  assumes "scan_no (fst s) < max_scans" and "unat max_scans - unat (scan_no (fst s)) \<le> length its"
    and "\<not> stop (fst s)"
  shows "case run_loop max_scans period its deadline tr s of
      None \<Rightarrow> False
    | Some (st, s', tr') \<Rightarrow> scan_no (fst s') \<le> max_scans
        \<and> (st = PLC_OK \<or> \<not> continue_on_io_fault (rt_cfg (fst s)))
        \<and> (continue_on_io_fault (rt_cfg (fst s)) \<and> list_all (\<lambda>it. \<not> it_stop it) its \<longrightarrow>
             scan_no (fst s') = max_scans)"
  using assms
proof (induction its arbitrary: s deadline tr)
  case Nil
  then show ?case by (simp add: word_less_nat_alt)
next
  case (Cons it its)
  obtain st s1 where sc: "plc_runtime_scan_once (it_scan it) s = (st, s1)"
    by (cases "plc_runtime_scan_once (it_scan it) s")
  note fr = scan_once_snd [OF sc]
  have suc: "unat (scan_no (fst s) + 1) = Suc (unat (scan_no (fst s)))"
    by (rule unat_suc_less [OF Cons.prems(1)])
  consider "it_stop it" | "\<not> it_stop it" "st \<noteq> PLC_OK \<and> \<not> continue_on_io_fault (rt_cfg (fst s))"
    | "\<not> it_stop it" "st = PLC_OK \<or> continue_on_io_fault (rt_cfg (fst s))" by blast
  then show ?case
  proof cases
    case 1
    then show ?thesis using Cons.prems(1) by simp
  next
    case 2
    then show ?thesis using Cons.prems(1,3) fr by (simp add: sc)
  next
    case 3
    then have no: "scan_no (fst s1) = scan_no (fst s) + 1" using fr by blast
    show ?thesis
    proof (cases "scan_no (fst s1) \<ge> max_scans")
      case True
      then have "scan_no (fst s1) = max_scans"
        using Cons.prems(1) no suc by (simp add: word_less_nat_alt word_le_nat_alt word_unat_eq_iff)
      moreover have "max_scans \<noteq> 0" using Cons.prems(1) by auto
      ultimately show ?thesis using 3 Cons.prems(3) fr(2) by (simp add: sc)
    next
      case lt: False
      then have "scan_no (fst s1) < max_scans" "unat max_scans - unat (scan_no (fst s1)) \<le> length its"
        "\<not> stop (fst s1)" using Cons.prems no suc fr by auto
      note IH = Cons.IH [OF this]
      have "\<exists>d tr'. run_loop max_scans period (it # its) deadline tr s = run_loop max_scans period its d tr' s1"
        using 3 lt Cons.prems(3) fr(2) by (auto simp: sc Let_def)
      then obtain d tr' where
        step: "run_loop max_scans period (it # its) deadline tr s = run_loop max_scans period its d tr' s1"
        by blast
      show ?thesis unfolding step
        using 3 IH [of d tr'] fr(2) by (auto split: option.splits)
    qed
  qed
qed

text \<open>Every sleep ends at least one period after the previous deadline.\<close>

definition paced :: "rt_time \<Rightarrow> rt_time list \<Rightarrow> bool" where
  "paced period ds = successively (\<lambda>d d'. sint d + sint period \<le> sint d') ds"

lemma paced_snoc:
  "paced period (ds @ [d, d']) \<longleftrightarrow> paced period (ds @ [d]) \<and> sint d + sint period \<le> sint d'"
  by (induction ds rule: induct_list012) (auto simp: paced_def)

lemma run_loop_paced:
  assumes "0 < sint period" and "start # tr = ds @ [deadline]" and "paced period (start # tr)"
    and "sint deadline + int (length its) * sint period < 2 ^ 63"
    and "list_all (\<lambda>it. sint (it_now it) + int (length its) * sint period < 2 ^ 63) its"
    and "run_loop max_scans period its deadline tr s = Some (st, s', tr')"
  shows "paced period (start # tr')"
  using assms
proof (induction its arbitrary: s deadline tr ds)
  case (Cons it its)
  obtain st1 s1 where sc: "plc_runtime_scan_once (it_scan it) s = (st1, s1)"
    by (cases "plc_runtime_scan_once (it_scan it) s")
  define d where "d = (if sint (deadline + period) < sint (it_now it) then it_now it else deadline + period)"
  have grow: "int (length (it # its)) * sint period = sint period + int (length its) * sint period"
    by (simp add: algebra_simps)
  have pos: "0 \<le> int (length its) * sint period" using Cons.prems(1) by simp
  have sum: "sint (deadline + period) = sint deadline + sint period"
    using Cons.prems(1,4) grow pos sint_bounds64(1) [of deadline] by (intro sint_add64) linarith+
  have d: "sint deadline + sint period \<le> sint d" "sint d + int (length its) * sint period < 2 ^ 63"
    using sum Cons.prems(1,4,5) grow pos by (auto simp: d_def)
  have "list_all (\<lambda>it. sint (it_now it) + int (length its) * sint period < 2 ^ 63) its"
    using Cons.prems(1,5) grow by (force simp: list_all_iff)
  moreover have eq: "start # tr @ [d] = ds @ [deadline, d]" using Cons.prems(2) by simp
  have "paced period (start # tr @ [d])"
    unfolding eq paced_snoc using Cons.prems(2,3) d(1) by simp
  ultimately have IH: "run_loop max_scans period its d (tr @ [d]) s1 = Some (st, s', tr') \<Longrightarrow> paced period (start # tr')"
    using Cons.IH [of "tr @ [d]" "start # tr" d s1] Cons.prems(1) d(2) by simp
  show ?case
    using Cons.prems(1,3,6) IH sc by (auto simp: Let_def d_def [symmetric] split: if_splits)
qed simp

subsection \<open>Properties\<close>

text \<open>
  C32: A runtime is created completely or not at all: with every allocation granted the result
  is well formed and holds five blocks, which destroying it gives back; if any allocation
  fails, nothing stays allocated.
\<close>

theorem runtime_create_all_or_nothing:
  "if alloc_rt \<and> alloc 0 \<and> alloc 1 \<and> alloc 2 \<and> alloc_shadow
   then \<exists>rt. plc_runtime_create alloc_rt alloc alloc_shadow h cfg = (h + 5, Some rt) \<and> rt_wf rt
          \<and> plc_runtime_destroy (h + 5) rt = h
   else plc_runtime_create alloc_rt alloc alloc_shadow h cfg = (h, None)"
proof -
  have one: "(if w \<noteq> 0 then unat w else 1) = max 1 (unat w)" for w :: size_t
    using unat_gt_0 [of w] by auto
  show ?thesis
    by (auto simp: plc_runtime_create_def plc_runtime_destroy_def plc_pi_init_def pi_zero_def
        plc_pi_free_def rt_wf_def pi_wf_def one Let_def)
qed

text \<open>
  C33: An adapter is bound exactly when there is room for another binding, it was built for
  this ABI, and its two slices lie inside %I and %Q (no overflow of offset plus size can make
  an impossible slice pass). A bound runtime stays well formed; a refusal changes nothing.
\<close>

theorem bind_adapter_exact:
  assumes "rt_wf rt" and "plc_adapter_get_caps (ads a) = (PLC_OK, Some caps)"
  shows "(fst (plc_runtime_bind_adapter ads rt (Some a) i q) = PLC_OK \<longleftrightarrow>
      length (bindings rt) < 8 \<and> abi_version caps = 1
      \<and> unat i + unat (input_bytes caps) \<le> unat (pi_size (rt_pi rt) 0)
      \<and> unat q + unat (output_bytes caps) \<le> unat (pi_size (rt_pi rt) 1))
    \<and> rt_wf (snd (plc_runtime_bind_adapter ads rt (Some a) i q))
    \<and> (fst (plc_runtime_bind_adapter ads rt (Some a) i q) \<noteq> PLC_OK \<longrightarrow>
         snd (plc_runtime_bind_adapter ads rt (Some a) i q) = rt)"
proof -
  have size: "plc_pi_area_size (rt_pi rt) 0 = pi_size (rt_pi rt) 0"
    "plc_pi_area_size (rt_pi rt) 1 = pi_size (rt_pi rt) 1"
    using assms(1) by (simp_all add: rt_wf_def plc_pi_area_size_def pi_wf_area_ok)
  show ?thesis
    using assms
    by (simp add: plc_runtime_bind_adapter_def size word_range_check Let_def rt_wf_def binding_fits_def)
qed

text \<open>A runtime with 2 bytes of %I, 4 of %Q and 1 of %M, and one open adapter slot.\<close>

definition demo_runtime :: "unit plc_runtime" where
  "demo_runtime = the (snd (plc_runtime_create True (\<lambda>_. True) True 0
     (plc_runtime_config_init\<lparr>i_bytes := 2, q_bytes := 4, m_bytes := 1\<rparr>)))"

lemma demo_runtime_facts:
  "rt_wf demo_runtime" "bindings demo_runtime = []" "programs demo_runtime = []"
  "pi_size (rt_pi demo_runtime) 0 = 2" "pi_size (rt_pi demo_runtime) 1 = 4"
  "scan_no demo_runtime = 0" "stop demo_runtime = False"
  "rt_cfg demo_runtime = plc_runtime_config_init\<lparr>i_bytes := 2, q_bytes := 4, m_bytes := 1\<rparr>"
  by (simp_all add: demo_runtime_def plc_runtime_create_def plc_pi_init_def pi_zero_def rt_wf_def
      plc_runtime_config_init_def pi_wf_def)

definition demo_adapter :: "(plc_adapter_caps, unit) plc_protocol_adapter" where
  "demo_adapter = \<lparr>vtbl = Some \<lparr>vt_open = None, vt_close = None, vt_exchange = None,
     vt_get_caps = Some (\<lambda>c. (PLC_OK, c)), vt_get_stats = None, vt_state = None\<rparr>,
   impl = caps_zero\<lparr>abi_version := 1, input_bytes := 2, output_bytes := 3\<rparr>\<rparr>"

theorem bind_adapter_exact_witness:
  "fst (plc_runtime_bind_adapter (\<lambda>_. demo_adapter) demo_runtime (Some 0) 0 1) = PLC_OK
   \<and> fst (plc_runtime_bind_adapter (\<lambda>_. demo_adapter) demo_runtime (Some 0) 0 0xFFFFFFFFFFFFFFFE) \<noteq> PLC_OK"
proof -
  have caps: "plc_adapter_get_caps demo_adapter =
      (PLC_OK, Some (caps_zero\<lparr>abi_version := 1, input_bytes := 2, output_bytes := 3\<rparr>))"
    by (simp add: plc_adapter_get_caps_def demo_adapter_def)
  show ?thesis
    using bind_adapter_exact [OF demo_runtime_facts(1), of "\<lambda>_. demo_adapter" 0, OF caps, of 0 1]
      bind_adapter_exact [OF demo_runtime_facts(1), of "\<lambda>_. demo_adapter" 0, OF caps, of 0 "0xFFFFFFFFFFFFFFFE"]
    by (simp add: demo_runtime_facts)
qed

text \<open>
  C25: A task that was asked for a number of scans returns: given that many iterations the loop
  ends, never having run more scans than asked. It reports a failure only when the runtime is
  configured to stop on I/O faults; otherwise, unless somebody requests a stop, it returns
  \<open>PLC_OK\<close> having run exactly the number of scans asked for, whatever the adapters did.
\<close>

theorem run_returns:
  assumes "scan_no (fst s) < max_scans" and "unat max_scans - unat (scan_no (fst s)) \<le> length its"
  shows "\<exists>st s' tr. plc_runtime_run max_scans start its s = Some (st, s', tr)
    \<and> scan_no (fst s') \<le> max_scans
    \<and> (continue_on_io_fault (rt_cfg (fst s)) \<longrightarrow> st = PLC_OK)
    \<and> (continue_on_io_fault (rt_cfg (fst s)) \<and> list_all (\<lambda>it. \<not> it_stop it) its \<longrightarrow>
         scan_no (fst s') = max_scans)"
proof -
  let ?s = "((fst s)\<lparr>stop := False\<rparr>, snd s)" and ?p = "ucast (cycle_us (rt_cfg (fst s))) * 1000 :: rt_time"
  have eq: "plc_runtime_run max_scans start its s = run_loop max_scans ?p its start [] ?s"
    by (simp add: plc_runtime_run_def Let_def)
  have "\<not> stop (fst ?s)" "scan_no (fst ?s) = scan_no (fst s)" "rt_cfg (fst ?s) = rt_cfg (fst s)" by simp_all
  with run_loop_returns [of ?s max_scans its ?p start "[]"] assms show ?thesis
    unfolding eq by (auto split: option.splits)
qed

definition demo_iteration :: "rt_time \<Rightarrow> unit iteration" where
  "demo_iteration t = \<lparr>it_stop = False, it_scan = \<lparr>env_t0 = t, env_t1 = t + 500000, env_exchange = \<lambda>_. ()\<rparr>,
     it_now = t + 500000\<rparr>"

theorem run_returns_witness:
  "\<exists>st s' tr. plc_runtime_run 2 0 [demo_iteration 0, demo_iteration 10000000]
      (demo_runtime, \<lambda>_. demo_adapter, ()) = Some (st, s', tr) \<and> st = PLC_OK \<and> scan_no (fst s') = 2"
  using run_returns [of "(demo_runtime, \<lambda>_. demo_adapter, ())" 2 "[demo_iteration 0, demo_iteration 10000000]" 0]
  by (auto simp: demo_runtime_facts plc_runtime_config_init_def demo_iteration_def)



end
