(* ===== verification/Adapter_Registry.thy ===== *)
theory Adapter_Registry
  imports Plc_Types
begin

text \<open>
  \<open>core/adapter_registry.c\<close> and \<open>adapters/builtins.c\<close>: the table of adapter factories by
  protocol name, the factories compiled into an image, and the roles an image offers. The type
  parameter \<open>'c\<close> is a factory's pair of constructor and destructor, which the registry never
  calls; the two build options are arguments.
\<close>


subsection \<open>The registry\<close>

record 'c plc_adapter_factory =
  fa_protocol :: "string option"
  fa_description :: string
  fa_create :: "'c option"

type_synonym 'c registry = "'c plc_adapter_factory list"

abbreviation (input) PLC_ADAPTER_REGISTRY_MAX :: nat where "PLC_ADAPTER_REGISTRY_MAX \<equiv> 16"

definition plc_adapter_registry_find :: "'c registry \<Rightarrow> string option \<Rightarrow> 'c plc_adapter_factory option" where
  "plc_adapter_registry_find g protocol =
     (case protocol of
        None \<Rightarrow> None
      | Some p \<Rightarrow> find (\<lambda>f. the (fa_protocol f) = p) g)"

definition plc_adapter_registry_add ::
  "'c registry \<Rightarrow> 'c plc_adapter_factory \<Rightarrow> plc_status \<times> 'c registry" where
  "plc_adapter_registry_add g f =
     (if fa_protocol f = None \<or> fa_create f = None then (PLC_ERR_INVAL, g)
      else if plc_adapter_registry_find g (fa_protocol f) \<noteq> None then (PLC_ERR_STATE, g)
      else if length g \<ge> PLC_ADAPTER_REGISTRY_MAX then (PLC_ERR_NOMEM, g)
      else (PLC_OK, g @ [f]))"

definition plc_adapter_registry_count :: "'c registry \<Rightarrow> nat" where
  "plc_adapter_registry_count g = length g"

definition plc_adapter_registry_at :: "'c registry \<Rightarrow> nat \<Rightarrow> 'c plc_adapter_factory option" where
  "plc_adapter_registry_at g index = (if index < length g then Some (g ! index) else None)"

definition plc_adapter_registry_reset :: "'c registry \<Rightarrow> 'c registry" where
  "plc_adapter_registry_reset g = []"

subsection \<open>Built-in factories and roles\<close>

definition loopback_factory :: "'c \<Rightarrow> 'c plc_adapter_factory" where
  "loopback_factory c = \<lparr>fa_protocol = Some ''loopback'',
     fa_description = ''In-process mirror adapter for tests and smoke runs'', fa_create = Some c\<rparr>"

definition eip_factory :: "'c \<Rightarrow> 'c plc_adapter_factory" where
  "eip_factory c = \<lparr>fa_protocol = Some ''ethernet-ip'',
     fa_description = ''EtherNet/IP adapter (OpENer) in a separate process'', fa_create = Some c\<rparr>"

definition eip_scanner_factory :: "'c \<Rightarrow> 'c plc_adapter_factory" where
  "eip_scanner_factory c = \<lparr>fa_protocol = Some ''ethernet-ip-scanner'',
     fa_description = ''EtherNet/IP Scanner/originator (EIPScanner) in a separate process'',
     fa_create = Some c\<rparr>"

definition plc_adapter_register_builtins ::
  "bool \<Rightarrow> bool \<Rightarrow> 'c \<Rightarrow> 'c \<Rightarrow> 'c \<Rightarrow> 'c registry \<Rightarrow> 'c registry" where
  "plc_adapter_register_builtins with_eip with_scanner lb eip scn g =
     (let g = snd (plc_adapter_registry_add g (loopback_factory lb));
          g = (if with_eip then snd (plc_adapter_registry_add g (eip_factory eip)) else g)
      in if with_scanner then snd (plc_adapter_registry_add g (eip_scanner_factory scn)) else g)"

definition kRoles :: "bool \<Rightarrow> bool \<Rightarrow> (string \<times> string) list" where
  "kRoles with_eip with_scanner =
     [(''none'', ''loopback'')]
     @ (if with_eip then [(''adapter'', ''ethernet-ip'')] else [])
     @ (if with_scanner then [(''scanner'', ''ethernet-ip-scanner'')] else [])"

definition plc_adapter_role_adapters :: "bool \<Rightarrow> bool \<Rightarrow> string option \<Rightarrow> string option" where
  "plc_adapter_role_adapters with_eip with_scanner role =
     (case role of
        None \<Rightarrow> None
      | Some r \<Rightarrow> map_option snd (find (\<lambda>e. fst e = r) (kRoles with_eip with_scanner)))"

definition plc_adapter_role_at :: "bool \<Rightarrow> bool \<Rightarrow> nat \<Rightarrow> string option" where
  "plc_adapter_role_at with_eip with_scanner index =
     (if index < length (kRoles with_eip with_scanner)
      then Some (fst (kRoles with_eip with_scanner ! index)) else None)"

subsection \<open>The registry as a map\<close>

definition registry_wf :: "'c registry \<Rightarrow> bool" where
  "registry_wf g \<longleftrightarrow> length g \<le> 16 \<and> distinct (map fa_protocol g)
     \<and> list_all (\<lambda>f. fa_protocol f \<noteq> None \<and> fa_create f \<noteq> None) g"

lemma find_append: "find P (xs @ ys) = (case find P xs of None \<Rightarrow> find P ys | Some x \<Rightarrow> Some x)"
  by (induction xs) auto

lemma registry_find_iff:
  assumes "registry_wf g"
  shows "plc_adapter_registry_find g (Some p) = Some f \<longleftrightarrow> f \<in> set g \<and> fa_protocol f = Some p"
  using assms
proof (induction g)
  case (Cons h g)
  then have wf: "registry_wf g" and h: "fa_protocol h \<noteq> None" "fa_protocol h \<notin> fa_protocol ` set g"
    by (auto simp: registry_wf_def)
  have eq: "the (fa_protocol h) = p \<longleftrightarrow> fa_protocol h = Some p" using h(1) by auto
  show ?case using Cons.IH [OF wf] h eq by (auto simp: plc_adapter_registry_find_def image_iff)
qed (simp add: plc_adapter_registry_find_def)

lemma registry_find_None:
  assumes "registry_wf g"
  shows "plc_adapter_registry_find g (Some p) = None \<longleftrightarrow> Some p \<notin> fa_protocol ` set g"
  using assms by (force simp: plc_adapter_registry_find_def find_None_iff registry_wf_def list_all_iff image_iff)

lemma registry_add_wf:
  assumes "registry_wf g"
  shows "registry_wf (snd (plc_adapter_registry_add g f))"
proof (cases "fa_protocol f")
  case (Some p)
  with assms registry_find_None [OF assms, of p] show ?thesis
    by (auto simp: plc_adapter_registry_add_def registry_wf_def image_iff)
qed (use assms in \<open>simp add: plc_adapter_registry_add_def\<close>)

text \<open>
  The contract the start-up code relies on: a registry is a bounded map from names to
  entries; adding an entry under a fresh name makes it findable and disturbs no other name.
\<close>

locale keyed_registry =
  fixes add :: "'g \<Rightarrow> 'f \<Rightarrow> plc_status \<times> 'g"
    and lookup :: "'g \<Rightarrow> 'k \<Rightarrow> 'f option"
    and key :: "'f \<Rightarrow> 'k"
    and size :: "'g \<Rightarrow> nat"
    and inv :: "'g \<Rightarrow> bool"
    and valid :: "'f \<Rightarrow> bool"
    and capacity :: nat
  assumes inv_add: "inv g \<Longrightarrow> inv (snd (add g f))"
    and add_fresh: "inv g \<Longrightarrow> valid f \<Longrightarrow> lookup g (key f) = None \<Longrightarrow> size g < capacity \<Longrightarrow>
      fst (add g f) = PLC_OK \<and> size (snd (add g f)) = Suc (size g)
      \<and> (\<forall>k. lookup (snd (add g f)) k = (if k = key f then Some f else lookup g k))"
    and add_taken: "lookup g (key f) \<noteq> None \<Longrightarrow> valid f \<Longrightarrow> add g f = (PLC_ERR_STATE, g)"
begin

lemma add_all:
  assumes "inv g" and "list_all valid fs" and "distinct (map key fs)"
    and "\<And>f. f \<in> set fs \<Longrightarrow> lookup g (key f) = None" and "size g + length fs \<le> capacity"
  shows "inv (foldl (\<lambda>g f. snd (add g f)) g fs)
    \<and> (\<forall>f \<in> set fs. lookup (foldl (\<lambda>g f. snd (add g f)) g fs) (key f) = Some f)
    \<and> (\<forall>k. k \<notin> key ` set fs \<longrightarrow> lookup (foldl (\<lambda>g f. snd (add g f)) g fs) k = lookup g k)"
  using assms
proof (induction fs arbitrary: g)
  case (Cons f fs)
  let ?g = "snd (add g f)"
  have add: "size ?g = Suc (size g)" "\<forall>k. lookup ?g k = (if k = key f then Some f else lookup g k)"
    using Cons.prems add_fresh [of g f] by simp_all
  have "key f \<notin> key ` set fs" using Cons.prems(3) by simp
  then have "lookup ?g (key h) = None" if "h \<in> set fs" for h
    using that Cons.prems(4) add(2) by (metis image_eqI list.set_intros(2))
  with Cons.prems add(1) have IH: "inv (foldl (\<lambda>g f. snd (add g f)) ?g fs)
    \<and> (\<forall>f \<in> set fs. lookup (foldl (\<lambda>g f. snd (add g f)) ?g fs) (key f) = Some f)
    \<and> (\<forall>k. k \<notin> key ` set fs \<longrightarrow> lookup (foldl (\<lambda>g f. snd (add g f)) ?g fs) k = lookup ?g k)"
    by (intro Cons.IH) (simp_all add: inv_add)
  with \<open>key f \<notin> key ` set fs\<close> add(2) show ?case by simp
qed simp

end

interpretation reg: keyed_registry plc_adapter_registry_add plc_adapter_registry_find fa_protocol
  length registry_wf "\<lambda>f. fa_protocol f \<noteq> None \<and> fa_create f \<noteq> None" 16
proof
  fix g :: "'c registry" and f
  show "registry_wf g \<Longrightarrow> registry_wf (snd (plc_adapter_registry_add g f))" by (rule registry_add_wf)
  assume v: "fa_protocol f \<noteq> None \<and> fa_create f \<noteq> None"
  then obtain p where p: "fa_protocol f = Some p" by auto
  show "plc_adapter_registry_find g (fa_protocol f) \<noteq> None \<Longrightarrow>
      plc_adapter_registry_add g f = (PLC_ERR_STATE, g)"
    using v by (simp add: plc_adapter_registry_add_def)
  assume "registry_wf g" "plc_adapter_registry_find g (fa_protocol f) = None" "length g < 16"
  with v p show "fst (plc_adapter_registry_add g f) = PLC_OK \<and> length (snd (plc_adapter_registry_add g f)) = Suc (length g)
      \<and> (\<forall>k. plc_adapter_registry_find (snd (plc_adapter_registry_add g f)) k =
            (if k = fa_protocol f then Some f else plc_adapter_registry_find g k))"
    by (auto simp: plc_adapter_registry_add_def plc_adapter_registry_find_def find_append split: option.split)
qed

definition builtins :: "bool \<Rightarrow> bool \<Rightarrow> 'c \<Rightarrow> 'c \<Rightarrow> 'c \<Rightarrow> 'c plc_adapter_factory list" where
  "builtins we ws lb eip scn = [loopback_factory lb] @ (if we then [eip_factory eip] else [])
     @ (if ws then [eip_scanner_factory scn] else [])"

lemma builtins_facts:
  "list_all (\<lambda>f. fa_protocol f \<noteq> None \<and> fa_create f \<noteq> None) (builtins we ws lb eip scn)"
  "distinct (map fa_protocol (builtins we ws lb eip scn))" "length (builtins we ws lb eip scn) \<le> 3"
  "map (\<lambda>f. the (fa_protocol f)) (builtins we ws lb eip scn) = map snd (kRoles we ws)"
  by (cases we; cases ws;
      simp add: builtins_def kRoles_def loopback_factory_def eip_factory_def eip_scanner_factory_def)+

lemma register_builtins_fold:
  "plc_adapter_register_builtins we ws lb eip scn g =
     foldl (\<lambda>g f. snd (plc_adapter_registry_add g f)) g (builtins we ws lb eip scn)"
  by (simp add: plc_adapter_register_builtins_def Let_def builtins_def)

lemma builtins_found:
  assumes "f \<in> set (builtins we ws lb eip scn)"
  shows "plc_adapter_registry_find (plc_adapter_register_builtins we ws lb eip scn []) (fa_protocol f) = Some f"
proof -
  have find0: "plc_adapter_registry_find [] k = None" for k :: "string option"
    by (simp add: plc_adapter_registry_find_def split: option.split)
  have wf: "registry_wf []" by (simp add: registry_wf_def)
  have "length ([] :: 'a registry) + length (builtins we ws lb eip scn) \<le> 16"
    using builtins_facts(3) [of we ws lb eip scn] by simp
  from reg.add_all [OF wf builtins_facts(1,2) _ this] assms find0
  show ?thesis unfolding register_builtins_fold by blast
qed

lemma find_fst: "find (\<lambda>e. fst e = r) xs = Some e \<Longrightarrow> e \<in> set xs \<and> fst e = r"
  by (induction xs) (auto split: if_splits)

subsection \<open>Properties\<close>

text \<open>
  C34: Every role an image offers can be started: in every build configuration, a role is known
  just when it is listed, and the adapter it names is registered at start-up, so that looking
  it up returns the factory of that very protocol.
\<close>

theorem roles_resolve:
  "(plc_adapter_role_adapters we ws (Some r) \<noteq> None \<longleftrightarrow> (\<exists>i. plc_adapter_role_at we ws i = Some r))
   \<and> (\<forall>a. plc_adapter_role_adapters we ws (Some r) = Some a \<longrightarrow>
        (\<exists>f. plc_adapter_registry_find (plc_adapter_register_builtins we ws lb eip scn []) (Some a) = Some f
           \<and> fa_protocol f = Some a))"
proof (intro conjI allI impI)
  show "plc_adapter_role_adapters we ws (Some r) \<noteq> None \<longleftrightarrow> (\<exists>i. plc_adapter_role_at we ws i = Some r)"
  proof -
    have "plc_adapter_role_adapters we ws (Some r) \<noteq> None \<longleftrightarrow> (\<exists>e. e \<in> set (kRoles we ws) \<and> fst e = r)"
      using find_None_iff [of "\<lambda>e. fst e = r" "kRoles we ws"]
      by (cases "find (\<lambda>e. fst e = r) (kRoles we ws)") (simp_all add: plc_adapter_role_adapters_def)
    also have "\<dots> \<longleftrightarrow> (\<exists>i < length (kRoles we ws). fst (kRoles we ws ! i) = r)"
      unfolding in_set_conv_nth by blast
    also have "\<dots> \<longleftrightarrow> (\<exists>i. plc_adapter_role_at we ws i = Some r)"
      unfolding plc_adapter_role_at_def by (metis option.distinct(1) option.inject)
    finally show ?thesis .
  qed
  fix a assume "plc_adapter_role_adapters we ws (Some r) = Some a"
  then have "a \<in> set (map snd (kRoles we ws))"
    by (force simp: plc_adapter_role_adapters_def dest!: find_fst)
  then obtain f where f: "f \<in> set (builtins we ws lb eip scn)" "the (fa_protocol f) = a"
    unfolding builtins_facts(4) [of we ws lb eip scn, symmetric] by auto
  then have "fa_protocol f = Some a" using builtins_facts(1) [of we ws lb eip scn] by (auto simp: list_all_iff)
  with builtins_found [OF f(1)] show "\<exists>f. plc_adapter_registry_find (plc_adapter_register_builtins we ws lb eip scn []) (Some a) = Some f
      \<and> fa_protocol f = Some a" by auto
qed

theorem roles_resolve_witness:
  "\<exists>f. plc_adapter_registry_find (plc_adapter_register_builtins True False () () () []) (Some ''ethernet-ip'') = Some f
     \<and> fa_protocol f = Some ''ethernet-ip''"
  using roles_resolve [of True False "''adapter''" "()" "()" "()"]
  by (simp add: plc_adapter_role_adapters_def kRoles_def)

end
