(* ===== verification/Eip_Layout.thy ===== *)
theory Eip_Layout
  imports Spsc_Ring Protocol_Adapter
begin

text \<open>
  \<open>adapters/eip/eip_shm_layout.h\<close> and \<open>eip_names.c\<close>: the region the core and the EtherNet/IP
  adapter process share, and the names both derive from the instance.
\<close>

abbreviation (input) EIP_SHM_MAGIC :: u32 where "EIP_SHM_MAGIC \<equiv> 0x45495031"
abbreviation (input) EIP_SHM_ABI_VERSION :: u32 where "EIP_SHM_ABI_VERSION \<equiv> 2"
abbreviation (input) EIP_SHM_NAME_MAX :: nat where "EIP_SHM_NAME_MAX \<equiv> 128"
abbreviation (input) EIP_INSTANCE_MAX :: nat where "EIP_INSTANCE_MAX \<equiv> 32"
abbreviation (input) EIP_DEFAULT_PRODUCED_ASSEMBLY :: u32 where "EIP_DEFAULT_PRODUCED_ASSEMBLY \<equiv> 100"
abbreviation (input) EIP_DEFAULT_CONSUMED_ASSEMBLY :: u32 where "EIP_DEFAULT_CONSUMED_ASSEMBLY \<equiv> 150"
abbreviation (input) EIP_DEFAULT_CONFIG_ASSEMBLY :: u32 where "EIP_DEFAULT_CONFIG_ASSEMBLY \<equiv> 151"
abbreviation (input) EIP_DEFAULT_INPUT_BYTES :: u32 where "EIP_DEFAULT_INPUT_BYTES \<equiv> 32"
abbreviation (input) EIP_DEFAULT_OUTPUT_BYTES :: u32 where "EIP_DEFAULT_OUTPUT_BYTES \<equiv> 32"
abbreviation (input) EIP_DEFAULT_FAILSAFE_TIMEOUT_US :: u32 where "EIP_DEFAULT_FAILSAFE_TIMEOUT_US \<equiv> 100000"
abbreviation (input) EIP_DEFAULT_EXCHANGE_TIMEOUT_US :: u32 where "EIP_DEFAULT_EXCHANGE_TIMEOUT_US \<equiv> 5000"

record eip_adapter_status =
  st_adapter_state :: plc_adapter_state_t
  st_io_connections :: u32
  st_cycles :: u64
  st_assembly_writes :: u64
  st_last_error :: u64

record eip_shm =
  m_magic :: u32
  m_abi_version :: u32
  m_layout_bytes :: u32
  m_output_bytes :: u32
  m_input_bytes :: u32
  m_produced_assembly :: u32
  m_consumed_assembly :: u32
  m_status :: eip_adapter_status
  m_req :: plc_spsc_ring
  m_rsp :: plc_spsc_ring

text \<open>
  \<open>sizeof(eip_shm_t)\<close>: 64 bytes of header words and 32 of status, padded to the next cache
  line, then two rings of two cache lines and four 508-byte frames, each padded to 2176.
\<close>

definition eip_shm_bytes :: nat where
  "eip_shm_bytes = 128 + 2 * 2176"

definition ring_zero :: plc_spsc_ring where
  "ring_zero = \<lparr>head = 0, tail = 0, slots = replicate 4 frame_zero\<rparr>"

definition eip_shm_zero :: eip_shm where
  "eip_shm_zero = \<lparr>m_magic = 0, m_abi_version = 0, m_layout_bytes = 0, m_output_bytes = 0,
     m_input_bytes = 0, m_produced_assembly = 0, m_consumed_assembly = 0,
     m_status = \<lparr>st_adapter_state = PLC_ADAPTER_CLOSED, st_io_connections = 0, st_cycles = 0,
       st_assembly_writes = 0, st_last_error = 0\<rparr>,
     m_req = ring_zero, m_rsp = ring_zero\<rparr>"

text \<open>\<open>build\<close>: the object's name, cut to the buffer; an empty instance is \<open>default\<close>.\<close>

definition build :: "nat \<Rightarrow> string \<Rightarrow> string \<Rightarrow> string" where
  "build buf_len inst suffix =
     (let inst = (if inst = [] then ''default'' else inst) in
      snprintf_s buf_len (''/softplc.'' @ inst @ ''.eip'' @ suffix))"

definition eip_shm_name :: "nat \<Rightarrow> string \<Rightarrow> string" where
  "eip_shm_name buf_len inst = build buf_len inst []"

definition eip_sem_req_name :: "nat \<Rightarrow> string \<Rightarrow> string" where
  "eip_sem_req_name buf_len inst = build buf_len inst ''.req''"

definition eip_sem_rsp_name :: "nat \<Rightarrow> string \<Rightarrow> string" where
  "eip_sem_rsp_name buf_len inst = build buf_len inst ''.rsp''"

text \<open>Names of instances that fit their buffers are told apart.\<close>

lemma build_exact:
  "inst \<noteq> [] \<Longrightarrow> length inst < EIP_INSTANCE_MAX \<Longrightarrow> length suffix \<le> 4 \<Longrightarrow>
   build EIP_SHM_NAME_MAX inst suffix = ''/softplc.'' @ inst @ ''.eip'' @ suffix"
  by (simp add: build_def snprintf_s_def)

lemma ring_zero_wf [simp]: "ring_wf ring_zero"
  by (simp add: ring_zero_def ring_wf_def frame_wf_def frame_zero_def list_all_iff)

end
