(* ===== verification/Shm_Ipc.thy ===== *)
theory Shm_Ipc
  imports Plc_Types
begin

text \<open>
  \<open>ipc/shm.h\<close> and \<open>ipc/shm.c\<close>: shared memory regions with a liveness lock, and named
  semaphores with deadlines.

  The first section is the part of the kernel these functions use: the shared memory name
  space, open descriptions with their advisory locks, mappings, and named semaphores. A call
  that can fail for an outside reason does so when the matching field of \<open>os_faults\<close> says so.
  Descriptors, objects and mappings get fresh numbers; 0, 1 and 2 are the standard streams.
\<close>

subsection \<open>The kernel\<close>

record shm_obj =
  obj_bytes :: "byte list"
  obj_lock :: "nat option"

record kern =
  shm_names :: "string \<Rightarrow> nat option"
  shm_objs :: "nat \<Rightarrow> shm_obj"
  open_fds :: "nat \<Rightarrow> nat option"
  mapped :: "nat \<Rightarrow> nat option"
  sem_names :: "string \<Rightarrow> nat option"
  sem_vals :: "nat \<Rightarrow> nat"
  next_id :: nat

record os_faults =
  f_probe_open :: bool
  f_probe_flock :: bool
  f_unlink :: bool
  f_open :: bool
  f_flock :: bool
  f_ftruncate :: bool
  f_fallocate :: bool
  f_fstat :: bool
  f_mmap :: bool
  f_sem_open :: bool

definition no_faults :: os_faults where
  "no_faults = \<lparr>f_probe_open = False, f_probe_flock = False, f_unlink = False, f_open = False,
     f_flock = False, f_ftruncate = False, f_fallocate = False, f_fstat = False, f_mmap = False,
     f_sem_open = False\<rparr>"

definition k_open :: "nat \<Rightarrow> kern \<Rightarrow> nat \<times> kern" where
  "k_open ob k = (next_id k, k\<lparr>open_fds := (open_fds k)(next_id k := Some ob), next_id := next_id k + 1\<rparr>)"

definition k_create :: "string \<Rightarrow> kern \<Rightarrow> nat \<times> kern" where
  "k_create name k =
     (let ob = next_id k in
      k_open ob (k\<lparr>shm_names := (shm_names k)(name := Some ob),
                   shm_objs := (shm_objs k)(ob := \<lparr>obj_bytes = [], obj_lock = None\<rparr>),
                   next_id := ob + 1\<rparr>))"

text \<open>Closing a descriptor releases the lock it holds; an unknown descriptor is \<open>EBADF\<close>.\<close>

definition k_close :: "int \<Rightarrow> kern \<Rightarrow> kern" where
  "k_close fd k =
     (if fd < 0 then k
      else (case open_fds k (nat fd) of
              None \<Rightarrow> k
            | Some ob \<Rightarrow> k\<lparr>open_fds := (open_fds k)(nat fd := None),
                 shm_objs := (if obj_lock (shm_objs k ob) = Some (nat fd)
                   then (shm_objs k)(ob := (shm_objs k ob)\<lparr>obj_lock := None\<rparr>) else shm_objs k)\<rparr>))"

text \<open>\<open>flock\<close> with \<open>LOCK_EX | LOCK_NB\<close>: \<open>None\<close> is \<open>EWOULDBLOCK\<close>.\<close>

definition k_flock :: "nat \<Rightarrow> kern \<Rightarrow> kern option" where
  "k_flock fd k =
     (case open_fds k fd of
        None \<Rightarrow> None
      | Some ob \<Rightarrow>
          if obj_lock (shm_objs k ob) \<in> {None, Some fd}
          then Some (k\<lparr>shm_objs := (shm_objs k)(ob := (shm_objs k ob)\<lparr>obj_lock := Some fd\<rparr>)\<rparr>)
          else None)"

definition k_unlink :: "bool \<Rightarrow> string \<Rightarrow> kern \<Rightarrow> kern" where
  "k_unlink fault name k = (if fault then k else k\<lparr>shm_names := (shm_names k)(name := None)\<rparr>)"

definition k_resize :: "nat \<Rightarrow> nat \<Rightarrow> kern \<Rightarrow> kern" where
  "k_resize fd n k =
     (case open_fds k fd of None \<Rightarrow> k
      | Some ob \<Rightarrow> k\<lparr>shm_objs := (shm_objs k)(ob :=
                      (shm_objs k ob)\<lparr>obj_bytes := fit n (obj_bytes (shm_objs k ob))\<rparr>)\<rparr>)"

definition k_mmap :: "nat \<Rightarrow> kern \<Rightarrow> nat \<times> kern" where
  "k_mmap fd k = (next_id k, k\<lparr>mapped := (mapped k)(next_id k := open_fds k fd), next_id := next_id k + 1\<rparr>)"

definition k_munmap :: "nat \<Rightarrow> kern \<Rightarrow> kern" where
  "k_munmap base k = k\<lparr>mapped := (mapped k)(base := None)\<rparr>"

text \<open>\<open>memset(base, 0, n)\<close> through a mapping.\<close>

definition k_zero :: "nat \<Rightarrow> nat \<Rightarrow> kern \<Rightarrow> kern" where
  "k_zero base n k =
     (case mapped k base of None \<Rightarrow> k
      | Some ob \<Rightarrow> k\<lparr>shm_objs := (shm_objs k)(ob :=
                      (shm_objs k ob)\<lparr>obj_bytes := put_slice 0 (replicate n 0) (obj_bytes (shm_objs k ob))\<rparr>)\<rparr>)"

subsection \<open>Shared memory regions\<close>

record plc_shm =
  sh_name :: string
  sh_fd :: int
  sh_base :: "nat option"
  sh_size :: nat
  sh_owner :: bool

definition shm_zero :: plc_shm where
  "shm_zero = \<lparr>sh_name = [], sh_fd = 0, sh_base = None, sh_size = 0, sh_owner = False\<rparr>"

text \<open>The probe: is a region of this name there, and is its creator alive?\<close>

definition probe_owner :: "os_faults \<Rightarrow> string \<Rightarrow> kern \<Rightarrow> plc_status \<times> kern" where
  "probe_owner f name k =
     (case (if f_probe_open f then None else shm_names k name) of
        None \<Rightarrow> (PLC_OK, k)
      | Some ob \<Rightarrow>
          (case k_open ob k of (probe, k1) \<Rightarrow>
             if f_probe_flock f then (PLC_ERR_IO, k_close (int probe) k1)
             else (case k_flock probe k1 of
                     None \<Rightarrow> (PLC_ERR_STATE, k_close (int probe) k1)
                   | Some k2 \<Rightarrow> (PLC_OK, k_close (int probe) k2))))"

text \<open>The error exit of every later step: close the new descriptor and remove the name.\<close>

definition create_abort :: "os_faults \<Rightarrow> string \<Rightarrow> plc_shm \<Rightarrow> kern \<Rightarrow> plc_shm \<times> kern" where
  "create_abort f name shm k = (shm\<lparr>sh_base := None, sh_fd := -1\<rparr>, k_unlink (f_unlink f) name (k_close (sh_fd shm) k))"

definition plc_shm_create ::
  "os_faults \<Rightarrow> string \<Rightarrow> nat \<Rightarrow> plc_shm \<Rightarrow> kern \<Rightarrow> plc_status \<times> plc_shm \<times> kern" where
  "plc_shm_create f name nbytes shm k =
     (if nbytes = 0 then (PLC_ERR_INVAL, shm, k)
      else
        let shm = shm_zero\<lparr>sh_name := snprintf_s 128 name\<rparr> in
        (case probe_owner f name k of (st, k) \<Rightarrow>
           if st \<noteq> PLC_OK then (st, shm, k)
           else
             let k = k_unlink (f_unlink f) name k in
             if f_open f \<or> shm_names k name \<noteq> None then (PLC_ERR_IO, shm\<lparr>sh_fd := -1\<rparr>, k)
             else
               (case k_create name k of (fd, k) \<Rightarrow>
                  let shm = shm\<lparr>sh_fd := int fd\<rparr> in
                  (case (if f_flock f then None else k_flock fd k) of
                     None \<Rightarrow> (PLC_ERR_IO, create_abort f name shm k)
                   | Some k \<Rightarrow>
                       if f_ftruncate f then (PLC_ERR_IO, create_abort f name shm k)
                       else
                         let k = k_resize fd nbytes k in
                         if f_fallocate f then (PLC_ERR_IO, create_abort f name shm k)
                         else if f_mmap f then (PLC_ERR_NOMEM, create_abort f name shm k)
                         else
                           (case k_mmap fd k of (base, k) \<Rightarrow>
                              (PLC_OK, shm\<lparr>sh_base := Some base, sh_size := nbytes, sh_owner := True\<rparr>,
                               k_zero base nbytes k))))))"

definition plc_shm_attach ::
  "os_faults \<Rightarrow> string \<Rightarrow> nat \<Rightarrow> plc_shm \<Rightarrow> kern \<Rightarrow> plc_status \<times> plc_shm \<times> kern" where
  "plc_shm_attach f name nbytes shm k =
     (if nbytes = 0 then (PLC_ERR_INVAL, shm, k)
      else
        let shm = shm_zero\<lparr>sh_name := snprintf_s 128 name\<rparr> in
        if f_open f then (PLC_ERR_IO, shm\<lparr>sh_fd := -1\<rparr>, k)
        else (case shm_names k name of
                None \<Rightarrow> (PLC_ERR_NOTFOUND, shm\<lparr>sh_fd := -1\<rparr>, k)
              | Some ob \<Rightarrow>
                  (case k_open ob k of (fd, k) \<Rightarrow>
                     if f_fstat f \<or> length (obj_bytes (shm_objs k ob)) < nbytes
                     then (PLC_ERR_PROTO, shm\<lparr>sh_fd := -1\<rparr>, k_close (int fd) k)
                     else if f_mmap f then (PLC_ERR_NOMEM, shm\<lparr>sh_fd := -1\<rparr>, k_close (int fd) k)
                     else (case k_mmap fd k of (base, k) \<Rightarrow>
                       (PLC_OK, shm\<lparr>sh_fd := int fd, sh_base := Some base, sh_size := nbytes,
                                    sh_owner := False\<rparr>, k)))))"

definition plc_shm_close :: "plc_shm \<Rightarrow> kern \<Rightarrow> plc_shm \<times> kern" where
  "plc_shm_close shm k =
     (let k = (case sh_base shm of Some b \<Rightarrow> k_munmap b k | None \<Rightarrow> k);
          k = (if sh_fd shm \<ge> 0 then k_close (sh_fd shm) k else k);
          k = (if sh_owner shm \<and> sh_name shm \<noteq> [] then k_unlink False (sh_name shm) k else k)
      in (shm_zero\<lparr>sh_fd := -1\<rparr>, k))"

subsection \<open>Semaphores\<close>

definition plc_sem_create :: "os_faults \<Rightarrow> string \<Rightarrow> kern \<Rightarrow> plc_status \<times> nat option \<times> kern" where
  "plc_sem_create f name k =
     (let k = k\<lparr>sem_names := (sem_names k)(name := None)\<rparr> in
      if f_sem_open f then (PLC_ERR_IO, None, k)
      else (PLC_OK, Some (next_id k),
            k\<lparr>sem_names := (sem_names k)(name := Some (next_id k)),
              sem_vals := (sem_vals k)(next_id k := 0), next_id := next_id k + 1\<rparr>))"

definition plc_sem_attach :: "os_faults \<Rightarrow> string \<Rightarrow> kern \<Rightarrow> plc_status \<times> nat option" where
  "plc_sem_attach f name k =
     (if f_sem_open f then (PLC_ERR_IO, None)
      else (case sem_names k name of
              None \<Rightarrow> (PLC_ERR_NOTFOUND, None)
            | Some s \<Rightarrow> (PLC_OK, Some s)))"

definition plc_sem_close :: "nat option \<Rightarrow> string option \<Rightarrow> bool \<Rightarrow> kern \<Rightarrow> kern" where
  "plc_sem_close sem name owner k =
     (case name of
        Some n \<Rightarrow> if owner then k\<lparr>sem_names := (sem_names k)(n := None)\<rparr> else k
      | None \<Rightarrow> k)"

text \<open>
  Waiting. What one \<open>sem_clockwait\<close> or \<open>sem_trywait\<close> reports is supplied by the environment, as
  a list: a signal may interrupt the call any number of times. When the list is used up the
  deadline has passed, respectively the value is zero.
\<close>

datatype sem_report = Posted | Eintr | Not_available | Other_errno

record timespec =
  tv_sec :: int
  tv_nsec :: int

definition wait_deadline :: "timespec \<Rightarrow> u32 \<Rightarrow> timespec" where
  "wait_deadline now timeout_us =
     (let d = now\<lparr>tv_nsec := tv_nsec now + int (unat (timeout_us mod 1000000)) * 1000,
                  tv_sec := tv_sec now + int (unat (timeout_us div 1000000))\<rparr> in
      if tv_nsec d \<ge> 1000000000
      then d\<lparr>tv_nsec := tv_nsec d - 1000000000, tv_sec := tv_sec d + 1\<rparr> else d)"

fun plc_sem_trywait :: "sem_report list \<Rightarrow> plc_status \<times> sem_report list" where
  "plc_sem_trywait [] = (PLC_ERR_AGAIN, [])"
| "plc_sem_trywait (Posted # rs) = (PLC_OK, rs)"
| "plc_sem_trywait (Eintr # rs) = plc_sem_trywait rs"
| "plc_sem_trywait (Not_available # rs) = (PLC_ERR_AGAIN, rs)"
| "plc_sem_trywait (Other_errno # rs) = (PLC_ERR_IO, rs)"

fun clockwait_loop :: "sem_report list \<Rightarrow> plc_status" where
  "clockwait_loop [] = PLC_ERR_TIMEOUT"
| "clockwait_loop (Posted # rs) = PLC_OK"
| "clockwait_loop (Eintr # rs) = clockwait_loop rs"
| "clockwait_loop (Not_available # rs) = PLC_ERR_TIMEOUT"
| "clockwait_loop (Other_errno # rs) = PLC_ERR_IO"

definition plc_sem_wait_timeout :: "u32 \<Rightarrow> sem_report list \<Rightarrow> plc_status" where
  "plc_sem_wait_timeout timeout_us rs =
     (if timeout_us = 0 then fst (plc_sem_trywait rs) else clockwait_loop rs)"

lemma trywait_shorter: "plc_sem_trywait rs = (PLC_OK, rs') \<Longrightarrow> length rs' < length rs"
  by (induction rs rule: plc_sem_trywait.induct) auto

function plc_sem_drain :: "sem_report list \<Rightarrow> sem_report list" where
  "plc_sem_drain rs =
     (case plc_sem_trywait rs of (st, rs') \<Rightarrow> if st = PLC_OK then plc_sem_drain rs' else rs')"
  by pat_completeness auto
termination plc_sem_drain
  by (relation "measure length") (use trywait_shorter in fastforce)+

declare plc_sem_drain.simps [simp del]

subsection \<open>Facts\<close>

text \<open>Numbers at or above \<open>next_id\<close> are free, and a lock is held by an open description of its object.\<close>

definition kern_ok :: "kern \<Rightarrow> bool" where
  "kern_ok k \<longleftrightarrow> (\<forall>i \<ge> next_id k. open_fds k i = None \<and> mapped k i = None)
     \<and> (\<forall>ob fd. obj_lock (shm_objs k ob) = Some fd \<longrightarrow> open_fds k fd = Some ob)"

definition live_owner :: "string \<Rightarrow> kern \<Rightarrow> bool" where
  "live_owner name k \<longleftrightarrow>
     (case shm_names k name of None \<Rightarrow> False | Some ob \<Rightarrow> obj_lock (shm_objs k ob) \<noteq> None)"

lemmas kern_defs = k_open_def k_create_def k_close_def k_flock_def k_unlink_def k_resize_def k_mmap_def
  k_munmap_def k_zero_def

lemma obj_lock_same: "obj_lock ob = l \<Longrightarrow> ob\<lparr>obj_lock := l\<rparr> = ob"
  by (cases ob) simp

lemma probe_owner_frame:
  assumes "kern_ok k" and "probe_owner f name k = (st, k')"
  shows "open_fds k' = open_fds k \<and> mapped k' = mapped k \<and> shm_names k' = shm_names k
    \<and> shm_objs k' = shm_objs k \<and> next_id k \<le> next_id k'
    \<and> (st = PLC_OK \<longrightarrow> f_probe_open f \<or> \<not> live_owner name k)"
proof (cases "if f_probe_open f then None else shm_names k name")
  case None
  with assms(2) show ?thesis
    by (auto simp: probe_owner_def live_owner_def split: if_splits option.splits)
next
  case (Some ob)
  have fresh: "open_fds k (next_id k) = None" "obj_lock (shm_objs k ob) \<noteq> Some (next_id k)"
    using assms(1) by (auto simp: kern_ok_def)
  have fds: "(open_fds k)(next_id k := None) = open_fds k" using fresh(1) by auto
  show ?thesis
    using assms(2) fresh Some
    by (auto simp: probe_owner_def kern_defs fds live_owner_def obj_lock_same split: if_splits)
qed

lemma kern_ok_frame:
  assumes "kern_ok k" and "open_fds k' = open_fds k" and "mapped k' = mapped k"
    and "shm_objs k' = shm_objs k" and "next_id k \<le> next_id k'"
  shows "kern_ok k'"
  using assms by (auto simp: kern_ok_def)

text \<open>
  C15: Creating a region never takes it from a live owner. While the creator of a region still
  holds its lock, another creation under that name fails, and the name, every region and its
  bytes, every open description and every mapping stay as they were. (The probe must be able to
  open the region.)
\<close>

theorem shm_live_owner_kept:
  assumes "kern_ok k" and "live_owner name k" and "\<not> f_probe_open f" and "n \<noteq> 0"
    and "plc_shm_create f name n shm k = (st, shm', k')"
  shows "st \<in> {PLC_ERR_STATE, PLC_ERR_IO} \<and> shm_names k' = shm_names k \<and> shm_objs k' = shm_objs k
    \<and> open_fds k' = open_fds k \<and> mapped k' = mapped k \<and> sh_base shm' = None"
proof -
  obtain st1 k1 where p: "probe_owner f name k = (st1, k1)" by force
  note frame = probe_owner_frame [OF assms(1) p]
  have st1: "st1 \<in> {PLC_ERR_STATE, PLC_ERR_IO}"
    using frame assms(2,3) p by (auto simp: probe_owner_def split: if_splits option.splits prod.splits)
  with assms(4,5) p have "st = st1" "k' = k1" "sh_base shm' = None"
    by (auto simp: plc_shm_create_def shm_zero_def)
  with frame st1 show ?thesis by simp
qed

text \<open>A kernel in which a core created the region \<open>''/plc''\<close> and still runs.\<close>

definition kern_empty :: kern where
  "kern_empty = \<lparr>shm_names = \<lambda>_. None, shm_objs = \<lambda>_. \<lparr>obj_bytes = [], obj_lock = None\<rparr>,
     open_fds = \<lambda>_. None, mapped = \<lambda>_. None, sem_names = \<lambda>_. None, sem_vals = \<lambda>_. 0, next_id = 3\<rparr>"

definition kern_busy :: kern where
  "kern_busy = snd (snd (plc_shm_create no_faults ''/plc'' 8 shm_zero kern_empty))"

lemma kern_empty_ok: "kern_ok kern_empty"
  by (simp add: kern_ok_def kern_empty_def)

lemma kern_busy_ok: "kern_ok kern_busy" "live_owner ''/plc'' kern_busy"
  by (auto simp: kern_busy_def plc_shm_create_def probe_owner_def kern_empty_def no_faults_def kern_defs
      kern_ok_def live_owner_def Let_def)

theorem shm_live_owner_kept_witness:
  "fst (plc_shm_create no_faults ''/plc'' 8 shm_zero kern_busy) \<in> {PLC_ERR_STATE, PLC_ERR_IO}
   \<and> shm_names (snd (snd (plc_shm_create no_faults ''/plc'' 8 shm_zero kern_busy))) = shm_names kern_busy"
  using shm_live_owner_kept [OF kern_busy_ok, of no_faults 8 shm_zero]
  by (cases "plc_shm_create no_faults ''/plc'' 8 shm_zero kern_busy") (simp add: no_faults_def)

text \<open>
  When the probe cannot open the region for another reason (a process out of descriptors, say),
  the creator goes on as if the name were free and unlinks it, although its owner is alive, and
  then may still fail: the name is gone and nothing has replaced it.
\<close>

lemma shm_create_unlinks_on_probe_failure:
  "plc_shm_create (no_faults\<lparr>f_probe_open := True, f_open := True\<rparr>) ''/plc'' 8 shm_zero kern_busy =
     (PLC_ERR_IO, \<lparr>sh_name = ''/plc'', sh_fd = -1, sh_base = None, sh_size = 0, sh_owner = False\<rparr>,
      kern_busy\<lparr>shm_names := (shm_names kern_busy)(''/plc'' := None)\<rparr>)"
  by (simp add: plc_shm_create_def probe_owner_def no_faults_def kern_defs shm_zero_def snprintf_s_def)

text \<open>A refused handle keeps the descriptor number 0 it was zeroed to, so closing it would close descriptor 0.\<close>

lemma shm_refused_handle_fd:
  "sh_fd (fst (snd (plc_shm_create no_faults ''/plc'' 8 shm_zero kern_busy))) = 0"
proof -
  obtain st1 k1 where p: "probe_owner no_faults ''/plc'' kern_busy = (st1, k1)" by force
  from probe_owner_frame [OF kern_busy_ok(1) p] kern_busy_ok(2)
  have "st1 \<noteq> PLC_OK" by (auto simp: no_faults_def)
  with p show ?thesis by (simp add: plc_shm_create_def shm_zero_def)
qed

definition region_of :: "plc_shm \<Rightarrow> string \<Rightarrow> nat \<Rightarrow> kern \<Rightarrow> bool" where
  "region_of shm name n k \<longleftrightarrow> (\<exists>ob fd base. shm_names k name = Some ob \<and> sh_fd shm = int fd
     \<and> sh_base shm = Some base \<and> open_fds k fd = Some ob \<and> mapped k base = Some ob
     \<and> shm_objs k ob = \<lparr>obj_bytes = replicate n 0, obj_lock = Some fd\<rparr>)"

lemma fit_nil [simp]: "fit n [] = replicate n 0"
  by (simp add: fit_def)

lemma create_steps:
  assumes "kern_ok k" and "n \<noteq> 0" and "plc_shm_create f name n shm k = (st, shm', k')"
  shows "(st = PLC_OK \<longrightarrow> region_of shm' name n k' \<and> sh_owner shm' \<and> sh_name shm' = snprintf_s 128 name
        \<and> 0 \<le> sh_fd shm' \<and> open_fds k' = (open_fds k)(nat (sh_fd shm') := shm_names k' name)
        \<and> sh_base shm' \<noteq> None \<and> mapped k' = (mapped k)(the (sh_base shm') := shm_names k' name)
        \<and> open_fds k (nat (sh_fd shm')) = None \<and> mapped k (the (sh_base shm')) = None)
    \<and> (st \<noteq> PLC_OK \<longrightarrow> open_fds k' = open_fds k \<and> mapped k' = mapped k)"
proof -
  obtain st1 k1 where p: "probe_owner f name k = (st1, k1)" by force
  note frame = probe_owner_frame [OF assms(1) p]
  have ok1: "kern_ok k1" using frame assms(1) by (auto intro: kern_ok_frame)
  have free: "open_fds k i = None" "mapped k i = None" if "next_id k1 \<le> i" for i
    using ok1 frame that by (auto simp: kern_ok_def)
  have upd: "(open_fds k)(i := None) = open_fds k" if "next_id k1 \<le> i" for i
    using free(1) [OF that] by auto
  show ?thesis
    using assms(2,3) p frame
    by (auto simp: plc_shm_create_def create_abort_def kern_defs Let_def region_of_def shm_zero_def upd free
        Suc_nat_eq_nat_zadd1 [symmetric] split: if_splits)
qed

lemma shm_close_after_create:
  assumes "kern_ok k" and "n \<noteq> 0" and "plc_shm_create f name n shm k = (PLC_OK, shm', k1)"
    and "open_fds k2 = open_fds k1" and "mapped k2 = mapped k1" and "name \<noteq> []" and "length name < 128"
  shows "open_fds (snd (plc_shm_close shm' k2)) = open_fds k \<and> mapped (snd (plc_shm_close shm' k2)) = mapped k
    \<and> shm_names (snd (plc_shm_close shm' k2)) name = None"
proof -
  define fd base where "fd = nat (sh_fd shm')" and "base = the (sh_base shm')"
  from create_steps [OF assms(1-3)] assms(4,5) obtain ob where
    *: "region_of shm' name n k1" "sh_owner shm'" "sh_name shm' = snprintf_s 128 name"
      "sh_fd shm' = int fd" "sh_base shm' = Some base" "open_fds k2 = (open_fds k)(fd := Some ob)"
      "mapped k2 = (mapped k)(base := Some ob)" "open_fds k fd = None" "mapped k base = None"
    unfolding fd_def base_def by (auto simp: region_of_def)
  have "(open_fds k)(fd := None) = open_fds k" "(mapped k)(base := None) = mapped k" using *(8,9) by auto
  then show ?thesis
    using * assms(6,7) by (simp add: plc_shm_close_def kern_defs Let_def snprintf_s_def)
qed



text \<open>
  The deadline of a timed wait is exact. From any valid clock reading, for any 32-bit
  timeout in microseconds, the deadline is a valid \<open>timespec\<close> (its nanoseconds lie in
  0..999999999, so the wait cannot fail with \<open>EINVAL\<close>) and lies exactly that many microseconds
  after the reading, carry into the seconds included.
\<close>

lemma wait_deadline_exact:
  assumes "0 \<le> tv_nsec now" and "tv_nsec now < 1000000000"
  shows "0 \<le> tv_nsec (wait_deadline now us) \<and> tv_nsec (wait_deadline now us) < 1000000000
    \<and> tv_sec (wait_deadline now us) * 1000000000 + tv_nsec (wait_deadline now us) =
      tv_sec now * 1000000000 + tv_nsec now + int (unat us) * 1000"
proof -
  define q where "q = int (unat us) div 1000000"
  define r where "r = int (unat us) mod 1000000"
  have qr: "int (unat us) = q * 1000000 + r" "0 \<le> r" "r < 1000000" unfolding q_def r_def by simp_all
  have "int (unat (us mod 1000000)) = r" "int (unat (us div 1000000)) = q"
    unfolding q_def r_def by (simp_all add: unat_mod unat_div zmod_int zdiv_int)
  then have d: "wait_deadline now us =
      (if tv_nsec now + r * 1000 \<ge> 1000000000
       then now\<lparr>tv_nsec := tv_nsec now + r * 1000 - 1000000000, tv_sec := tv_sec now + q + 1\<rparr>
       else now\<lparr>tv_nsec := tv_nsec now + r * 1000, tv_sec := tv_sec now + q\<rparr>)"
    by (simp add: wait_deadline_def Let_def del: of_nat_unat)
  show ?thesis unfolding d qr(1) using assms qr(2,3) by simp
qed

text \<open>A signal is not a timeout: interrupted calls are retried and never reported.\<close>

lemma clockwait_status: "clockwait_loop rs \<in> {PLC_OK, PLC_ERR_TIMEOUT, PLC_ERR_IO}"
  by (induction rs rule: clockwait_loop.induct) auto

lemma clockwait_eintr: "clockwait_loop (replicate n Eintr @ rs) = clockwait_loop rs"
  by (induction n) auto

lemma wait_timeout_status:
  "plc_sem_wait_timeout us rs \<in> {PLC_OK, PLC_ERR_TIMEOUT, PLC_ERR_IO, PLC_ERR_AGAIN}"
proof -
  have "fst (plc_sem_trywait rs) \<in> {PLC_OK, PLC_ERR_AGAIN, PLC_ERR_IO}"
    by (induction rs rule: plc_sem_trywait.induct) auto
  then show ?thesis using clockwait_status [of rs] by (auto simp: plc_sem_wait_timeout_def)
qed

end
