(* ===== verification/Plc_Config.thy ===== *)
theory Plc_Config
  imports Plc_Types
begin

text \<open>
  \<open>plc_config.h\<close>, \<open>core/plc_config.c\<close>, \<open>plc_log.h\<close> and \<open>core/plc_log.c\<close>: the settings file,
  its lookup underneath the environment, and the log level it sets.

  A C string is a \<open>string\<close> without its terminator. The static table is the record \<open>config\<close>:
  its entries are the first \<open>g_count\<close> elements of \<open>g_entries\<close>. The process environment is a map,
  the file system a function from a path to what \<open>fopen\<close> and \<open>fread\<close> deliver, and the
  diagnostic that \<open>fail\<close> prints is the value of type \<open>cfg_error\<close> it prints.
\<close>

subsection \<open>Data\<close>

abbreviation (input) PLC_CONFIG_MAX_ENTRIES :: nat where "PLC_CONFIG_MAX_ENTRIES \<equiv> 64"
abbreviation (input) PLC_CONFIG_KEY_MAX :: nat where "PLC_CONFIG_KEY_MAX \<equiv> 64"
abbreviation (input) PLC_CONFIG_VALUE_MAX :: nat where "PLC_CONFIG_VALUE_MAX \<equiv> 256"
abbreviation (input) CONFIG_MAX_BYTES :: nat where "CONFIG_MAX_BYTES \<equiv> 65536"
abbreviation (input) LINE_MAX :: nat where
  "LINE_MAX \<equiv> PLC_CONFIG_VALUE_MAX + PLC_CONFIG_KEY_MAX + 8"

definition PLC_CONFIG_DEFAULT_PATH :: string where
  "PLC_CONFIG_DEFAULT_PATH = ''/etc/softplc/softplc.conf''"

type_synonym entry = "string \<times> string"

record config =
  g_entries :: "entry list"
  g_path :: string

text \<open>One constructor per diagnostic; the number is the line.\<close>

datatype cfg_error =
    Line_too_long nat
  | Malformed_section nat
  | Bad_section_name nat string
  | Expected_key_value nat string
  | Bad_key nat string
  | Value_too_long nat string
  | Already_set nat string
  | Too_many_settings nat
  | Open_failed string string
  | Read_failed string
  | Larger_than string

subsection \<open>Lexing\<close>

definition is_blank :: "char \<Rightarrow> bool" where
  "is_blank c \<longleftrightarrow> c = CHR '' '' \<or> c = CHR 0x09 \<or> c = CHR 0x0D"

definition trim :: "string \<Rightarrow> string" where
  "trim s = rev (dropWhile is_blank (rev (dropWhile is_blank s)))"

text \<open>
  The state of the \<open>strip_comment\<close> loop: the open quote, if any, and whether the position is
  the start of the line or follows a blank.
\<close>

fun strip_comment_loop :: "char option \<Rightarrow> bool \<Rightarrow> string \<Rightarrow> string" where
  "strip_comment_loop quote starts [] = []"
| "strip_comment_loop (Some q) starts (c # cs) =
     c # strip_comment_loop (if c = q then None else Some q)
           (c = CHR '' '' \<or> c = CHR 0x09) cs"
| "strip_comment_loop None starts (c # cs) =
     (if c = CHR 0x22 \<or> c = CHR 0x27 then
        c # strip_comment_loop (Some c) False cs
      else if (c = CHR ''#'' \<or> c = CHR '';'') \<and> starts then []
      else c # strip_comment_loop None (c = CHR '' '' \<or> c = CHR 0x09) cs)"

definition strip_comment :: "string \<Rightarrow> string" where
  "strip_comment line = strip_comment_loop None True line"

definition unquote :: "string \<Rightarrow> string" where
  "unquote s =
     (if length s \<ge> 2 \<and> (hd s = CHR 0x22 \<or> hd s = CHR 0x27) \<and> last s = hd s
      then butlast (tl s) else s)"

text \<open>\<open>islower\<close>, \<open>isupper\<close>, \<open>isdigit\<close> and \<open>toupper\<close> of the C locale.\<close>

definition ord :: "char \<Rightarrow> nat" where "ord = of_char"

definition islower :: "char \<Rightarrow> bool" where "islower c \<longleftrightarrow> 97 \<le> ord c \<and> ord c \<le> 122"
definition isupper :: "char \<Rightarrow> bool" where "isupper c \<longleftrightarrow> 65 \<le> ord c \<and> ord c \<le> 90"
definition isdigit :: "char \<Rightarrow> bool" where "isdigit c \<longleftrightarrow> 48 \<le> ord c \<and> ord c \<le> 57"
definition toupper :: "char \<Rightarrow> char" where
  "toupper c = (if islower c then char_of (ord c - 32) else c)"

definition fold_char :: "char \<Rightarrow> char" where
  "fold_char c =
     (if c = CHR ''-'' \<or> c = CHR ''.'' \<or> c = CHR '' '' then CHR ''_''
      else if islower c then toupper c else c)"

definition key_char :: "char \<Rightarrow> bool" where
  "key_char c \<longleftrightarrow> isupper c \<or> isdigit c \<or> c = CHR ''_''"

fun normalise_loop :: "nat \<Rightarrow> string \<Rightarrow> string \<Rightarrow> plc_status + string" where
  "normalise_loop out_len out [] = (if out = [] then Inl PLC_ERR_INVAL else Inr out)"
| "normalise_loop out_len out (c # cs) =
     (if \<not> key_char (fold_char c) then Inl PLC_ERR_INVAL
      else if length out + 1 \<ge> out_len then Inl PLC_ERR_NOMEM
      else normalise_loop out_len (out @ [fold_char c]) cs)"

definition normalise :: "nat \<Rightarrow> string \<Rightarrow> plc_status + string" where
  "normalise out_len s = normalise_loop out_len [] s"

definition SOFTPLC_PREFIX :: string where "SOFTPLC_PREFIX = ''SOFTPLC_''"

text \<open>\<open>snprintf\<close> into a buffer of \<open>out_len\<close>, rejected when it does not fit.\<close>

definition print_fits :: "nat \<Rightarrow> string \<Rightarrow> plc_status + string" where
  "print_fits out_len s = (if length s < out_len then Inr s else Inl PLC_ERR_NOMEM)"

definition qualify :: "nat \<Rightarrow> string \<Rightarrow> string \<Rightarrow> plc_status + string" where
  "qualify out_len section_name key =
     (case normalise PLC_CONFIG_KEY_MAX key of
        Inl st \<Rightarrow> Inl st
      | Inr k \<Rightarrow>
          if take 8 k = SOFTPLC_PREFIX then print_fits out_len k
          else
            (case (if section_name \<noteq> [] then normalise PLC_CONFIG_KEY_MAX section_name else Inr []) of
               Inl st \<Rightarrow> Inl st
             | Inr s0 \<Rightarrow>
                 let s = (if s0 = ''CORE'' \<or> s0 = ''SOFTPLC'' then [] else s0) in
                 if s \<noteq> [] then print_fits out_len (SOFTPLC_PREFIX @ s @ ''_'' @ k)
                 else print_fits out_len (SOFTPLC_PREFIX @ k)))"

subsection \<open>Parsing\<close>

text \<open>\<open>find\<close>: the first entry with the key.\<close>

fun find_entry :: "entry list \<Rightarrow> string \<Rightarrow> entry option" where
  "find_entry [] q = None"
| "find_entry (e # es) q = (if fst e = q then Some e else find_entry es q)"

text \<open>\<open>strchr\<close> as a split: the part before the character and the part after it.\<close>

fun strchr :: "char \<Rightarrow> string \<Rightarrow> (string \<times> string) option" where
  "strchr c [] = None"
| "strchr c (x # xs) =
     (if x = c then Some ([], xs)
      else (case strchr c xs of None \<Rightarrow> None | Some (a, b) \<Rightarrow> Some (x # a, b)))"

text \<open>
  The body of the loop of \<open>plc_config_parse\<close> on one line: an error, or the section and the
  table it leaves.
\<close>

definition parse_section :: "nat \<Rightarrow> string \<Rightarrow> cfg_error + string" where
  "parse_section lineno s =
     (case strchr CHR '']'' s of
        None \<Rightarrow> Inl (Malformed_section lineno)
      | Some (before, after) \<Rightarrow>
          if trim after \<noteq> [] then Inl (Malformed_section lineno)
          else
            let name = trim (tl before) in
            (case normalise PLC_CONFIG_KEY_MAX name of
               Inl _ \<Rightarrow> Inl (Bad_section_name lineno name)
             | Inr section_name \<Rightarrow> Inr section_name))"

definition parse_setting ::
  "nat \<Rightarrow> string \<Rightarrow> entry list \<Rightarrow> string \<Rightarrow> cfg_error + entry list" where
  "parse_setting lineno section_name entries s =
     (case strchr CHR ''='' s of
        None \<Rightarrow> Inl (Expected_key_value lineno s)
      | Some (before, after) \<Rightarrow>
          let key = trim before; val = unquote (trim after) in
          (case qualify PLC_CONFIG_KEY_MAX section_name key of
             Inl _ \<Rightarrow> Inl (Bad_key lineno key)
           | Inr qualified \<Rightarrow>
               if length val \<ge> PLC_CONFIG_VALUE_MAX then Inl (Value_too_long lineno qualified)
               else if find_entry entries qualified \<noteq> None then Inl (Already_set lineno qualified)
               else if length entries = PLC_CONFIG_MAX_ENTRIES then Inl (Too_many_settings lineno)
               else Inr (entries @ [(snprintf_s PLC_CONFIG_KEY_MAX qualified,
                                     snprintf_s PLC_CONFIG_VALUE_MAX val)])))"

definition parse_line ::
  "nat \<Rightarrow> string \<times> entry list \<Rightarrow> string \<Rightarrow> cfg_error + string \<times> entry list" where
  "parse_line lineno st line =
     (if length line \<ge> LINE_MAX then Inl (Line_too_long lineno)
      else
        let s = trim (strip_comment line) in
        if s = [] then Inr st
        else if hd s = CHR ''['' then
          (case parse_section lineno s of
             Inl e \<Rightarrow> Inl e
           | Inr section_name \<Rightarrow> Inr (section_name, snd st))
        else
          (case parse_setting lineno (fst st) (snd st) s of
             Inl e \<Rightarrow> Inl e
           | Inr entries \<Rightarrow> Inr (fst st, entries)))"

lemma strchr_Some: "strchr c xs = Some (a, b) \<longleftrightarrow> xs = a @ c # b \<and> c \<notin> set a"
proof (induction xs arbitrary: a)
  case (Cons x xs)
  show ?case
    by (cases a; cases "strchr c xs") (use Cons.IH in \<open>force+\<close>)
qed simp

lemma strchr_None: "strchr c xs = None \<longleftrightarrow> c \<notin> set xs"
  by (induction xs) (auto split: option.splits)

text \<open>The line at \<open>p\<close>, cut at the newline, and where the next one starts.\<close>

definition split_line :: "string \<Rightarrow> string \<times> string" where
  "split_line p = (case strchr CHR 0x0A p of Some (a, b) \<Rightarrow> (a, b) | None \<Rightarrow> (p, []))"

lemma split_line_shorter: "p \<noteq> [] \<Longrightarrow> split_line p = (line, rest) \<Longrightarrow> length rest < length p"
  by (auto simp: split_line_def strchr_Some split: option.splits)

text \<open>
  The loop advances by at least one character per round. It returns the table as the static
  array holds it, which on an error is the part entered so far.
\<close>

function parse_loop ::
  "nat \<Rightarrow> string \<times> entry list \<Rightarrow> string \<Rightarrow> cfg_error option \<times> entry list" where
  "parse_loop lineno st p =
     (if p = [] then (None, snd st)
      else
        let (line, rest) = split_line p in
        (case parse_line (Suc lineno) st line of
           Inl e \<Rightarrow> (Some e, snd st)
         | Inr st' \<Rightarrow> parse_loop (Suc lineno) st' rest))"
  by pat_completeness auto

termination parse_loop
  by (relation "measure (\<lambda>(_, _, p). length p)") (auto dest: split_line_shorter [OF _ sym])

declare parse_loop.simps [simp del]

definition plc_config_parse :: "config \<Rightarrow> string \<Rightarrow> plc_status \<times> cfg_error option \<times> config" where
  "plc_config_parse cfg text =
     (let (e, entries) = parse_loop 0 ([], []) text in
      (if e = None then PLC_OK else PLC_ERR_INVAL, e, cfg\<lparr>g_entries := entries\<rparr>))"

subsection \<open>Loading\<close>

text \<open>
  What \<open>fopen\<close> and \<open>fread\<close> deliver for a path: a failure with its \<open>errno\<close> (\<open>ENOENT\<close> or another)
  and text, or the bytes of the file with \<open>ferror\<close>. \<open>fread\<close> is asked for
  \<open>CONFIG_MAX_BYTES - 1\<close> bytes, and \<open>feof\<close> holds after it when it came back with fewer.
\<close>

datatype file_open = Fopen_fails bool string | Fopened string bool

definition ends_at_nul :: "string \<Rightarrow> string" where
  "ends_at_nul buf = takeWhile (\<lambda>c. c \<noteq> CHR 0x00) buf"

definition plc_config_load ::
  "(string \<Rightarrow> file_open) \<Rightarrow> bool \<Rightarrow> string \<Rightarrow> config \<Rightarrow> plc_status \<times> cfg_error option \<times> config" where
  "plc_config_load fs alloc path cfg =
     (if path = [] then (PLC_ERR_INVAL, None, cfg)
      else
        (case fs path of
           Fopen_fails enoent msg \<Rightarrow>
             (if enoent then PLC_ERR_NOTFOUND else PLC_ERR_IO, Some (Open_failed path msg), cfg)
         | Fopened bytes ferror \<Rightarrow>
             if \<not> alloc then (PLC_ERR_NOMEM, None, cfg)
             else
               let buf = take (CONFIG_MAX_BYTES - 1) bytes;
                   feof = length bytes < CONFIG_MAX_BYTES - 1 in
               if ferror then (PLC_ERR_IO, Some (Read_failed path), cfg)
               else if \<not> feof then (PLC_ERR_INVAL, Some (Larger_than path), cfg)
               else
                 (case plc_config_parse cfg (ends_at_nul buf) of
                    (st, e, cfg1) \<Rightarrow>
                      if st \<noteq> PLC_OK then (st, e, cfg1\<lparr>g_entries := [], g_path := []\<rparr>)
                      else (PLC_OK, e, cfg1\<lparr>g_path := snprintf_s 512 path\<rparr>))))"

text \<open>The test \<open>p && *p\<close> on a string that may be \<open>NULL\<close>.\<close>

definition nonempty :: "string option \<Rightarrow> string option" where
  "nonempty p = (case p of Some s \<Rightarrow> if s \<noteq> [] then Some s else None | None \<Rightarrow> None)"

definition plc_config_init ::
  "(string \<Rightarrow> string option) \<Rightarrow> (string \<Rightarrow> file_open) \<Rightarrow> bool \<Rightarrow> config
   \<Rightarrow> plc_status \<times> cfg_error option \<times> config" where
  "plc_config_init getenv fs alloc cfg =
     (case nonempty (getenv ''SOFTPLC_CONFIG'') of
        Some explicit_path \<Rightarrow> plc_config_load fs alloc explicit_path cfg
      | None \<Rightarrow>
          (case plc_config_load fs alloc PLC_CONFIG_DEFAULT_PATH cfg of
             (st, e, cfg1) \<Rightarrow> if st = PLC_ERR_NOTFOUND then (PLC_OK, None, cfg1) else (st, e, cfg1)))"

definition plc_config_reset :: "config \<Rightarrow> config" where
  "plc_config_reset cfg = cfg\<lparr>g_entries := [], g_path := []\<rparr>"

definition plc_config_path :: "config \<Rightarrow> string" where
  "plc_config_path cfg = g_path cfg"

definition plc_config_source :: "config \<Rightarrow> string" where
  "plc_config_source cfg = (if length (g_entries cfg) \<noteq> 0 then g_path cfg else ''environment only'')"

definition plc_config_count :: "config \<Rightarrow> nat" where
  "plc_config_count cfg = length (g_entries cfg)"

definition plc_config_entry_at :: "config \<Rightarrow> nat \<Rightarrow> plc_status \<times> entry option" where
  "plc_config_entry_at cfg i =
     (if i \<ge> length (g_entries cfg) then (PLC_ERR_NOTFOUND, None)
      else (PLC_OK, Some (g_entries cfg ! i)))"

subsection \<open>Lookup\<close>

definition plc_cfg_str ::
  "(string \<Rightarrow> string option) \<Rightarrow> config \<Rightarrow> string \<Rightarrow> string option \<Rightarrow> string option" where
  "plc_cfg_str getenv cfg key fallback =
     (case qualify PLC_CONFIG_KEY_MAX [] key of
        Inl _ \<Rightarrow> fallback
      | Inr qualified \<Rightarrow>
          (case nonempty (getenv qualified) of
             Some env \<Rightarrow> Some env
           | None \<Rightarrow>
               (case find_entry (g_entries cfg) qualified of
                  Some e \<Rightarrow> if snd e \<noteq> [] then Some (snd e) else fallback
                | None \<Rightarrow> fallback)))"

text \<open>
  \<open>strtoul(v, &end, 10)\<close> of a 64-bit \<open>unsigned long\<close>: leading white space, a sign, digits. It
  gives the value, whether \<open>errno\<close> is \<open>ERANGE\<close>, and the rest at \<open>end\<close>; \<open>None\<close> when there is no
  digit, where \<open>end\<close> is \<open>v\<close>. A minus sign negates in the unsigned type.
\<close>

definition isspace :: "char \<Rightarrow> bool" where
  "isspace c \<longleftrightarrow> ord c = 32 \<or> 9 \<le> ord c \<and> ord c \<le> 13"

fun digits :: "nat \<Rightarrow> string \<Rightarrow> nat" where
  "digits acc [] = acc"
| "digits acc (c # cs) = digits (acc * 10 + (ord c - 48)) cs"

definition strtoul :: "string \<Rightarrow> (u64 \<times> bool \<times> string) option" where
  "strtoul v =
     (let s = dropWhile isspace v;
          neg = (s \<noteq> [] \<and> hd s = CHR ''-'');
          t = (if s \<noteq> [] \<and> (hd s = CHR ''-'' \<or> hd s = CHR ''+'') then tl s else s);
          ds = takeWhile isdigit t; n = digits 0 ds in
      if ds = [] then None
      else if n \<ge> 2 ^ 64 then Some (- 1, True, dropWhile isdigit t)
      else Some (if neg then - of_nat n else of_nat n, False, dropWhile isdigit t))"

definition plc_cfg_u32 :: "(string \<Rightarrow> string option) \<Rightarrow> config \<Rightarrow> string \<Rightarrow> u32 \<Rightarrow> u32" where
  "plc_cfg_u32 getenv cfg key fallback =
     (case plc_cfg_str getenv cfg key None of
        None \<Rightarrow> fallback
      | Some v \<Rightarrow>
          (case strtoul v of
             None \<Rightarrow> fallback
           | Some (n, erange, rest) \<Rightarrow>
               if erange \<or> n = 0 \<or> n > 0xFFFFFFFF then fallback
               else if dropWhile (\<lambda>c. c = CHR '' '' \<or> c = CHR 0x09) rest \<noteq> [] then fallback
               else ucast n))"

definition strcasecmp_eq :: "string \<Rightarrow> string \<Rightarrow> bool" where
  "strcasecmp_eq a b \<longleftrightarrow> map toupper a = map toupper b"

definition plc_cfg_bool :: "(string \<Rightarrow> string option) \<Rightarrow> config \<Rightarrow> string \<Rightarrow> int \<Rightarrow> int" where
  "plc_cfg_bool getenv cfg key fallback =
     (case plc_cfg_str getenv cfg key None of
        None \<Rightarrow> fallback
      | Some v \<Rightarrow>
          if strcasecmp_eq v ''1'' \<or> strcasecmp_eq v ''true'' \<or>
             strcasecmp_eq v ''yes'' \<or> strcasecmp_eq v ''on'' then 1
          else if strcasecmp_eq v ''0'' \<or> strcasecmp_eq v ''false'' \<or>
             strcasecmp_eq v ''no'' \<or> strcasecmp_eq v ''off'' then 0
          else fallback)"

subsection \<open>The log level and start-up\<close>

text \<open>\<open>plc_log_level_t\<close> is an unsigned enumeration: ERROR 0, WARN 1, INFO 2, DEBUG 3.\<close>

abbreviation (input) PLC_LOG_LEVEL_ERROR :: u32 where "PLC_LOG_LEVEL_ERROR \<equiv> 0"
abbreviation (input) PLC_LOG_LEVEL_WARN :: u32 where "PLC_LOG_LEVEL_WARN \<equiv> 1"
abbreviation (input) PLC_LOG_LEVEL_INFO :: u32 where "PLC_LOG_LEVEL_INFO \<equiv> 2"
abbreviation (input) PLC_LOG_LEVEL_DEBUG :: u32 where "PLC_LOG_LEVEL_DEBUG \<equiv> 3"

record log_state =
  g_level :: u32
  g_component :: string

definition plc_log_set_level :: "u32 \<Rightarrow> log_state \<Rightarrow> log_state" where
  "plc_log_set_level level l =
     (let level1 = (if level < PLC_LOG_LEVEL_ERROR then PLC_LOG_LEVEL_ERROR else level);
          level2 = (if level1 > PLC_LOG_LEVEL_DEBUG then PLC_LOG_LEVEL_DEBUG else level1) in
      l\<lparr>g_level := level2\<rparr>)"

definition plc_log_level :: "log_state \<Rightarrow> u32" where
  "plc_log_level l = g_level l"

definition plc_log_init ::
  "(string \<Rightarrow> string option) \<Rightarrow> config \<Rightarrow> string option \<Rightarrow> log_state \<Rightarrow> log_state" where
  "plc_log_init getenv cfg component l =
     (let l1 = (case component of Some c \<Rightarrow> l\<lparr>g_component := snprintf_s 32 c\<rparr> | None \<Rightarrow> l) in
      (case plc_cfg_str getenv cfg ''SOFTPLC_LOG_LEVEL'' None of
         None \<Rightarrow> l1
       | Some level \<Rightarrow>
           if level = ''error'' then l1\<lparr>g_level := PLC_LOG_LEVEL_ERROR\<rparr>
           else if level = ''warn'' then l1\<lparr>g_level := PLC_LOG_LEVEL_WARN\<rparr>
           else if level = ''info'' then l1\<lparr>g_level := PLC_LOG_LEVEL_INFO\<rparr>
           else if level = ''debug'' then l1\<lparr>g_level := PLC_LOG_LEVEL_DEBUG\<rparr>
           else l1))"

text \<open>The one decision of \<open>plc_log_write\<close>: whether the line is written at all.\<close>

definition plc_log_enabled :: "log_state \<Rightarrow> u32 \<Rightarrow> bool" where
  "plc_log_enabled l level \<longleftrightarrow> \<not> level > g_level l"

definition plc_config_bootstrap ::
  "(string \<Rightarrow> string option) \<Rightarrow> (string \<Rightarrow> file_open) \<Rightarrow> bool \<Rightarrow> string \<Rightarrow> config \<times> log_state
   \<Rightarrow> int \<times> config \<times> log_state" where
  "plc_config_bootstrap getenv fs alloc component s =
     (case plc_config_init getenv fs alloc (fst s) of
        (st, e, cfg) \<Rightarrow>
          let l = plc_log_init getenv cfg (Some component) (snd s) in
          (if st \<noteq> PLC_OK then -1 else 0, cfg, l))"

subsection \<open>Normal forms of names\<close>

definition qualified_key :: "string \<Rightarrow> bool" where
  "qualified_key q \<longleftrightarrow> take 8 q = SOFTPLC_PREFIX \<and> length q < PLC_CONFIG_KEY_MAX \<and> list_all key_char q"

lemmas char_class = key_char_def fold_char_def islower_def isupper_def isdigit_def ord_def

lemma fold_char_id: "key_char c \<Longrightarrow> fold_char c = c"
  by (auto simp: char_class)

lemma fold_chars_id: "list_all key_char s \<Longrightarrow> map fold_char s = s"
  by (induction s) (auto simp: fold_char_id)

lemma key_char_plain:
  assumes "key_char c"
  shows "\<not> is_blank c \<and> c \<noteq> CHR 0x22 \<and> c \<noteq> CHR 0x27 \<and> c \<noteq> CHR ''#'' \<and> c \<noteq> CHR '';''
    \<and> c \<noteq> CHR ''='' \<and> c \<noteq> CHR ''['' \<and> c \<noteq> CHR 0x0A \<and> c \<noteq> CHR '' '' \<and> c \<noteq> CHR 0x09"
  using assms by (auto simp: char_class is_blank_def)

lemma normalise_loop_Inr:
  "normalise_loop n out s = Inr r \<longleftrightarrow>
   r = out @ map fold_char s \<and> r \<noteq> [] \<and> list_all key_char (map fold_char s)
   \<and> (s = [] \<or> length r < n)"
  by (induction s arbitrary: out) auto

lemma normalise_Inr:
  "normalise n s = Inr r \<longleftrightarrow>
   r = map fold_char s \<and> r \<noteq> [] \<and> list_all key_char r \<and> length r < n"
  by (auto simp: normalise_def normalise_loop_Inr)

lemma key_char_prefix: "list_all key_char SOFTPLC_PREFIX"
  by (simp add: SOFTPLC_PREFIX_def char_class)

lemma print_fits_Inr: "print_fits n s = Inr q \<longleftrightarrow> q = s \<and> length s < n"
  by (auto simp: print_fits_def)

lemma length_prefix [simp]: "length SOFTPLC_PREFIX = 8"
  by (simp add: SOFTPLC_PREFIX_def)

lemma qualify_qualified:
  assumes "qualify PLC_CONFIG_KEY_MAX sec key = Inr q"
  shows "qualified_key q"
proof -
  have "key_char CHR ''_''" by (simp add: char_class)
  with assms show ?thesis
    by (auto simp: qualify_def qualified_key_def normalise_Inr print_fits_Inr key_char_prefix Let_def
        split: sum.splits if_splits)
qed

lemma qualified_nonempty: "qualified_key q \<Longrightarrow> q \<noteq> []"
  by (auto simp: qualified_key_def SOFTPLC_PREFIX_def)

lemma normalise_qualified: "qualified_key q \<Longrightarrow> normalise PLC_CONFIG_KEY_MAX q = Inr q"
  using qualified_nonempty [of q] by (simp add: normalise_Inr qualified_key_def fold_chars_id)

lemma qualify_idem: "qualified_key q \<Longrightarrow> qualify PLC_CONFIG_KEY_MAX sec q = Inr q"
  using normalise_qualified [of q] by (simp add: qualify_def qualified_key_def print_fits_def)

subsection \<open>The table\<close>

definition table_ok :: "entry list \<Rightarrow> bool" where
  "table_ok es \<longleftrightarrow> length es \<le> PLC_CONFIG_MAX_ENTRIES \<and> distinct (map fst es)
     \<and> list_all (\<lambda>e. qualified_key (fst e) \<and> length (snd e) < PLC_CONFIG_VALUE_MAX) es"

lemma find_entry_map_of: "map_option snd (find_entry es q) = map_of es q"
  by (induction es) auto

lemma find_entry_fst: "find_entry es q = Some e \<Longrightarrow> fst e = q"
  by (induction es) (auto split: if_splits)

lemma find_entry_None: "find_entry es q = None \<longleftrightarrow> q \<notin> fst ` set es"
  by (induction es) auto

lemma find_entry_append:
  "find_entry (xs @ ys) q = (case find_entry xs q of Some e \<Rightarrow> Some e | None \<Rightarrow> find_entry ys q)"
  by (induction xs) auto

lemma snprintf_s_fits [simp]: "length s < n \<Longrightarrow> snprintf_s n s = s"
  by (simp add: snprintf_s_def)

lemma parse_setting_Inr:
  "parse_setting lineno sec es s = Inr es' \<longleftrightarrow>
   (\<exists>before after q. strchr CHR ''='' s = Some (before, after)
      \<and> qualify PLC_CONFIG_KEY_MAX sec (trim before) = Inr q
      \<and> length (unquote (trim after)) < PLC_CONFIG_VALUE_MAX \<and> q \<notin> fst ` set es
      \<and> length es \<noteq> PLC_CONFIG_MAX_ENTRIES \<and> es' = es @ [(q, unquote (trim after))])"
proof -
  have "length q < PLC_CONFIG_KEY_MAX" if "qualify PLC_CONFIG_KEY_MAX sec k = Inr q" for k q
    using qualify_qualified [OF that] by (simp add: qualified_key_def)
  then show ?thesis
    by (auto simp: parse_setting_def Let_def find_entry_None not_le
        split: option.splits sum.splits if_splits)
qed

lemma parse_setting_ok:
  "parse_setting lineno sec es s = Inr es' \<Longrightarrow> table_ok es \<Longrightarrow> table_ok es'"
  by (auto simp: parse_setting_Inr table_ok_def dest: qualify_qualified)

lemma parse_line_ok: "parse_line lineno st line = Inr st' \<Longrightarrow> table_ok (snd st) \<Longrightarrow> table_ok (snd st')"
  by (auto simp: parse_line_def Let_def split: if_splits sum.splits dest: parse_setting_ok)

lemma parse_loop_ok: "table_ok (snd st) \<Longrightarrow> table_ok (snd (parse_loop lineno st p))"
proof (induction lineno st p rule: parse_loop.induct)
  case (1 lineno st p)
  obtain line rest where lr: "split_line p = (line, rest)" by force
  have IH: "table_ok (snd (parse_loop (Suc lineno) st' rest))"
    if "p \<noteq> []" "parse_line (Suc lineno) st line = Inr st'" for st'
    using 1(1) [OF that(1) lr [symmetric] refl that(2)] parse_line_ok [OF that(2) 1(2)] by simp
  show ?case
    by (subst parse_loop.simps) (use 1(2) lr IH in \<open>auto split: sum.splits\<close>)
qed

lemma plc_config_parse_ok: "table_ok (g_entries (snd (snd (plc_config_parse cfg t))))"
proof -
  have "table_ok (snd (parse_loop 0 ([], []) t))"
    by (rule parse_loop_ok) (simp add: table_ok_def)
  then show ?thesis by (simp add: plc_config_parse_def case_prod_beta)
qed

lemma plc_config_load_all_or_nothing:
  assumes "table_ok (g_entries cfg)" and "plc_config_load fs alloc path cfg = (st, e, cfg')"
  shows "table_ok (g_entries cfg') \<and> (st \<noteq> PLC_OK \<longrightarrow> cfg' = cfg \<or> g_entries cfg' = [] \<and> g_path cfg' = [])"
proof -
  have parse: "table_ok (g_entries c)" if "plc_config_parse cfg t = (st', e', c)" for t st' e' c
    using plc_config_parse_ok [of cfg t] that by simp
  have "table_ok []" by (simp add: table_ok_def)
  then show ?thesis using assms
    by (auto simp: plc_config_load_def Let_def split: if_splits file_open.splits prod.splits dest: parse)
qed

subsection \<open>Writing a table and reading it back\<close>

text \<open>A settings file in canonical form: one \<open>KEY="value"\<close> per line.\<close>

definition plain_value :: "string \<Rightarrow> bool" where
  "plain_value v \<longleftrightarrow> CHR 0x22 \<notin> set v \<and> CHR 0x0A \<notin> set v"

definition setting_text :: "entry \<Rightarrow> string" where
  "setting_text e = fst e @ CHR ''='' # CHR 0x22 # snd e @ [CHR 0x22]"

definition config_text :: "entry list \<Rightarrow> string" where
  "config_text es = concat (map (\<lambda>e. setting_text e @ [CHR 0x0A]) es)"

lemma trim_id: "s = [] \<or> \<not> is_blank (hd s) \<and> \<not> is_blank (last s) \<Longrightarrow> trim s = s"
proof (cases s rule: rev_cases)
  case (snoc t x)
  assume "s = [] \<or> \<not> is_blank (hd s) \<and> \<not> is_blank (last s)"
  then have "dropWhile is_blank s = s" "\<not> is_blank x" using snoc by (auto simp: dropWhile_eq_self_iff)
  with snoc show ?thesis by (simp add: trim_def)
qed (simp add: trim_def)

lemma strip_quoted:
  "CHR 0x22 \<notin> set v \<Longrightarrow> strip_comment_loop (Some CHR 0x22) b (v @ [CHR 0x22]) = v @ [CHR 0x22]"
  by (induction v arbitrary: b) auto

lemma strip_key:
  "list_all key_char k \<Longrightarrow> strip_comment_loop None b (k @ CHR ''='' # CHR 0x22 # t) =
     k @ CHR ''='' # CHR 0x22 # strip_comment_loop (Some CHR 0x22) False t"
  by (induction k arbitrary: b) (auto dest: key_char_plain)

lemma qualified_chars: "qualified_key k \<Longrightarrow> list_all key_char k \<and> length k < PLC_CONFIG_KEY_MAX \<and> k \<noteq> []"
  using qualified_nonempty by (auto simp: qualified_key_def)

lemma key_not_in: "list_all key_char k \<Longrightarrow> CHR ''='' \<notin> set k \<and> CHR 0x0A \<notin> set k"
  by (auto simp: list_all_iff dest: key_char_plain)

lemma trim_key: "list_all key_char k \<Longrightarrow> trim k = k"
  by (metis trim_id key_char_plain list_all_iff hd_in_set last_in_set)

lemma parse_line_setting:
  assumes k: "qualified_key k" and v: "plain_value v" "length v < PLC_CONFIG_VALUE_MAX"
    and t: "k \<notin> fst ` set es" "length es < PLC_CONFIG_MAX_ENTRIES"
  shows "parse_line lineno (sec, es) (setting_text (k, v)) = Inr (sec, es @ [(k, v)])"
proof -
  let ?s = "setting_text (k, v)" and ?q = "CHR 0x22 # v @ [CHR 0x22]"
  note kc = qualified_chars [OF k]
  have blank: "\<not> is_blank CHR 0x22" by (simp add: is_blank_def)
  have hd: "\<not> is_blank (hd k) \<and> hd k \<noteq> CHR ''[''"
    using kc by (cases k) (auto dest: key_char_plain)
  have strip: "strip_comment ?s = ?s"
    using kc v by (simp add: strip_comment_def setting_text_def strip_key strip_quoted plain_value_def)
  have "hd ?s = hd k" "last ?s = CHR 0x22" "?s \<noteq> []" using kc by (auto simp: setting_text_def)
  with hd blank have s: "trim ?s = ?s" "hd ?s \<noteq> CHR ''[''" "?s \<noteq> []" by (simp_all add: trim_id)
  have q: "trim ?q = ?q" "unquote ?q = v" using blank by (simp_all add: trim_id unquote_def)
  have "strchr CHR ''='' ?s = Some (k, ?q)"
    using kc key_not_in [of k] by (simp add: strchr_Some setting_text_def)
  then have "parse_setting lineno sec es ?s = Inr (es @ [(k, v)])"
    unfolding parse_setting_Inr using kc trim_key [of k] qualify_idem [OF k, of sec] q v t by auto
  moreover have "length ?s < LINE_MAX" using kc v by (simp add: setting_text_def)
  ultimately show ?thesis using strip s by (simp add: parse_line_def Let_def)
qed

lemma split_setting:
  assumes "qualified_key (fst e)" and "plain_value (snd e)"
  shows "split_line (setting_text e @ [CHR 0x0A] @ rest) = (setting_text e, rest)"
proof -
  have "CHR 0x0A \<notin> set (setting_text e)"
    using assms qualified_chars [of "fst e"] key_not_in [of "fst e"]
    by (auto simp: setting_text_def plain_value_def)
  then have "strchr CHR 0x0A (setting_text e @ [CHR 0x0A] @ rest) = Some (setting_text e, rest)"
    by (simp add: strchr_Some)
  then show ?thesis by (simp add: split_line_def)
qed

lemma parse_loop_text:
  "table_ok (es0 @ es) \<Longrightarrow> list_all (\<lambda>e. plain_value (snd e)) es \<Longrightarrow>
   parse_loop lineno (sec, es0) (config_text es) = (None, es0 @ es)"
proof (induction es arbitrary: es0 lineno)
  case Nil
  then show ?case by (subst parse_loop.simps) (simp add: config_text_def)
next
  case (Cons e es)
  have e: "qualified_key (fst e)" "plain_value (snd e)" "length (snd e) < PLC_CONFIG_VALUE_MAX"
    "fst e \<notin> fst ` set es0" "length es0 < PLC_CONFIG_MAX_ENTRIES"
    using Cons.prems by (auto simp: table_ok_def)
  have txt_eq: "config_text (e # es) = setting_text e @ [CHR 0x0A] @ config_text es"
    by (simp add: config_text_def)
  have "parse_line (Suc lineno) (sec, es0) (setting_text e) = Inr (sec, es0 @ [e])"
    using parse_line_setting [of "fst e" "snd e"] e by simp
  moreover have "parse_loop (Suc lineno) (sec, es0 @ [e]) (config_text es) = (None, es0 @ e # es)"
    using Cons.IH [of "es0 @ [e]" "Suc lineno"] Cons.prems by simp
  ultimately show ?case
    unfolding txt_eq by (subst parse_loop.simps) (use split_setting [OF e(1,2)] in simp)
qed

text \<open>
  C14: Writing a table and parsing the text gives the table back: any table of at most 64
  distinct qualified keys with values of fewer than 256 characters (free of double quotes and
  newlines; blanks, comment signs, brackets and equal signs included) survives the round trip.
\<close>

theorem config_roundtrip:
  assumes "table_ok es" and "list_all (\<lambda>e. plain_value (snd e)) es"
  shows "plc_config_parse cfg (config_text es) = (PLC_OK, None, cfg\<lparr>g_entries := es\<rparr>)"
  using parse_loop_text [of "[]" es 0 "[]"] assms by (simp add: plc_config_parse_def)

theorem config_roundtrip_witness:
  "plc_config_parse \<lparr>g_entries = [], g_path = []\<rparr>
     (config_text [(''SOFTPLC_EIP_INTERFACE'', '' eth0 ; #[x] = ''), (''SOFTPLC_ROLE'', [])]) =
   (PLC_OK, None, \<lparr>g_entries = [(''SOFTPLC_EIP_INTERFACE'', '' eth0 ; #[x] = ''), (''SOFTPLC_ROLE'', [])],
      g_path = []\<rparr>)"
  using config_roundtrip [of "[(''SOFTPLC_EIP_INTERFACE'', '' eth0 ; #[x] = ''), (''SOFTPLC_ROLE'', [])]"
      "\<lparr>g_entries = [], g_path = []\<rparr>"]
  by (simp add: table_ok_def qualified_key_def plain_value_def SOFTPLC_PREFIX_def char_class)

text \<open>
  C35: Start-up loading is all or nothing. Whatever the file system, the allocator and the
  environment do, the table keeps at most 64 distinct qualified keys that fit their buffers; and
  when loading fails, the table is the one from before or empty: a file whose tenth line is wrong
  contributes none of the first nine.
\<close>

theorem config_init_all_or_nothing:
  assumes "table_ok (g_entries cfg)" and "plc_config_init getenv fs alloc cfg = (st, e, cfg')"
  shows "table_ok (g_entries cfg') \<and>
    (st \<noteq> PLC_OK \<longrightarrow> cfg' = cfg \<or> g_entries cfg' = [] \<and> g_path cfg' = [])"
  using assms
  by (auto simp: plc_config_init_def split: option.splits prod.splits if_splits
      dest: plc_config_load_all_or_nothing)


definition broken_file :: string where
  "broken_file = ''[eip]'' @ [CHR 0x0A] @ ''interface = eth0'' @ [CHR 0x0A] @ ''broken'' @ [CHR 0x0A]"

lemma plc_config_load_file:
  assumes "path \<noteq> []" and "fs path = Fopened bytes False" and "length bytes < 65535"
  shows "plc_config_load fs True path cfg =
    (case plc_config_parse cfg (ends_at_nul bytes) of
       (st, e, cfg1) \<Rightarrow>
         if st \<noteq> PLC_OK then (st, e, cfg1\<lparr>g_entries := [], g_path := []\<rparr>)
         else (PLC_OK, e, cfg1\<lparr>g_path := snprintf_s 512 path\<rparr>))"
  using assms by (simp add: plc_config_load_def Let_def)

lemma broken_file_parse:
  "plc_config_parse \<lparr>g_entries = [], g_path = []\<rparr> (ends_at_nul broken_file) =
   (PLC_ERR_INVAL, Some (Expected_key_value 3 ''broken''),
    \<lparr>g_entries = [(''SOFTPLC_EIP_INTERFACE'', ''eth0'')], g_path = []\<rparr>)"
  by code_simp

lemma broken_file_load:
  "plc_config_init (\<lambda>_. None) (\<lambda>_. Fopened broken_file False) True \<lparr>g_entries = [], g_path = []\<rparr> =
   (PLC_ERR_INVAL, Some (Expected_key_value 3 ''broken''), \<lparr>g_entries = [], g_path = []\<rparr>)"
proof -
  have "length broken_file < 65535" "PLC_CONFIG_DEFAULT_PATH \<noteq> []"
    by (simp_all add: broken_file_def PLC_CONFIG_DEFAULT_PATH_def)
  then show ?thesis
    by (simp add: plc_config_init_def nonempty_def broken_file_parse
        plc_config_load_file [of _ "\<lambda>_. Fopened broken_file False" broken_file])
qed

theorem config_init_all_or_nothing_witness:
  "table_ok [] \<and> g_entries (snd (snd (plc_config_init (\<lambda>_. None) (\<lambda>_. Fopened broken_file False) True
     \<lparr>g_entries = [], g_path = []\<rparr>))) = []"
  using config_init_all_or_nothing [OF _ broken_file_load] by (simp add: broken_file_load table_ok_def)

lemma cfg_str_qualified:
  assumes "qualify PLC_CONFIG_KEY_MAX [] key = Inr q"
  shows "plc_cfg_str getenv cfg key fallback =
    (case nonempty (getenv q) of Some env \<Rightarrow> Some env
     | None \<Rightarrow> (case map_of (g_entries cfg) q of
                 Some v \<Rightarrow> if v \<noteq> [] then Some v else fallback | None \<Rightarrow> fallback))"
  using assms find_entry_map_of [of "g_entries cfg" q, symmetric]
  by (auto simp: plc_cfg_str_def split: option.splits)

text \<open>
  C36: What the file says is what the program reads, underneath the environment. After the line
  \<open>key = value\<close> in section \<open>sec\<close> is entered, a lookup of \<open>sec.key\<close>, in whatever case and
  punctuation, gives a non-empty environment variable of that name if there is one, else the
  value without its quotes if it is not empty, else the fallback.
\<close>

theorem config_lookup:
  assumes "parse_setting lineno sec es (key @ ''='' @ val) = Inr es'"
    and "table_ok es" and "CHR ''='' \<notin> set key" and "trim key = key"
    and "normalise PLC_CONFIG_KEY_MAX sec = Inr s" and "s \<noteq> ''CORE''" and "s \<noteq> ''SOFTPLC''"
    and "normalise PLC_CONFIG_KEY_MAX key = Inr k"
    and "take 8 k \<noteq> SOFTPLC_PREFIX" and "take 8 (s @ ''_'' @ k) \<noteq> SOFTPLC_PREFIX"
    and "map fold_char name = s @ ''_'' @ k"
  shows "plc_cfg_str getenv (cfg\<lparr>g_entries := es'\<rparr>) name fallback =
    (case nonempty (getenv (SOFTPLC_PREFIX @ s @ ''_'' @ k)) of
       Some env \<Rightarrow> Some env
     | None \<Rightarrow> if unquote (trim val) \<noteq> [] then Some (unquote (trim val)) else fallback)"
proof -
  let ?q = "SOFTPLC_PREFIX @ s @ ''_'' @ k"
  have "sec \<noteq> []" "s \<noteq> []" using assms(5) by (auto simp: normalise_Inr)
  then have q: "qualify PLC_CONFIG_KEY_MAX sec key = print_fits PLC_CONFIG_KEY_MAX ?q"
    using assms(5-9) by (simp add: qualify_def)
  have "strchr CHR ''='' (key @ ''='' @ val) = Some (key, val)" using assms(3) by (simp add: strchr_Some)
  then have es': "es' = es @ [(?q, unquote (trim val))]" "?q \<notin> fst ` set es" "length ?q < PLC_CONFIG_KEY_MAX"
    using assms(1,4) q by (auto simp: parse_setting_Inr print_fits_Inr)
  have look: "map_of es' ?q = Some (unquote (trim val))"
    using es'(2) unfolding es'(1) by (simp add: map_add_def map_of_eq_None_iff [THEN iffD2])
  have "list_all key_char (s @ ''_'' @ k)"
    using assms(5,8) by (auto simp: normalise_Inr char_class)
  then have "normalise PLC_CONFIG_KEY_MAX name = Inr (s @ ''_'' @ k)"
    unfolding normalise_Inr using assms(11) es'(3) by simp
  then have "qualify PLC_CONFIG_KEY_MAX [] name = Inr ?q"
    using assms(10) es'(3) by (simp add: qualify_def print_fits_def)
  from cfg_str_qualified [OF this] look show ?thesis
    by (cases "nonempty (getenv ?q)") simp_all
qed

theorem config_lookup_witness:
  "plc_cfg_str (\<lambda>_. None)
     (\<lparr>g_entries = [], g_path = []\<rparr>\<lparr>g_entries := [(''SOFTPLC_EIP_INPUT_BYTES'', ''32'')]\<rparr>)
     ''EIP-input.bytes'' None = Some ''32''"
proof -
  have "trim ''input-bytes'' = ''input-bytes''" by code_simp
  moreover have "parse_setting 1 ''eip'' [] (''input-bytes'' @ ''='' @ '' 32'') =
      Inr [(''SOFTPLC_EIP_INPUT_BYTES'', ''32'')]" by code_simp
  moreover have "normalise PLC_CONFIG_KEY_MAX ''eip'' = Inr ''EIP''" by code_simp
  moreover have "normalise PLC_CONFIG_KEY_MAX ''input-bytes'' = Inr ''INPUT_BYTES''" by code_simp
  moreover have "map fold_char ''EIP-input.bytes'' = ''EIP'' @ ''_'' @ ''INPUT_BYTES''" by code_simp
  moreover have "unquote (trim '' 32'') = ''32''" by code_simp
  ultimately show ?thesis
    using config_lookup [of 1 "''eip''" "[]" "''input-bytes''" "'' 32''"
        "[(''SOFTPLC_EIP_INPUT_BYTES'', ''32'')]" "''EIP''" "''INPUT_BYTES''" "''EIP-input.bytes''"
        "\<lambda>_. None" "\<lparr>g_entries = [], g_path = []\<rparr>" None]
    by (simp add: table_ok_def SOFTPLC_PREFIX_def nonempty_def)
qed

subsection \<open>Numbers\<close>

text \<open>Decimal notation.\<close>

function dec :: "nat \<Rightarrow> string" where
  "dec n = (if n < 10 then [char_of (48 + n)] else dec (n div 10) @ [char_of (48 + n mod 10)])"
  by pat_completeness auto

termination dec
  by (relation "measure id") simp_all

declare dec.simps [simp del]

lemma digits_snoc: "digits acc (xs @ [c]) = digits acc xs * 10 + (ord c - 48)"
  by (induction xs arbitrary: acc) simp_all

lemma ord_char_of: "n < 256 \<Longrightarrow> ord (char_of n) = n"
  by (simp add: ord_def)

lemma digits_dec: "digits 0 (dec n) = n"
proof (induction n rule: dec.induct)
  case (1 n)
  then show ?case by (subst dec.simps) (auto simp: digits_snoc ord_char_of)
qed

lemma dec_digits: "list_all isdigit (dec n)"
proof (induction n rule: dec.induct)
  case (1 n)
  have "isdigit (char_of (48 + k))" if "k < 10" for k :: nat
    using that by (simp add: isdigit_def ord_char_of)
  with 1 show ?case by (subst dec.simps) auto
qed

lemma dec_nonempty: "dec n \<noteq> []"
  by (subst dec.simps) simp

lemma isdigit_plain: "isdigit c \<Longrightarrow> \<not> isspace c \<and> c \<noteq> CHR ''-'' \<and> c \<noteq> CHR ''+''"
  by (auto simp: isdigit_def isspace_def ord_def)

lemma strtoul_dec:
  assumes "list_all isspace ws" and "rest = [] \<or> \<not> isdigit (hd rest)"
  shows "strtoul (ws @ dec n @ rest) =
    (if n \<ge> 2 ^ 64 then Some (- 1, True, rest) else Some (of_nat n, False, rest))"
proof -
  have d: "\<not> isspace (hd (dec n)) \<and> hd (dec n) \<noteq> CHR ''-'' \<and> hd (dec n) \<noteq> CHR ''+''"
    using dec_digits [of n] dec_nonempty [of n] isdigit_plain by (auto simp: list_all_iff)
  have drop: "dropWhile isspace (ws @ dec n @ rest) = dec n @ rest"
    using assms(1) d dec_nonempty [of n]
    by (cases "dec n") (auto simp: list_all_iff dropWhile_append2)
  have "takeWhile isdigit (dec n @ rest) = dec n" "dropWhile isdigit (dec n @ rest) = rest"
    using dec_digits [of n] assms(2)
    by (cases rest; simp add: list_all_iff takeWhile_append2 dropWhile_append2)+
  then show ?thesis using drop d dec_nonempty [of n] by (simp add: strtoul_def Let_def digits_dec)
qed

text \<open>
  A numeric setting is read exactly or not at all: written in decimal, with blanks around
  it, every natural number from 1 to $2^{32}-1$ is read as itself, and zero and every larger
  number, those beyond 64 bits included, give the fallback; nothing is truncated or wrapped.
\<close>

lemma config_u32_exact:
  assumes "plc_cfg_str getenv cfg key None = Some (ws @ dec n @ blanks)"
    and "list_all isspace ws" and "list_all (\<lambda>c. c = CHR '' '' \<or> c = CHR 0x09) blanks"
  shows "plc_cfg_u32 getenv cfg key fallback = (if 0 < n \<and> n < 2 ^ 32 then of_nat n else fallback)"
proof -
  have "blanks = [] \<or> \<not> isdigit (hd blanks)"
    using assms(3) by (cases blanks) (auto simp: isdigit_def ord_def)
  note st = strtoul_dec [OF assms(2) this, of n]
  have bl: "dropWhile (\<lambda>c. c = CHR '' '' \<or> c = CHR 0x09) blanks = []"
    using assms(3) by (auto simp: list_all_iff)
  show ?thesis
  proof (cases "n < 2 ^ 64")
    case True
    define w :: u64 where "w = of_nat n"
    have un: "unat w = n" using True unfolding w_def by (simp only: unat_of_nat take_bit_nat_eq_self) simp
    have zero: "w = 0 \<longleftrightarrow> n = 0" using un by (auto simp: word_unat_eq_iff)
    have big: "(0xFFFFFFFF :: u64) < w \<longleftrightarrow> \<not> n < 2 ^ 32" using un by (auto simp: word_less_nat_alt)
    have cast: "ucast w = (of_nat n :: u32)" using un by (metis of_nat_unat)
    have "strtoul (ws @ dec n @ blanks) = Some (w, False, blanks)" using st True unfolding w_def by simp
    then show ?thesis using assms(1) bl zero big cast by (simp add: plc_cfg_u32_def)
  next
    case False
    then show ?thesis using assms(1) st by (simp add: plc_cfg_u32_def)
  qed
qed

end
