(* ===== verification/Eip_Proxy.thy ===== *)
theory Eip_Proxy
  imports Eip_Layout Shm_Ipc Plc_Config
begin

text \<open>
  \<open>adapters/eip/eip_adapter_proxy.c\<close>: the core's side of the EtherNet/IP adapter, a protocol
  adapter that marshals one frame each way through the shared region.

  The region belongs to the peer as much as to the core, so its rings are whatever the
  environment says they are at each access. The environment of one exchange is the clock at
  its start, the two rings as the core finds them, the wake-ups of its wait (each with the clock
  before it, what the semaphore reports and the response ring at each successive read), and the
  clock at the end. The list of wake-ups ends when the clock has passed the budget. The kernel
  objects the proxy owns are part of its state.
\<close>

subsection \<open>State and environment\<close>

record eip_proxy =
  px_caps :: plc_adapter_caps
  px_stats :: plc_adapter_stats
  px_state :: plc_adapter_state_t
  px_instance :: string
  px_shm :: plc_shm
  px_map :: "eip_shm option"
  px_sem_req :: "nat option"
  px_sem_rsp :: "nat option"
  px_sem_req_name :: string
  px_sem_rsp_name :: string
  px_next_seq :: u32
  px_stale :: plc_staleness
  px_opened_us :: u64
  px_last_good :: "byte list"
  px_scratch :: plc_ipc_frame
  px_kern :: kern

record wake =
  wk_now :: u64
  wk_sem :: "sem_report list"
  wk_rings :: "plc_spsc_ring list"

record eip_env =
  ev_getenv :: "string \<Rightarrow> string option"
  ev_config :: config
  ev_faults :: os_faults
  ev_sem_faults :: "bool \<times> bool"
  ev_start :: u64
  ev_req :: plc_spsc_ring
  ev_rsp :: plc_spsc_ring
  ev_wakes :: "wake list"
  ev_end :: u64
  ev_rtt :: u64

subsection \<open>A missed exchange and unusable data\<close>

definition proxy_unusable ::
  "eip_proxy \<Rightarrow> byte list option \<Rightarrow> size_t \<Rightarrow> u64 \<Rightarrow> plc_status \<times> eip_proxy \<times> byte list option" where
  "proxy_unusable p in_buf in_len now =
     (let p = p\<lparr>px_stats := (px_stats p)\<lparr>data_invalid := data_invalid (px_stats p) + 1\<rparr>\<rparr>;
          p = p\<lparr>px_stale := plc_staleness_mark_fresh now (px_stale p)\<rparr>;
          p = p\<lparr>px_stats := (px_stats p)\<lparr>stale_for_us := 0\<rparr>\<rparr>;
          p = (if px_state p \<noteq> PLC_ADAPTER_DEGRADED then p\<lparr>px_state := PLC_ADAPTER_DEGRADED\<rparr> else p)
      in (PLC_ERR_AGAIN, p,
          plc_adapter_apply_failsafe (failsafe_policy (px_caps p)) in_buf (Some (px_last_good p)) in_len))"

definition proxy_fail ::
  "eip_proxy \<Rightarrow> byte list option \<Rightarrow> size_t \<Rightarrow> plc_status \<Rightarrow> u64
   \<Rightarrow> plc_status \<times> eip_proxy \<times> byte list option" where
  "proxy_fail p in_buf in_len reason now =
     (let p = p\<lparr>px_stats := (px_stats p)\<lparr>timeouts := timeouts (px_stats p) + 1\<rparr>\<rparr>;
          age = plc_staleness_age_us now (px_stale p) (px_opened_us p);
          p = p\<lparr>px_stats := (px_stats p)\<lparr>stale_for_us := age\<rparr>\<rparr>
      in if age \<ge> ucast (failsafe_timeout_us (px_caps p)) then
           let p = (if px_state p \<noteq> PLC_ADAPTER_FAULTED
                    then p\<lparr>px_state := PLC_ADAPTER_FAULTED,
                           px_stats := (px_stats p)\<lparr>failsafe_activations :=
                             failsafe_activations (px_stats p) + 1\<rparr>\<rparr>
                    else p)
           in (reason, p, plc_adapter_apply_failsafe (failsafe_policy (px_caps p)) in_buf
                 (Some (px_last_good p)) in_len)
         else
           let p = (if px_state p = PLC_ADAPTER_ONLINE then p\<lparr>px_state := PLC_ADAPTER_DEGRADED\<rparr> else p)
           in (reason, p, plc_adapter_apply_failsafe PLC_FAILSAFE_HOLD in_buf (Some (px_last_good p)) in_len))"

subsection \<open>Lifecycle\<close>

definition proxy_teardown :: "eip_proxy \<Rightarrow> eip_proxy" where
  "proxy_teardown p =
     (let k = plc_sem_close (px_sem_req p) (Some (px_sem_req_name p)) True (px_kern p);
          k = plc_sem_close (px_sem_rsp p) (Some (px_sem_rsp_name p)) True k
      in (case plc_shm_close (px_shm p) k of (shm, k) \<Rightarrow>
            p\<lparr>px_sem_req := None, px_sem_rsp := None, px_shm := shm, px_map := None, px_kern := k\<rparr>))"

definition cfg_u32 :: "eip_env \<Rightarrow> string \<Rightarrow> u32 \<Rightarrow> u32" where
  "cfg_u32 e key fallback = plc_cfg_u32 (ev_getenv e) (ev_config e) key fallback"

text \<open>The region the core publishes; the magic word follows once the semaphores exist.\<close>

definition fresh_map :: "eip_env \<Rightarrow> u32 \<Rightarrow> u32 \<Rightarrow> eip_shm" where
  "fresh_map e inb outb = eip_shm_zero\<lparr>
     m_abi_version := EIP_SHM_ABI_VERSION,
     m_layout_bytes := of_nat eip_shm_bytes,
     m_output_bytes := outb,
     m_input_bytes := inb,
     m_produced_assembly := cfg_u32 e ''SOFTPLC_EIP_PRODUCED_ASSEMBLY'' EIP_DEFAULT_PRODUCED_ASSEMBLY,
     m_consumed_assembly := cfg_u32 e ''SOFTPLC_EIP_CONSUMED_ASSEMBLY'' EIP_DEFAULT_CONSUMED_ASSEMBLY,
     m_req := plc_spsc_init (m_req eip_shm_zero),
     m_rsp := plc_spsc_init (m_rsp eip_shm_zero),
     m_status := (m_status eip_shm_zero)\<lparr>st_adapter_state := PLC_ADAPTER_CLOSED\<rparr>\<rparr>"

definition proxy_caps_of :: "eip_env \<Rightarrow> plc_adapter_config \<Rightarrow> u32 \<Rightarrow> u32 \<Rightarrow> plc_adapter_caps" where
  "proxy_caps_of e cfg inb outb = caps_zero\<lparr>
     abi_version := PLC_ADAPTER_ABI_VERSION,
     cap_name := snprintf_s 32 (case cfg_name cfg of Some n \<Rightarrow> n | None \<Rightarrow> ''eip0''),
     protocol := snprintf_s 32 ''ethernet-ip'',
     input_bytes := inb,
     output_bytes := outb,
     failsafe_policy := cfg_failsafe_policy cfg,
     exchange_timeout_us := (if cfg_exchange_timeout_us cfg \<noteq> 0 then cfg_exchange_timeout_us cfg
       else cfg_u32 e ''SOFTPLC_EIP_EXCHANGE_TIMEOUT_US'' EIP_DEFAULT_EXCHANGE_TIMEOUT_US),
     failsafe_timeout_us := (if cfg_failsafe_timeout_us cfg \<noteq> 0 then cfg_failsafe_timeout_us cfg
       else cfg_u32 e ''SOFTPLC_EIP_FAILSAFE_TIMEOUT_US'' EIP_DEFAULT_FAILSAFE_TIMEOUT_US),
     cap_flags := PLC_ADAPTER_CAP_OUT_OF_PROCESS,
     point_override_capacity := 0\<rparr>"

definition instance_of :: "plc_adapter_config \<Rightarrow> string" where
  "instance_of cfg = snprintf_s EIP_INSTANCE_MAX
     (case nonempty (cfg_endpoint cfg) of Some s \<Rightarrow> s
      | None \<Rightarrow> (case nonempty (cfg_name cfg) of Some s \<Rightarrow> s | None \<Rightarrow> ''default''))"

definition create_sems :: "bool \<times> bool \<Rightarrow> os_faults \<Rightarrow> eip_proxy \<Rightarrow> plc_status \<times> eip_proxy" where
  "create_sems sf f p =
     (case plc_sem_create (f\<lparr>f_sem_open := fst sf\<rparr>) (px_sem_req_name p) (px_kern p) of (st, s, k) \<Rightarrow>
        let p = p\<lparr>px_sem_req := s, px_kern := k\<rparr> in
        if st \<noteq> PLC_OK then (st, p)
        else (case plc_sem_create (f\<lparr>f_sem_open := snd sf\<rparr>) (px_sem_rsp_name p) k of (st, s, k) \<Rightarrow>
          (st, p\<lparr>px_sem_rsp := s, px_kern := k\<rparr>)))"

definition proxy_open :: "eip_proxy \<Rightarrow> plc_adapter_config \<Rightarrow> eip_env \<Rightarrow> plc_status \<times> eip_proxy" where
  "proxy_open p cfg e =
     (if px_state p \<noteq> PLC_ADAPTER_CLOSED then (PLC_ERR_STATE, p)
      else
        let p = p\<lparr>px_instance := instance_of cfg\<rparr>;
            inb = (if cfg_input_bytes cfg \<noteq> 0 then cfg_input_bytes cfg
                   else cfg_u32 e ''SOFTPLC_EIP_INPUT_BYTES'' EIP_DEFAULT_INPUT_BYTES);
            outb = (if cfg_output_bytes cfg \<noteq> 0 then cfg_output_bytes cfg
                    else cfg_u32 e ''SOFTPLC_EIP_OUTPUT_BYTES'' EIP_DEFAULT_OUTPUT_BYTES)
        in if inb > PLC_IPC_MAX_FRAME_BYTES \<or> outb > PLC_IPC_MAX_FRAME_BYTES then (PLC_ERR_INVAL, p)
           else
             let shm_name = eip_shm_name EIP_SHM_NAME_MAX (px_instance p);
                 p = p\<lparr>px_sem_req_name := eip_sem_req_name EIP_SHM_NAME_MAX (px_instance p),
                       px_sem_rsp_name := eip_sem_rsp_name EIP_SHM_NAME_MAX (px_instance p)\<rparr>
             in (case plc_shm_create (ev_faults e) shm_name eip_shm_bytes (px_shm p) (px_kern p) of
                   (st, shm, k) \<Rightarrow>
                     let p = p\<lparr>px_shm := shm, px_kern := k\<rparr> in
                     if st \<noteq> PLC_OK then (st, p)
                     else
                       let p = p\<lparr>px_map := Some (fresh_map e inb outb)\<rparr> in
                       (case create_sems (ev_sem_faults e) (ev_faults e) p of (st, p) \<Rightarrow>
                          if st \<noteq> PLC_OK then (st, proxy_teardown p)
                          else (PLC_OK, p\<lparr>
                            px_map := Some ((fresh_map e inb outb)\<lparr>m_magic := EIP_SHM_MAGIC\<rparr>),
                            px_caps := proxy_caps_of e cfg inb outb,
                            px_stats := stats_zero,
                            px_last_good := replicate 496 0,
                            px_next_seq := 1,
                            px_opened_us := ev_start e,
                            px_stale := staleness_zero,
                            px_state := PLC_ADAPTER_OPENING\<rparr>))))"

definition proxy_close :: "eip_proxy \<Rightarrow> plc_status \<times> eip_proxy" where
  "proxy_close p =
     (if px_state p = PLC_ADAPTER_CLOSED then (PLC_OK, p)
      else (PLC_OK, (proxy_teardown p)\<lparr>px_state := PLC_ADAPTER_CLOSED\<rparr>))"

subsection \<open>The cyclic exchange\<close>

definition map_upd :: "(eip_shm \<Rightarrow> eip_shm) \<Rightarrow> eip_proxy \<Rightarrow> eip_proxy" where
  "map_upd f p = p\<lparr>px_map := map_option f (px_map p)\<rparr>"

definition protocol_error :: "eip_proxy \<Rightarrow> eip_proxy" where
  "protocol_error p = p\<lparr>px_stats := (px_stats p)\<lparr>protocol_errors := protocol_errors (px_stats p) + 1\<rparr>\<rparr>"

datatype reply = Matched | Queue_empty | Missed plc_status

text \<open>The inner loop: read the ring until it is empty, our reply is found, or a frame is wrong.\<close>

fun reply_loop :: "u32 \<Rightarrow> plc_spsc_ring list \<Rightarrow> eip_proxy \<Rightarrow> reply \<times> eip_proxy" where
  "reply_loop seq [] p = (Queue_empty, p)"
| "reply_loop seq (r # rs) p =
     (case plc_spsc_pop r (px_scratch p) PLC_IPC_MAX_FRAME_BYTES of (st, r, f) \<Rightarrow>
        let p = (map_upd (m_rsp_update (\<lambda>_. r)) p)\<lparr>px_scratch := f\<rparr> in
        if st = PLC_ERR_AGAIN then (Queue_empty, p)
        else if st \<noteq> PLC_OK then (Missed PLC_ERR_PROTO, protocol_error p)
        else if sint (fr_seq f - seq) < 0 then reply_loop seq rs p
        else if fr_seq f \<noteq> seq then (Missed PLC_ERR_PROTO, protocol_error p)
        else (Matched, p))"

text \<open>The wait for our reply on what remains of the budget.\<close>

fun wait_loop :: "u64 \<Rightarrow> u32 \<Rightarrow> wake list \<Rightarrow> eip_proxy \<Rightarrow> reply \<times> eip_proxy" where
  "wait_loop t0 seq [] p = (Missed PLC_ERR_TIMEOUT, p)"
| "wait_loop t0 seq (w # ws) p =
     (let budget = ucast (exchange_timeout_us (px_caps p)); spent = wk_now w - t0 in
      if spent \<ge> budget then (Missed PLC_ERR_TIMEOUT, p)
      else
        let st = plc_sem_wait_timeout (ucast (budget - spent)) (wk_sem w) in
        if st = PLC_ERR_TIMEOUT then (Missed PLC_ERR_TIMEOUT, p)
        else if st \<noteq> PLC_OK then (Missed PLC_ERR_IO, protocol_error p)
        else (case reply_loop seq (wk_rings w) p of
                (Queue_empty, p) \<Rightarrow> wait_loop t0 seq ws p
              | (r, p) \<Rightarrow> (r, p)))"

definition accept_copy :: "eip_proxy \<Rightarrow> byte list option \<Rightarrow> size_t \<Rightarrow> eip_proxy \<times> byte list option" where
  "accept_copy p in_buf in_len =
     (let got = (if ucast (fr_len (px_scratch p)) < in_len then ucast (fr_len (px_scratch p)) else in_len) in
      (case in_buf of
         None \<Rightarrow> (p, None)
       | Some bs \<Rightarrow>
           if in_len \<noteq> 0 then
             let bs = (let bs = (if got \<noteq> 0
                                 then put_slice 0 (get_slice 0 (unat got) (fr_data (px_scratch p))) bs else bs)
                       in if got < in_len
                          then put_slice (unat got) (replicate (unat (in_len - got)) 0) bs else bs)
             in (p\<lparr>px_last_good := put_slice 0 (get_slice 0 (unat in_len) bs) (px_last_good p)\<rparr>, Some bs)
           else (p, Some bs)))"

definition accept_account :: "eip_proxy \<Rightarrow> u64 \<Rightarrow> u64 \<Rightarrow> u64 \<Rightarrow> eip_proxy" where
  "accept_account p t0 now now_rtt =
     (let rtt = now_rtt - t0;
          p = p\<lparr>px_stats := (px_stats p)\<lparr>exchanges := exchanges (px_stats p) + 1\<rparr>\<rparr>;
          p = p\<lparr>px_stale := plc_staleness_mark_fresh now (px_stale p)\<rparr>;
          p = p\<lparr>px_stats := (px_stats p)\<lparr>stale_for_us := 0, last_rtt_us := rtt\<rparr>\<rparr>;
          p = (if rtt > max_rtt_us (px_stats p)
               then p\<lparr>px_stats := (px_stats p)\<lparr>max_rtt_us := rtt\<rparr>\<rparr> else p)
      in (if px_state p \<noteq> PLC_ADAPTER_ONLINE then p\<lparr>px_state := PLC_ADAPTER_ONLINE\<rparr> else p))"

definition proxy_accept ::
  "eip_proxy \<Rightarrow> byte list option \<Rightarrow> size_t \<Rightarrow> u64 \<Rightarrow> u64 \<Rightarrow> u64 \<Rightarrow> plc_status \<times> eip_proxy \<times> byte list option" where
  "proxy_accept p in_buf in_len t0 now now_rtt =
     (case accept_copy p in_buf in_len of (p, in_buf) \<Rightarrow> (PLC_OK, accept_account p t0 now now_rtt, in_buf))"

unbundle bit_operations_syntax

definition proxy_exchange ::
  "eip_proxy \<Rightarrow> byte list option \<Rightarrow> size_t \<Rightarrow> byte list option \<Rightarrow> size_t \<Rightarrow> eip_env
   \<Rightarrow> plc_status \<times> eip_proxy \<times> byte list option" where
  "proxy_exchange p out out_len in_buf in_len e =
     (if px_state p = PLC_ADAPTER_CLOSED \<or> px_map p = None then (PLC_ERR_STATE, p, in_buf)
      else if out_len > ucast (output_bytes (px_caps p)) \<or> in_len > ucast (input_bytes (px_caps p))
      then (PLC_ERR_INVAL, p, in_buf)
      else
        let t0 = ev_start e;
            seq = px_next_seq p;
            p = p\<lparr>px_next_seq := px_next_seq p + 1\<rparr>;
            p = map_upd (m_rsp_update (\<lambda>_. plc_spsc_drain (ev_rsp e))) p
        in (case plc_spsc_push (ev_req e) seq out (ucast out_len) of (st, req) \<Rightarrow>
              let p = map_upd (m_req_update (\<lambda>_. req)) p in
              if st \<noteq> PLC_OK then proxy_fail p in_buf in_len PLC_ERR_TIMEOUT (ev_end e)
              else (case wait_loop t0 seq (ev_wakes e) p of
                      (Missed reason, p) \<Rightarrow> proxy_fail p in_buf in_len reason (ev_end e)
                    | (_, p) \<Rightarrow>
                        if fr_flags (px_scratch p) AND PLC_IPC_FRAME_DATA_INVALID \<noteq> 0
                        then proxy_unusable p in_buf in_len (ev_end e)
                        else proxy_accept p in_buf in_len t0 (ev_end e) (ev_rtt e))))"

subsection \<open>Introspection and the dispatch table\<close>

definition proxy_caps :: "eip_proxy \<Rightarrow> plc_status \<times> plc_adapter_caps" where
  "proxy_caps p = (PLC_OK, px_caps p)"

definition proxy_stats :: "eip_proxy \<Rightarrow> plc_status \<times> plc_adapter_stats" where
  "proxy_stats p = (PLC_OK, px_stats p)"

definition proxy_state :: "eip_proxy \<Rightarrow> plc_adapter_state_t" where
  "proxy_state p = px_state p"

definition plc_eip_io_connections :: "eip_proxy \<Rightarrow> u32" where
  "plc_eip_io_connections p =
     (case px_map p of None \<Rightarrow> 0 | Some m \<Rightarrow> st_io_connections (m_status m))"

definition kEipVtbl :: "(eip_proxy, eip_env) plc_adapter_vtbl" where
  "kEipVtbl = \<lparr>vt_open = Some proxy_open, vt_close = Some proxy_close, vt_exchange = Some proxy_exchange,
     vt_get_caps = Some proxy_caps, vt_get_stats = Some proxy_stats, vt_state = Some proxy_state\<rparr>"

definition eip_create :: "bool \<Rightarrow> bool \<Rightarrow> kern \<Rightarrow> (eip_proxy, eip_env) plc_protocol_adapter option" where
  "eip_create alloc_a alloc_impl k =
     (if \<not> alloc_a \<or> \<not> alloc_impl then None
      else Some \<lparr>vtbl = Some kEipVtbl,
        impl = \<lparr>px_caps = caps_zero, px_stats = stats_zero, px_state = PLC_ADAPTER_CLOSED, px_instance = [],
          px_shm = shm_zero\<lparr>sh_fd := -1\<rparr>, px_map = None, px_sem_req = None, px_sem_rsp = None,
          px_sem_req_name = [], px_sem_rsp_name = [], px_next_seq = 0, px_stale = staleness_zero,
          px_opened_us = 0, px_last_good = replicate 496 0, px_scratch = frame_zero, px_kern = k\<rparr>\<rparr>)"

text \<open>\<open>eip_destroy\<close> closes and frees; what remains is the kernel.\<close>

definition eip_destroy :: "(eip_proxy, eip_env) plc_protocol_adapter \<Rightarrow> kern" where
  "eip_destroy a = px_kern (snd (proxy_close (impl a)))"

subsection \<open>What the loops keep\<close>

definition px_inv :: "eip_proxy \<Rightarrow> bool" where
  "px_inv p \<longleftrightarrow> px_state p \<noteq> PLC_ADAPTER_CLOSED \<and> px_map p \<noteq> None \<and> length (px_last_good p) = 496
     \<and> unat (input_bytes (px_caps p)) \<le> 496 \<and> unat (output_bytes (px_caps p)) \<le> 496
     \<and> frame_wf (px_scratch p)"

definition wake_ok :: "wake \<Rightarrow> bool" where
  "wake_ok w \<longleftrightarrow> list_all ring_wf (wk_rings w)"

text \<open>All the C types guarantee of memory the peer can write: the rings have their four frames.\<close>

definition eip_env_ok :: "eip_env \<Rightarrow> bool" where
  "eip_env_ok e \<longleftrightarrow> ring_wf (ev_req e) \<and> ring_wf (ev_rsp e) \<and> list_all wake_ok (ev_wakes e)"

text \<open>The wait touches the region, the scratch frame and one counter, and nothing else.\<close>

definition px_frame :: "eip_proxy \<Rightarrow> eip_proxy \<Rightarrow> bool" where
  "px_frame p p' \<longleftrightarrow> px_caps p' = px_caps p \<and> px_state p' = px_state p \<and> px_last_good p' = px_last_good p
     \<and> px_stale p' = px_stale p \<and> px_opened_us p' = px_opened_us p \<and> px_next_seq p' = px_next_seq p
     \<and> px_shm p' = px_shm p \<and> px_kern p' = px_kern p \<and> (px_map p' = None \<longleftrightarrow> px_map p = None)"

lemma px_frame_refl [simp]: "px_frame p p"
  by (simp add: px_frame_def)

lemma px_frame_trans: "px_frame p q \<Longrightarrow> px_frame q r \<Longrightarrow> px_frame p r"
  by (simp add: px_frame_def)

lemma px_frame_step [simp]:
  "px_frame p (map_upd f q) = px_frame p q" "px_frame p (q\<lparr>px_scratch := s\<rparr>) = px_frame p q"
  "px_frame p (protocol_error q) = px_frame p q"
  "px_frame (map_upd f q) p = px_frame q p" "px_frame (q\<lparr>px_scratch := s\<rparr>) p = px_frame q p"
  by (simp_all add: px_frame_def map_upd_def protocol_error_def)

lemma px_scratch_step [simp]:
  "px_scratch (map_upd f q) = px_scratch q" "px_scratch (protocol_error q) = px_scratch q"
  by (simp_all add: map_upd_def protocol_error_def)

text \<open>A frame taken from the front of a ring.\<close>

definition taken_from :: "plc_ipc_frame \<Rightarrow> plc_spsc_ring \<Rightarrow> bool" where
  "taken_from f r \<longleftrightarrow> plc_spsc_count r \<noteq> 0 \<and> frame_msg f = frame_msg (ring_slot r 0) \<and> fr_len f \<le> 496"

lemma pop_taken:
  assumes "ring_wf r" and "frame_wf s" and "plc_spsc_pop r s 496 = (st, r', f)"
  shows "frame_wf f \<and> (st = PLC_OK \<longrightarrow> taken_from f r) \<and> st \<in> {PLC_OK, PLC_ERR_AGAIN, PLC_ERR_PROTO}"
proof (cases "st = PLC_OK")
  case True
  with pop_outcome [OF assms] have c: "count r \<noteq> 0" "fr_len (ring_slot r 0) \<le> 496"
    by (auto simp: plc_spsc_count_def count_def unat_eq_zero split: if_splits)
  from pop_OK [OF assms(1) c _ assms(2), of 496] assms(3) c show ?thesis
    by (auto simp: taken_from_def frame_msg_def plc_spsc_count_def count_def min_def unat_eq_zero)
next
  case False
  with pop_outcome [OF assms] show ?thesis by (auto split: if_splits)
qed

lemma reply_loop_outcome:
  "reply_loop seq rs p = (r, p') \<Longrightarrow> list_all ring_wf rs \<Longrightarrow> frame_wf (px_scratch p) \<Longrightarrow>
   px_frame p p' \<and> frame_wf (px_scratch p')
   \<and> (r = Matched \<longrightarrow> fr_seq (px_scratch p') = seq \<and> (\<exists>ring \<in> set rs. taken_from (px_scratch p') ring))
   \<and> (\<forall>st. r = Missed st \<longrightarrow> st = PLC_ERR_PROTO)"
proof (induction seq rs p rule: reply_loop.induct)
  case (2 seq ring rs p)
  obtain st ring' f where pop: "plc_spsc_pop ring (px_scratch p) 496 = (st, ring', f)" by (metis prod_cases3)
  let ?p = "(map_upd (m_rsp_update (\<lambda>_. ring')) p)\<lparr>px_scratch := f\<rparr>"
  have pt: "frame_wf f" "st = PLC_OK \<Longrightarrow> taken_from f ring"
    using pop_taken [OF _ _ pop] 2(3,4) by auto
  show ?case
  proof (cases "st = PLC_OK \<and> sint (fr_seq f - seq) < 0")
    case True
    then have "reply_loop seq rs ?p = (r, p')" using 2(2) pop by simp
    with 2(1) [OF pop [symmetric] refl refl] True 2(3) pt show ?thesis
      by auto
  next
    case False
    with 2(2) pop pt show ?thesis by (auto simp: Let_def split: if_splits)
  qed
qed simp

lemma wait_loop_outcome:
  "wait_loop t0 seq ws p = (r, p') \<Longrightarrow> list_all wake_ok ws \<Longrightarrow> frame_wf (px_scratch p) \<Longrightarrow>
   px_frame p p' \<and> frame_wf (px_scratch p') \<and> r \<noteq> Queue_empty
   \<and> (r = Matched \<longrightarrow> fr_seq (px_scratch p') = seq
        \<and> (\<exists>w \<in> set ws. \<exists>ring \<in> set (wk_rings w). taken_from (px_scratch p') ring))
   \<and> (\<forall>st. r = Missed st \<longrightarrow> st \<in> {PLC_ERR_TIMEOUT, PLC_ERR_IO, PLC_ERR_PROTO})"
proof (induction t0 seq ws p rule: wait_loop.induct)
  case (2 t0 seq w ws p)
  obtain r1 p1 where rl: "reply_loop seq (wk_rings w) p = (r1, p1)" by force
  note o1 = reply_loop_outcome [OF rl]
  have "wake_ok w" and w2: "list_all wake_ok ws" using 2(3) by simp_all
  then have w: "list_all ring_wf (wk_rings w)" by (simp add: wake_ok_def)
  let ?st = "plc_sem_wait_timeout (ucast (ucast (exchange_timeout_us (px_caps p)) - (wk_now w - t0) :: u64)) (wk_sem w)"
  show ?case
  proof (cases "\<not> ucast (exchange_timeout_us (px_caps p)) \<le> wk_now w - t0 \<and> ?st = PLC_OK \<and> r1 = Queue_empty")
    case True
    then have "wait_loop t0 seq ws p1 = (r, p')" using 2(2) rl by (simp add: Let_def)
    with 2(1) [OF refl refl _ refl _ _ rl [symmetric]] True o1 w w2 2(4) show ?thesis
      by (auto intro: px_frame_trans)
  next
    case False
    with 2(2,4) rl o1 w w2 show ?thesis
      by (auto simp: Let_def split: if_splits reply.splits)
  qed
qed auto

subsection \<open>The image of one exchange\<close>

text \<open>A reply as an input image: cut or zero-extended to the window.\<close>

definition reply_image :: "plc_ipc_frame \<Rightarrow> nat \<Rightarrow> byte list" where
  "reply_image f n = fit n (take (unat (fr_len f)) (fr_data f))"

definition held_image :: "plc_failsafe_policy \<Rightarrow> eip_proxy \<Rightarrow> nat \<Rightarrow> byte list" where
  "held_image policy p n = (if policy = PLC_FAILSAFE_CLEAR then replicate n 0 else take n (px_last_good p))"

definition miss_policy :: "eip_proxy \<Rightarrow> u64 \<Rightarrow> plc_failsafe_policy" where
  "miss_policy p now =
     (if plc_staleness_age_us now (px_stale p) (px_opened_us p) \<ge> ucast (failsafe_timeout_us (px_caps p))
      then failsafe_policy (px_caps p) else PLC_FAILSAFE_HOLD)"

lemma apply_failsafe_full:
  "length lg = 496 \<Longrightarrow> unat il \<le> 496 \<Longrightarrow> length b = unat il \<Longrightarrow>
   plc_adapter_apply_failsafe pol (Some b) (Some lg) il =
     Some (if pol = PLC_FAILSAFE_CLEAR then replicate (unat il) 0 else take (unat il) lg)"
  by (auto simp: apply_failsafe_Some put_slice_def)

lemma proxy_fail_image:
  assumes "px_inv p" and "unat il \<le> 496"
  shows "\<exists>p'. (\<forall>b. length b = unat il \<longrightarrow> proxy_fail p (Some b) il reason now =
        (reason, p', Some (held_image (miss_policy p now) p (unat il))))
    \<and> px_inv p' \<and> px_caps p' = px_caps p \<and> px_last_good p' = px_last_good p \<and> px_stale p' = px_stale p
    \<and> px_next_seq p' = px_next_seq p \<and> px_opened_us p' = px_opened_us p"
  using assms
  by (intro exI [of _ "fst (snd (proxy_fail p None il reason now))"])
    (auto simp: proxy_fail_def Let_def px_inv_def apply_failsafe_full held_image_def miss_policy_def)

lemma proxy_unusable_image:
  assumes "px_inv p" and "unat il \<le> 496"
  shows "\<exists>p'. (\<forall>b. length b = unat il \<longrightarrow> proxy_unusable p (Some b) il now =
        (PLC_ERR_AGAIN, p', Some (held_image (failsafe_policy (px_caps p)) p (unat il))))
    \<and> px_inv p' \<and> px_caps p' = px_caps p \<and> px_last_good p' = px_last_good p
    \<and> px_stale p' = \<lparr>last_good_us = now, have_good = True\<rparr>
    \<and> px_next_seq p' = px_next_seq p \<and> px_opened_us p' = px_opened_us p"
  using assms
  by (intro exI [of _ "fst (snd (proxy_unusable p None il now))"])
    (auto simp: proxy_unusable_def Let_def px_inv_def apply_failsafe_full held_image_def
      plc_staleness_mark_fresh_def)

lemma accept_bytes:
  fixes il :: size_t
  assumes "frame_wf f" and "fr_len f \<le> 496" and "unat il \<le> 496" and "length b = unat il"
    and "got = (if ucast (fr_len f) < il then ucast (fr_len f) else il)"
  shows "(let bs = (if got \<noteq> 0 then put_slice 0 (get_slice 0 (unat got) (fr_data f)) b else b)
    in if got < il then put_slice (unat got) (replicate (unat (il - got)) 0) bs else bs) = reply_image f (unat il)"
proof -
  have len: "unat (fr_len f) \<le> 496" using assms(2) by (simp add: word_le_nat_alt)
  have got: "unat got = min (unat (fr_len f)) (unat il)" "got < il \<longleftrightarrow> unat (fr_len f) < unat il"
    unfolding assms(5) by (auto simp: word_less_nat_alt min_def)
  have sub: "unat (il - got) = unat il - unat got" using got(1) by (simp add: unat_sub word_le_nat_alt)
  have first: "(if got \<noteq> 0 then put_slice 0 (get_slice 0 (unat got) (fr_data f)) b else b) =
      take (unat got) (fr_data f) @ drop (unat got) b"
    using assms(1) got len by (auto simp: put_slice_def get_slice_def frame_wf_def)
  show ?thesis
    unfolding first Let_def using assms(1,4) got sub len
    by (auto simp: put_slice_def reply_image_def fit_def frame_wf_def min_def)
qed

lemma accept_account_fields:
  "px_inv (accept_account p t0 now rtt) = px_inv (p\<lparr>px_state := PLC_ADAPTER_ONLINE\<rparr>)"
  "px_caps (accept_account p t0 now rtt) = px_caps p" "px_last_good (accept_account p t0 now rtt) = px_last_good p"
  "px_stale (accept_account p t0 now rtt) = \<lparr>last_good_us = now, have_good = True\<rparr>"
  "px_state (accept_account p t0 now rtt) = PLC_ADAPTER_ONLINE"
  "px_next_seq (accept_account p t0 now rtt) = px_next_seq p"
  "px_opened_us (accept_account p t0 now rtt) = px_opened_us p"
  by (simp_all add: accept_account_def Let_def px_inv_def plc_staleness_mark_fresh_def)

lemma accept_copy_image:
  assumes "px_inv p" and "fr_len (px_scratch p) \<le> 496" and "unat il \<le> 496" and "length b = unat il"
  shows "accept_copy p (Some b) il =
    (p\<lparr>px_last_good := reply_image (px_scratch p) (unat il) @ drop (unat il) (px_last_good p)\<rparr>,
     Some (reply_image (px_scratch p) (unat il)))"
proof (cases "il = 0")
  case True
  then show ?thesis using assms(4) by (simp add: accept_copy_def Let_def reply_image_def fit_def)
next
  case False
  let ?img = "reply_image (px_scratch p) (unat il)"
  have wf: "frame_wf (px_scratch p)" "length (px_last_good p) = 496" using assms(1) by (auto simp: px_inv_def)
  have "length ?img = unat il" by (simp add: reply_image_def)
  then have "put_slice 0 (get_slice 0 (unat il) ?img) (px_last_good p) = ?img @ drop (unat il) (px_last_good p)"
    using assms(3) wf by (simp add: put_slice_def get_slice_def)
  then show ?thesis
    using False unfolding accept_copy_def Let_def [of "if ucast _ < il then _ else _"]
    by (simp only: accept_bytes [OF wf(1) assms(2-4) refl] option.case if_False Let_def [of "reply_image _ _"]) simp
qed

lemma proxy_accept_image:
  assumes "px_inv p" and "fr_len (px_scratch p) \<le> 496" and "unat il \<le> unat (input_bytes (px_caps p))"
  shows "\<exists>p'. (\<forall>b. length b = unat il \<longrightarrow> proxy_accept p (Some b) il t0 now rtt =
        (PLC_OK, p', Some (reply_image (px_scratch p) (unat il))))
    \<and> px_inv p' \<and> px_caps p' = px_caps p
    \<and> px_last_good p' = reply_image (px_scratch p) (unat il) @ drop (unat il) (px_last_good p)
    \<and> px_stale p' = \<lparr>last_good_us = now, have_good = True\<rparr> \<and> px_state p' = PLC_ADAPTER_ONLINE
    \<and> px_next_seq p' = px_next_seq p \<and> px_opened_us p' = px_opened_us p"
proof -
  let ?p = "p\<lparr>px_last_good := reply_image (px_scratch p) (unat il) @ drop (unat il) (px_last_good p)\<rparr>"
  have il: "unat il \<le> 496" using assms(1,3) by (simp add: px_inv_def)
  have "px_inv (?p\<lparr>px_state := PLC_ADAPTER_ONLINE\<rparr>)"
    using assms(1) il by (simp add: px_inv_def reply_image_def)
  then show ?thesis
    by (intro exI [of _ "accept_account ?p t0 now rtt"])
      (simp add: accept_account_fields proxy_accept_def accept_copy_image [OF assms(1,2) il])
qed

definition own_reply :: "eip_proxy \<Rightarrow> eip_env \<Rightarrow> plc_ipc_frame \<Rightarrow> bool" where
  "own_reply p e f \<longleftrightarrow> fr_seq f = px_next_seq p
     \<and> (\<exists>w \<in> set (ev_wakes e). \<exists>ring \<in> set (wk_rings w). taken_from f ring)"

definition fresh_outcome :: "eip_proxy \<Rightarrow> eip_env \<Rightarrow> nat \<Rightarrow> byte list \<Rightarrow> eip_proxy \<Rightarrow> bool" where
  "fresh_outcome p e n img p' \<longleftrightarrow>
     (\<exists>f. own_reply p e f \<and> fr_flags f AND PLC_IPC_FRAME_DATA_INVALID = 0 \<and> img = reply_image f n)
     \<and> take n (px_last_good p') = img \<and> px_state p' = PLC_ADAPTER_ONLINE
     \<and> px_stale p' = \<lparr>last_good_us = ev_end e, have_good = True\<rparr>"

definition invalid_outcome :: "eip_proxy \<Rightarrow> eip_env \<Rightarrow> nat \<Rightarrow> byte list \<Rightarrow> eip_proxy \<Rightarrow> bool" where
  "invalid_outcome p e n img p' \<longleftrightarrow>
     (\<exists>f. own_reply p e f \<and> fr_flags f AND PLC_IPC_FRAME_DATA_INVALID \<noteq> 0)
     \<and> img = held_image (failsafe_policy (px_caps p)) p n \<and> px_last_good p' = px_last_good p
     \<and> px_stale p' = \<lparr>last_good_us = ev_end e, have_good = True\<rparr>"

definition missed_outcome :: "eip_proxy \<Rightarrow> eip_env \<Rightarrow> nat \<Rightarrow> byte list \<Rightarrow> eip_proxy \<Rightarrow> bool" where
  "missed_outcome p e n img p' \<longleftrightarrow>
     img = held_image (miss_policy p (ev_end e)) p n \<and> px_last_good p' = px_last_good p
     \<and> px_stale p' = px_stale p"

lemma held_image_frame: "px_frame p q \<Longrightarrow> held_image pol q n = held_image pol p n"
  by (simp add: held_image_def px_frame_def)

lemma miss_policy_frame: "px_frame p q \<Longrightarrow> miss_policy q now = miss_policy p now"
  by (simp add: miss_policy_def px_frame_def)

lemma length_held_image: "px_inv p \<Longrightarrow> n \<le> 496 \<Longrightarrow> length (held_image pol p n) = n"
  by (simp add: held_image_def px_inv_def)

lemma px_inv_frame: "px_frame p q \<Longrightarrow> px_inv p \<Longrightarrow> frame_wf (px_scratch q) \<Longrightarrow> px_inv q"
  by (simp add: px_inv_def px_frame_def)

text \<open>The state in which the wait begins: the request is numbered and queued, old replies are gone.\<close>

definition px_sent :: "eip_proxy \<Rightarrow> plc_spsc_ring \<Rightarrow> eip_env \<Rightarrow> eip_proxy" where
  "px_sent p req e = map_upd (m_req_update (\<lambda>_. req))
     (map_upd (m_rsp_update (\<lambda>_. plc_spsc_drain (ev_rsp e))) (p\<lparr>px_next_seq := px_next_seq p + 1\<rparr>))"

lemma px_sent_facts:
  "px_frame (p\<lparr>px_next_seq := px_next_seq p + 1\<rparr>) (px_sent p req e)" "px_scratch (px_sent p req e) = px_scratch p"
  "px_inv p \<Longrightarrow> px_inv (px_sent p req e)"
  by (simp_all add: px_sent_def) (auto simp: px_inv_def map_upd_def)

lemma proxy_exchange_unfold:
  assumes "px_inv p" and "unat ol \<le> unat (output_bytes (px_caps p))" and "unat il \<le> unat (input_bytes (px_caps p))"
    and "plc_spsc_push (ev_req e) (px_next_seq p) out (ucast ol) = (st, req)"
    and "wait_loop (ev_start e) (px_next_seq p) (ev_wakes e) (px_sent p req e) = (r, q)"
  shows "proxy_exchange p out ol buf il e =
    (if st \<noteq> PLC_OK then proxy_fail (px_sent p req e) buf il PLC_ERR_TIMEOUT (ev_end e)
     else (case r of
        Missed reason \<Rightarrow> proxy_fail q buf il reason (ev_end e)
      | _ \<Rightarrow> if fr_flags (px_scratch q) AND PLC_IPC_FRAME_DATA_INVALID \<noteq> 0
             then proxy_unusable q buf il (ev_end e)
             else proxy_accept q buf il (ev_start e) (ev_end e) (ev_rtt e)))"
proof -
  obtain m where "px_map p = Some m" "px_state p \<noteq> PLC_ADAPTER_CLOSED" using assms(1) by (auto simp: px_inv_def)
  moreover have "\<not> (ucast (output_bytes (px_caps p)) < ol \<or> ucast (input_bytes (px_caps p)) < il)"
    using assms(2,3) by (simp add: word_less_nat_alt)
  ultimately show ?thesis
    using assms(4,5) by (simp add: proxy_exchange_def px_sent_def Let_def split: reply.split)
qed

definition exchange_outcome ::
  "eip_proxy \<Rightarrow> eip_env \<Rightarrow> nat \<Rightarrow> plc_status \<Rightarrow> byte list \<Rightarrow> eip_proxy \<Rightarrow> bool" where
  "exchange_outcome p e n st img p' \<longleftrightarrow>
     px_inv p' \<and> px_caps p' = px_caps p \<and> length img = n \<and> px_next_seq p' = px_next_seq p + 1
     \<and> (if st = PLC_OK then fresh_outcome p e n img p'
        else if st = PLC_ERR_AGAIN then invalid_outcome p e n img p'
        else st \<in> {PLC_ERR_TIMEOUT, PLC_ERR_IO, PLC_ERR_PROTO} \<and> missed_outcome p e n img p')"

lemma missed_exchange:
  assumes "px_inv p" and "unat il \<le> 496" and "px_frame (p\<lparr>px_next_seq := px_next_seq p + 1\<rparr>) q" and "px_inv q"
    and "reason \<in> {PLC_ERR_TIMEOUT, PLC_ERR_IO, PLC_ERR_PROTO}"
  shows "\<exists>st p' img. (\<forall>b. length b = unat il \<longrightarrow> proxy_fail q (Some b) il reason (ev_end e) = (st, p', Some img))
    \<and> exchange_outcome p e (unat il) st img p'"
proof -
  from proxy_fail_image [OF assms(4,2), of reason "ev_end e"] obtain p' where
    p': "\<And>b. length b = unat il \<Longrightarrow> proxy_fail q (Some b) il reason (ev_end e) =
          (reason, p', Some (held_image (miss_policy q (ev_end e)) q (unat il)))"
      "px_inv p'" "px_caps p' = px_caps q" "px_last_good p' = px_last_good q" "px_stale p' = px_stale q"
      "px_next_seq p' = px_next_seq q" by auto
  have eq: "held_image (miss_policy q (ev_end e)) q (unat il) = held_image (miss_policy p (ev_end e)) p (unat il)"
    using assms(3) by (simp add: held_image_def miss_policy_def px_frame_def)
  show ?thesis
    using p' assms(3,5) length_held_image [OF assms(1,2)]
    by (intro exI [of _ reason] exI [of _ p'] exI [of _ "held_image (miss_policy q (ev_end e)) q (unat il)"])
      (auto simp: exchange_outcome_def missed_outcome_def eq, auto simp: px_frame_def)
qed

lemma proxy_exchange_outcome:
  assumes inv: "px_inv p" and ok: "eip_env_ok e" and ol: "unat ol \<le> unat (output_bytes (px_caps p))"
    and il: "unat il \<le> unat (input_bytes (px_caps p))"
  shows "\<exists>st p' img. (\<forall>b. length b = unat il \<longrightarrow> proxy_exchange p out ol (Some b) il e = (st, p', Some img))
    \<and> exchange_outcome p e (unat il) st img p'"
proof -
  let ?p = "p\<lparr>px_next_seq := px_next_seq p + 1\<rparr>"
  obtain st1 req where push: "plc_spsc_push (ev_req e) (px_next_seq p) out (ucast ol) = (st1, req)" by force
  obtain r q where wl: "wait_loop (ev_start e) (px_next_seq p) (ev_wakes e) (px_sent p req e) = (r, q)" by force
  note ex = proxy_exchange_unfold [OF inv ol il push wl]
  note sent = px_sent_facts [of p req e]
  have il': "unat il \<le> 496" using inv il by (simp add: px_inv_def)
  have "frame_wf (px_scratch p)" "list_all wake_ok (ev_wakes e)" using inv ok by (auto simp: px_inv_def eip_env_ok_def)
  note out = wait_loop_outcome [OF wl this(2)] sent this
  then have fr: "px_frame ?p q" and q: "px_inv q"
    using inv by (auto intro: px_frame_trans px_inv_frame)
  show ?thesis
  proof (cases "st1 = PLC_OK \<and> r = Matched")
    case False
    then consider "st1 \<noteq> PLC_OK" | reason where "st1 = PLC_OK" "r = Missed reason"
      using out by (cases r) auto
    then show ?thesis
    proof cases
      case 1
      with missed_exchange [OF inv il' sent(1) sent(3) [OF inv], of PLC_ERR_TIMEOUT] show ?thesis
        unfolding ex by simp
    next
      case 2
      with missed_exchange [OF inv il' fr q, of reason] out show ?thesis unfolding ex by auto
    qed
  next
    case True
    define f where "f = px_scratch q"
    have own: "own_reply p e f" using out True by (auto simp: own_reply_def f_def)
    then have len: "fr_len f \<le> 496" by (auto simp: own_reply_def taken_from_def)
    have il_q: "unat il \<le> unat (input_bytes (px_caps q))" using il fr by (simp add: px_frame_def)
    show ?thesis
    proof (cases "fr_flags f AND 1 = 0")
      case valid: True
      from proxy_accept_image [OF q _ il_q, of "ev_start e" "ev_end e" "ev_rtt e"] len obtain p' where
        p': "\<And>b. length b = unat il \<Longrightarrow> proxy_accept q (Some b) il (ev_start e) (ev_end e) (ev_rtt e) =
              (PLC_OK, p', Some (reply_image f (unat il)))" "px_inv p'" "px_caps p' = px_caps q"
          "px_last_good p' = reply_image f (unat il) @ drop (unat il) (px_last_good q)"
          "px_stale p' = \<lparr>last_good_us = ev_end e, have_good = True\<rparr>" "px_state p' = PLC_ADAPTER_ONLINE"
          "px_next_seq p' = px_next_seq q"
        unfolding f_def by auto
      have "exchange_outcome p e (unat il) PLC_OK (reply_image f (unat il)) p'"
        using p' fr own valid
        by (auto simp: exchange_outcome_def fresh_outcome_def px_frame_def reply_image_def)
      with p'(1) valid True show ?thesis unfolding ex f_def by auto
    next
      case invalid: False
      from proxy_unusable_image [OF q il', of "ev_end e"] obtain p' where
        p': "\<And>b. length b = unat il \<Longrightarrow> proxy_unusable q (Some b) il (ev_end e) =
              (PLC_ERR_AGAIN, p', Some (held_image (failsafe_policy (px_caps q)) q (unat il)))"
          "px_inv p'" "px_caps p' = px_caps q" "px_last_good p' = px_last_good q"
          "px_stale p' = \<lparr>last_good_us = ev_end e, have_good = True\<rparr>" "px_next_seq p' = px_next_seq q"
        by auto
      have "held_image (failsafe_policy (px_caps q)) q (unat il) = held_image (failsafe_policy (px_caps p)) p (unat il)"
        using fr by (simp add: held_image_def px_frame_def)
      with p' fr own invalid length_held_image [OF inv il']
      have "exchange_outcome p e (unat il) PLC_ERR_AGAIN (held_image (failsafe_policy (px_caps q)) q (unat il)) p'"
        by (auto simp: exchange_outcome_def invalid_outcome_def px_frame_def)
      with p'(1) invalid True show ?thesis unfolding ex f_def by auto
    qed
  qed
qed

subsection \<open>The adapter contract\<close>

definition eip_good :: "(eip_proxy, eip_env) plc_protocol_adapter \<Rightarrow> bool" where
  "eip_good a \<longleftrightarrow> vtbl a = Some kEipVtbl \<and> px_inv (impl a)"

lemma eip_wrapper:
  "eip_good a \<Longrightarrow> out_fits ol out \<Longrightarrow>
   plc_adapter_exchange a out ol (Some b) il e =
     (case proxy_exchange (impl a) out ol (Some b) il e of (st, i, b') \<Rightarrow> (st, a\<lparr>impl := i\<rparr>, b'))"
  by (auto simp: plc_adapter_exchange_def eip_good_def kEipVtbl_def out_fits_def)

interpretation eip: io_adapter eip_good "\<lambda>a. px_caps (impl a)" eip_env_ok
proof
  fix a :: "(eip_proxy, eip_env) plc_protocol_adapter" and e st a' b' and ol il :: size_t
    and out and b1 b2 :: "byte list"
  show "plc_adapter_get_caps a = (PLC_OK, Some (px_caps (impl a)))" if "eip_good a"
    using that by (simp add: eip_good_def plc_adapter_get_caps_def kEipVtbl_def proxy_caps_def)
  assume *: "eip_good a" "eip_env_ok e" "unat ol \<le> unat (output_bytes (px_caps (impl a)))"
    "unat il \<le> unat (input_bytes (px_caps (impl a)))" "out_fits ol out"
    "length b1 = unat il" "length b2 = unat il"
    and ex: "plc_adapter_exchange a out ol (Some b1) il e = (st, a', b')"
  from *(1) have inv: "px_inv (impl a)" by (simp add: eip_good_def)
  from proxy_exchange_outcome [OF inv *(2-4), of out] obtain st0 p' img where
    p': "\<And>b. length b = unat il \<Longrightarrow> proxy_exchange (impl a) out ol (Some b) il e = (st0, p', Some img)"
      "exchange_outcome (impl a) e (unat il) st0 img p'" by blast
  with * ex show "eip_good a' \<and> px_caps (impl a') = px_caps (impl a)
      \<and> (\<exists>b. b' = Some b \<and> length b = unat il)
      \<and> plc_adapter_exchange a out ol (Some b2) il e = (st, a', b')"
    by (auto simp: eip_wrapper) (auto simp: eip_good_def exchange_outcome_def)
qed

text \<open>
  C3: The EtherNet/IP proxy always leaves a complete input image, whatever its peer does to
  the shared memory, the semaphores and the clock. There are three outcomes. A reply carrying
  this exchange's own sequence number and valid data, found in the response ring during the
  wait, is the image (cut or zero-extended), becomes the last good image, and the adapter is
  online. Such a reply flagged invalid applies the configured policy at once and counts as a
  sign of life, but never replaces the last good image. In every other case (no reply in
  time, a full request ring, a failed wait, a corrupt or unexpected frame) the last good image
  is held until the failsafe time is over, then the policy applies. The sequence number
  advances by one each time, and what the caller's buffer held is irrelevant.
\<close>

theorem eip_exchange_image:
  assumes "eip_good a" and "eip_env_ok e" and "unat ol \<le> unat (output_bytes (px_caps (impl a)))"
    and "unat il \<le> unat (input_bytes (px_caps (impl a)))" and "out_fits ol out"
  shows "\<exists>st p' img. (\<forall>b. length b = unat il \<longrightarrow>
        plc_adapter_exchange a out ol (Some b) il e = (st, a\<lparr>impl := p'\<rparr>, Some img))
    \<and> exchange_outcome (impl a) e (unat il) st img p'"
proof -
  from assms(1) have inv: "px_inv (impl a)" by (simp add: eip_good_def)
  from proxy_exchange_outcome [OF inv assms(2-4), of out] obtain st p' img where
    "\<And>b. length b = unat il \<Longrightarrow> proxy_exchange (impl a) out ol (Some b) il e = (st, p', Some img)"
    "exchange_outcome (impl a) e (unat il) st img p'" by blast
  then show ?thesis using eip_wrapper [OF assms(1,5)] by auto
qed

text \<open>An open proxy with two-byte images, and an environment in which nothing ever answers.\<close>

definition demo_proxy :: "(eip_proxy, eip_env) plc_protocol_adapter" where
  "demo_proxy = (the (eip_create True True kern_empty))\<lparr>
     impl := (impl (the (eip_create True True kern_empty)))\<lparr>
       px_state := PLC_ADAPTER_OPENING, px_map := Some eip_shm_zero, px_next_seq := 0,
       px_opened_us := 1000, px_last_good := replicate 496 7,
       px_caps := caps_zero\<lparr>input_bytes := 2, output_bytes := 2, exchange_timeout_us := 5000,
         failsafe_timeout_us := 100000, failsafe_policy := PLC_FAILSAFE_CLEAR\<rparr>\<rparr>\<rparr>"

definition silent_env :: "u64 \<Rightarrow> eip_env" where
  "silent_env now = \<lparr>ev_getenv = \<lambda>_. None, ev_config = \<lparr>g_entries = [], g_path = []\<rparr>, ev_faults = no_faults,
     ev_sem_faults = (False, False), ev_start = 2000, ev_req = ring_zero, ev_rsp = ring_zero,
     ev_wakes = [], ev_end = now, ev_rtt = now\<rparr>"

lemma demo_proxy_good:
  "eip_good demo_proxy" "unat (output_bytes (px_caps (impl demo_proxy))) = 2"
  "unat (input_bytes (px_caps (impl demo_proxy))) = 2" "px_next_seq (impl demo_proxy) = 0"
  "px_last_good (impl demo_proxy) = replicate 496 7" "exchange_timeout_us (px_caps (impl demo_proxy)) = 5000"
  by (simp_all add: demo_proxy_def eip_create_def eip_good_def px_inv_def frame_wf_def frame_zero_def)

lemma silent_env_ok: "eip_env_ok (silent_env now)"
  by (simp add: silent_env_def eip_env_ok_def)

theorem eip_exchange_image_witness:
  "\<exists>st p' img. plc_adapter_exchange demo_proxy (Some [1, 2]) 2 (Some [9, 9]) 2 (silent_env 7000) =
      (st, demo_proxy\<lparr>impl := p'\<rparr>, Some img)
    \<and> exchange_outcome (impl demo_proxy) (silent_env 7000) 2 st img p'"
  using eip_exchange_image [OF demo_proxy_good(1) silent_env_ok, of 2 2 "Some [1, 2]" 7000]
  by (auto simp: demo_proxy_good(2,3) out_fits_def)

subsection \<open>A reply in time is found\<close>

definition front_ok :: "plc_spsc_ring \<Rightarrow> bool" where
  "front_ok r \<longleftrightarrow> ring_wf r \<and> plc_spsc_count r \<noteq> 0 \<and> fr_len (ring_slot r 0) \<le> 496"

definition late :: "u32 \<Rightarrow> plc_spsc_ring \<Rightarrow> bool" where
  "late seq r \<longleftrightarrow> front_ok r \<and> sint (fr_seq (ring_slot r 0) - seq) < 0"

lemma pop_front:
  assumes "front_ok r" and "frame_wf s"
  obtains f where "plc_spsc_pop r s 496 = (PLC_OK, r\<lparr>tail := tail r + 1\<rparr>, f)" and "frame_wf f"
    and "frame_msg f = frame_msg (ring_slot r 0)"
proof -
  have "count r \<noteq> 0" "ring_wf r" "fr_len (ring_slot r 0) \<le> 496"
    using assms(1) by (auto simp: front_ok_def plc_spsc_count_def count_def unat_eq_zero)
  from pop_OK [OF this(2,1,3) _ assms(2), of 496] this(3) show ?thesis
    by (auto simp: frame_msg_def min_def intro: that)
qed

lemma reply_loop_finds:
  "list_all (late seq) lates \<Longrightarrow> front_ok r \<Longrightarrow> fr_seq (ring_slot r 0) = seq \<Longrightarrow> frame_wf (px_scratch p) \<Longrightarrow>
   \<exists>p'. reply_loop seq (lates @ r # rest) p = (Matched, p')
     \<and> frame_msg (px_scratch p') = frame_msg (ring_slot r 0)"
proof (induction lates arbitrary: p)
  case Nil
  from pop_front [OF Nil(2,4)] obtain f where
    f: "plc_spsc_pop r (px_scratch p) 496 = (PLC_OK, r\<lparr>tail := tail r + 1\<rparr>, f)"
      "frame_msg f = frame_msg (ring_slot r 0)" by metis
  then have "fr_seq f = seq" using Nil(3) by (simp add: frame_msg_def)
  with f show ?case by (simp add: Let_def)
next
  case (Cons l lates)
  from Cons.prems(1) have l: "late seq l" by simp
  then have "front_ok l" by (simp add: late_def)
  from pop_front [OF this Cons.prems(4)] obtain f where
    f: "plc_spsc_pop l (px_scratch p) 496 = (PLC_OK, l\<lparr>tail := tail l + 1\<rparr>, f)" "frame_wf f"
      "frame_msg f = frame_msg (ring_slot l 0)" by metis
  then have "sint (fr_seq f - seq) < 0" using l by (simp add: frame_msg_def late_def)
  with f Cons show ?case by (simp add: Let_def)
qed

lemma reply_image_msg: "frame_msg f = frame_msg g \<Longrightarrow> reply_image f n = reply_image g n"
  by (simp add: frame_msg_def reply_image_def)

lemma exchange_finds_reply:
  assumes "eip_good a" and "eip_env_ok e" and "unat ol \<le> unat (output_bytes (px_caps (impl a)))"
    and "unat il \<le> unat (input_bytes (px_caps (impl a)))" and "out_fits ol out" and "length b = unat il"
    and "count (ev_req e) < 4"
    and "ev_wakes e = w # ws" and "wk_now w - ev_start e < ucast (exchange_timeout_us (px_caps (impl a)))"
    and "wk_sem w = replicate n Eintr @ Posted # reports"
    and "wk_rings w = lates @ r # rest" and "list_all (late (px_next_seq (impl a))) lates"
    and "front_ok r" and "fr_seq (ring_slot r 0) = px_next_seq (impl a)"
    and "fr_flags (ring_slot r 0) AND PLC_IPC_FRAME_DATA_INVALID = 0"
  shows "\<exists>p'. plc_adapter_exchange a out ol (Some b) il e =
      (PLC_OK, a\<lparr>impl := p'\<rparr>, Some (reply_image (ring_slot r 0) (unat il)))
    \<and> px_state p' = PLC_ADAPTER_ONLINE \<and> px_inv p'"
proof -
  let ?p = "impl a"
  have inv: "px_inv ?p" using assms(1) by (simp add: eip_good_def)
  obtain st1 req where push: "plc_spsc_push (ev_req e) (px_next_seq ?p) out (ucast ol) = (st1, req)" by force
  have ol: "unat ol \<le> 496" using assms(3) inv by (simp add: px_inv_def)
  then have "unat (ucast ol :: u32) = unat ol" by (simp add: unsigned_ucast_eq take_bit_nat_eq_self)
  then have st1: "st1 = PLC_OK"
    using push assms(5,7) ol
    by (auto simp: plc_spsc_push_def plc_spsc_push_flagged_def not_full_iff out_fits_def word_less_nat_alt
        Let_def split: if_splits option.splits)
  let ?s = "px_sent ?p req e"
  note sent = px_sent_facts [of ?p req e]
  have "frame_wf (px_scratch ?s)" using sent(2) inv by (simp add: px_inv_def)
  from reply_loop_finds [OF assms(12-14) this, of rest] obtain q where
    q: "reply_loop (px_next_seq ?p) (wk_rings w) ?s = (Matched, q)"
      "frame_msg (px_scratch q) = frame_msg (ring_slot r 0)" unfolding assms(11) by blast
  have caps: "px_caps ?s = px_caps ?p" using sent(1) by (simp add: px_frame_def)
  let ?left = "ucast (ucast (exchange_timeout_us (px_caps ?p)) - (wk_now w - ev_start e) :: u64) :: u32"
  have sem: "plc_sem_wait_timeout ?left (wk_sem w) = PLC_OK"
  proof -
    have "fst (plc_sem_trywait (replicate n Eintr @ Posted # reports)) = PLC_OK" by (induction n) simp_all
    then show ?thesis by (simp add: plc_sem_wait_timeout_def assms(10) clockwait_eintr)
  qed
  have wl: "wait_loop (ev_start e) (px_next_seq ?p) (ev_wakes e) ?s = (Matched, q)"
    using assms(9) q(1) sem by (simp add: assms(8) caps Let_def)
  have "fr_flags (px_scratch q) AND 1 = 0" using q(2) assms(15) by (simp add: frame_msg_def)
  then have ex: "proxy_exchange ?p out ol buf il e = proxy_accept q buf il (ev_start e) (ev_end e) (ev_rtt e)" for buf
    using proxy_exchange_unfold [OF inv assms(3,4) push wl] st1 by simp
  from wait_loop_outcome [OF wl] assms(2) inv sent have fr: "px_frame ?s q" "frame_wf (px_scratch q)"
    by (auto simp: eip_env_ok_def px_inv_def)
  then have "px_inv q" using sent(3) [OF inv] by (auto intro: px_inv_frame)
  moreover have "fr_len (px_scratch q) \<le> 496"
    using wait_loop_outcome [OF wl] assms(2) inv sent by (auto simp: eip_env_ok_def px_inv_def taken_from_def)
  moreover have "unat il \<le> unat (input_bytes (px_caps q))" using fr(1) caps assms(4) by (simp add: px_frame_def)
  ultimately show ?thesis
    using proxy_accept_image [of q il "ev_start e" "ev_end e" "ev_rtt e"] assms(6) reply_image_msg [OF q(2)]
    by (auto simp: eip_wrapper [OF assms(1,5)] ex)
qed


text \<open>One wake-up, after a signal, with a late reply numbered $2^{32}-1$ before the reply numbered 0.\<close>

definition demo_ring :: "u32 \<Rightarrow> plc_spsc_ring" where
  "demo_ring seq = ring_zero\<lparr>head := 1,
     slots := replicate 4 (filled frame_zero seq 0 [3, 4])\<rparr>"

definition answering_env :: eip_env where
  "answering_env = (silent_env 4000)\<lparr>ev_wakes :=
     [\<lparr>wk_now = 3000, wk_sem = [Eintr, Posted], wk_rings = [demo_ring 0xFFFFFFFF, demo_ring 0]\<rparr>]\<rparr>"

lemma demo_ring_facts:
  "front_ok (demo_ring seq)" "fr_seq (ring_slot (demo_ring seq) 0) = seq"
  "fr_flags (ring_slot (demo_ring seq) 0) = 0" "reply_image (ring_slot (demo_ring seq) 0) 2 = [3, 4]"
proof -
  have f: "frame_wf (filled frame_zero seq 0 [3, 4])" "fr_len (filled frame_zero seq 0 [3, 4]) \<le> 496"
    "frame_msg (filled frame_zero seq 0 [3, 4]) = (seq, 0, [3, 4])"
    using filled_facts [of frame_zero "[3, 4]" seq 0] by (simp_all add: frame_wf_def frame_zero_def)
  have slot: "ring_slot (demo_ring seq) 0 = filled frame_zero seq 0 [3, 4]"
    by (simp add: ring_slot_def demo_ring_def ring_zero_def idx_def)
  have "ring_wf (demo_ring seq)" using f(1) by (simp add: demo_ring_def ring_wf_def list_all_iff)
  moreover have "plc_spsc_count (demo_ring seq) \<noteq> 0" by (simp add: plc_spsc_count_def demo_ring_def ring_zero_def)
  ultimately show "front_ok (demo_ring seq)" using f(2) by (simp add: front_ok_def slot)
  show "fr_seq (ring_slot (demo_ring seq) 0) = seq" "fr_flags (ring_slot (demo_ring seq) 0) = 0"
    "reply_image (ring_slot (demo_ring seq) 0) 2 = [3, 4]"
    using f(3) by (simp_all add: slot frame_msg_def reply_image_def fit_def)
qed

lemma answering_env_ok: "eip_env_ok answering_env"
  using demo_ring_facts(1)
  by (simp add: answering_env_def silent_env_def eip_env_ok_def wake_ok_def front_ok_def)


subsection \<open>Opening and closing\<close>

lemma sem_kern_frame:
  "open_fds (plc_sem_close s nm ow k) = open_fds k" "mapped (plc_sem_close s nm ow k) = mapped k"
  "shm_names (plc_sem_close s nm ow k) = shm_names k"
  by (simp_all add: plc_sem_close_def split: option.split)

lemma create_sems_frame:
  assumes "create_sems sf f p = (st, p')"
  shows "px_shm p' = px_shm p \<and> px_state p' = px_state p \<and> px_scratch p' = px_scratch p
    \<and> px_instance p' = px_instance p
    \<and> open_fds (px_kern p') = open_fds (px_kern p) \<and> mapped (px_kern p') = mapped (px_kern p)
    \<and> shm_names (px_kern p') = shm_names (px_kern p) \<and> shm_objs (px_kern p') = shm_objs (px_kern p)"
  using assms by (auto simp: create_sems_def plc_sem_create_def Let_def split: if_splits)

lemma instance_of_bounds: "instance_of cfg \<noteq> [] \<and> length (instance_of cfg) < 32"
  by (auto simp: instance_of_def nonempty_def snprintf_s_def split: option.splits if_splits)

lemma eip_names_bounds:
  assumes "s \<noteq> []" and "length s < 32"
  shows "eip_shm_name 128 s \<noteq> []" "length (eip_shm_name 128 s) < 128"
  using assms by (simp_all add: eip_shm_name_def build_exact)

text \<open>What \<open>proxy_open\<close> does after the sizes are accepted.\<close>

definition named :: "eip_proxy \<Rightarrow> plc_adapter_config \<Rightarrow> eip_proxy" where
  "named p cfg = p\<lparr>px_instance := instance_of cfg,
     px_sem_req_name := eip_sem_req_name 128 (instance_of cfg),
     px_sem_rsp_name := eip_sem_rsp_name 128 (instance_of cfg)\<rparr>"

lemma proxy_open_cases:
  assumes "px_state p = PLC_ADAPTER_CLOSED" and "proxy_open p cfg e = (st, p')"
  obtains (size) "st = PLC_ERR_INVAL" and "p' = p\<lparr>px_instance := instance_of cfg\<rparr>"
  | (shm) shm k where "st \<noteq> PLC_OK"
      and "plc_shm_create (ev_faults e) (eip_shm_name 128 (instance_of cfg)) eip_shm_bytes (px_shm p) (px_kern p) = (st, shm, k)"
      and "p' = (named p cfg)\<lparr>px_shm := shm, px_kern := k\<rparr>"
  | (sems) shm k inb outb p2 where "st \<noteq> PLC_OK"
      and "plc_shm_create (ev_faults e) (eip_shm_name 128 (instance_of cfg)) eip_shm_bytes (px_shm p) (px_kern p) = (PLC_OK, shm, k)"
      and "create_sems (ev_sem_faults e) (ev_faults e)
        ((named p cfg)\<lparr>px_shm := shm, px_kern := k, px_map := Some (fresh_map e inb outb)\<rparr>) = (st, p2)"
      and "p' = proxy_teardown p2"
  | (ok) shm k inb outb p2 where "st = PLC_OK" and "\<not> inb > 496" and "\<not> outb > 496"
      and "plc_shm_create (ev_faults e) (eip_shm_name 128 (instance_of cfg)) eip_shm_bytes (px_shm p) (px_kern p) = (PLC_OK, shm, k)"
      and "create_sems (ev_sem_faults e) (ev_faults e)
        ((named p cfg)\<lparr>px_shm := shm, px_kern := k, px_map := Some (fresh_map e inb outb)\<rparr>) = (PLC_OK, p2)"
      and "p' = p2\<lparr>px_map := Some ((fresh_map e inb outb)\<lparr>m_magic := EIP_SHM_MAGIC\<rparr>),
        px_caps := proxy_caps_of e cfg inb outb, px_stats := stats_zero, px_last_good := replicate 496 0,
        px_next_seq := 1, px_opened_us := ev_start e, px_stale := staleness_zero,
        px_state := PLC_ADAPTER_OPENING\<rparr>"
  using assms unfolding proxy_open_def Let_def
  by (auto simp: named_def split: if_splits prod.splits intro: that)

lemma teardown_kern:
  "px_kern (proxy_teardown q) = snd (plc_shm_close (px_shm q)
     (plc_sem_close (px_sem_rsp q) (Some (px_sem_rsp_name q)) True
       (plc_sem_close (px_sem_req q) (Some (px_sem_req_name q)) True (px_kern q))))"
  "px_state (proxy_teardown q) = px_state q"
  by (simp_all add: proxy_teardown_def Let_def split: prod.split)

lemma teardown_restores:
  assumes "kern_ok k0" and "plc_shm_create f (eip_shm_name 128 (instance_of cfg)) eip_shm_bytes shm0 k0 = (PLC_OK, shm, k)"
    and "px_shm q = shm" and "open_fds (px_kern q) = open_fds k" and "mapped (px_kern q) = mapped k"
  shows "open_fds (px_kern (proxy_teardown q)) = open_fds k0 \<and> mapped (px_kern (proxy_teardown q)) = mapped k0
    \<and> shm_names (px_kern (proxy_teardown q)) (eip_shm_name 128 (instance_of cfg)) = None"
  unfolding teardown_kern assms(3)
  by (rule shm_close_after_create [OF assms(1) _ assms(2)])
    (use assms(4,5) instance_of_bounds [of cfg] eip_names_bounds [of "instance_of cfg"]
      in \<open>simp_all add: sem_kern_frame eip_shm_bytes_def\<close>)


lemma cfg_u32_unset: "cfg_u32 (silent_env now) key fallback = fallback"
  by (simp add: cfg_u32_def plc_cfg_u32_def plc_cfg_str_def silent_env_def nonempty_def split: sum.split)

definition new_proxy :: eip_proxy where
  "new_proxy = impl (the (eip_create True True kern_empty))"

lemma new_proxy_facts:
  "px_state new_proxy = PLC_ADAPTER_CLOSED" "px_kern new_proxy = kern_empty" "frame_wf (px_scratch new_proxy)"
  by (simp_all add: new_proxy_def eip_create_def frame_wf_def frame_zero_def)

lemma create_on_empty: "n \<noteq> 0 \<Longrightarrow> fst (plc_shm_create no_faults name n s kern_empty) = PLC_OK"
  by (simp add: plc_shm_create_def probe_owner_def kern_empty_def no_faults_def kern_defs Let_def)

lemma create_sems_succeeds: "fst (create_sems (False, False) f p) = PLC_OK"
  by (simp add: create_sems_def plc_sem_create_def Let_def)

lemma new_proxy_opens: "fst (proxy_open new_proxy plc_adapter_config_init (silent_env now)) = PLC_OK"
proof -
  have n: "eip_shm_bytes \<noteq> 0" by (simp add: eip_shm_bytes_def)
  show ?thesis
    using create_on_empty [OF n] create_sems_succeeds
    by (simp add: proxy_open_def new_proxy_facts plc_adapter_config_init_def cfg_u32_unset Let_def split_beta)
      (simp add: silent_env_def)
qed


end
