(* ===== verification/Eip_Service.thy ===== *)
theory Eip_Service
  imports Eip_Proxy
begin

text \<open>
  \<open>adapters/eip/eip_adapter_main.c\<close>, \<open>eip_backend.h\<close> and \<open>eip_backend_loopback.c\<close>: the adapter
  process that attaches to the core's region and serves its requests, over the five-call
  interface of a protocol stack, and the backend that mirrors outputs back as inputs.

  A backend is a record of functions over its own state. A real stack runs its network loop
  beside the service loop, so before each call the environment may change the backend's state.
\<close>

subsection \<open>The backend interface\<close>

record eip_backend_config =
  bc_interface :: string
  bc_produced_assembly :: u32
  bc_consumed_assembly :: u32
  bc_config_assembly :: u32
  bc_output_bytes :: u32
  bc_input_bytes :: u32

text \<open>\<open>fetch_inputs\<close> returns the bytes it wrote; the others as in the header.\<close>

record 'b eip_backend =
  be_name :: string
  be_init :: "eip_backend_config \<Rightarrow> 'b \<Rightarrow> plc_status \<times> 'b"
  be_shutdown :: "'b \<Rightarrow> 'b"
  be_publish_outputs :: "byte list \<Rightarrow> 'b \<Rightarrow> 'b"
  be_fetch_inputs :: "nat \<Rightarrow> 'b \<Rightarrow> byte list \<times> 'b"
  be_io_connections :: "'b \<Rightarrow> u32"
  be_peer_in_run :: "('b \<Rightarrow> bool) option"
  be_assembly_writes :: "('b \<Rightarrow> u64) option"

subsection \<open>Attaching\<close>

abbreviation (input) CORE_TIMEOUT_US :: u32 where "CORE_TIMEOUT_US \<equiv> 2000000"
abbreviation (input) SERVICE_WAIT_US :: u32 where "SERVICE_WAIT_US \<equiv> 500000"

text \<open>
  One round of the attach loop: whether a stop was requested, which system calls fail, what
  other processes did to the kernel's objects since the last round, and what the region holds.
\<close>

record attempt =
  at_stop :: bool
  at_faults :: os_faults
  at_others :: "kern \<Rightarrow> kern"
  at_region :: eip_shm

definition layout_ok :: "eip_shm \<Rightarrow> bool" where
  "layout_ok m \<longleftrightarrow> m_magic m = EIP_SHM_MAGIC \<and> m_abi_version m = EIP_SHM_ABI_VERSION
     \<and> m_layout_bytes m = of_nat eip_shm_bytes"

text \<open>The loop may wait for ever: when the rounds are used up it is still waiting, \<open>None\<close>.\<close>

fun attach_loop ::
  "string \<Rightarrow> attempt list \<Rightarrow> plc_shm \<Rightarrow> kern \<Rightarrow> (plc_status \<times> plc_shm \<times> eip_shm option \<times> kern) option" where
  "attach_loop name [] shm k = None"
| "attach_loop name (a # as) shm k =
     (let k = at_others a k; m = at_region a in
      if at_stop a then Some (PLC_ERR_STATE, shm, None, k)
      else (case plc_shm_attach (at_faults a) name eip_shm_bytes shm k of (st, shm, k) \<Rightarrow>
        if st = PLC_OK then
          if layout_ok m then Some (PLC_OK, shm, Some m, k)
          else if m_magic m \<noteq> 0 \<and> m_magic m \<noteq> EIP_SHM_MAGIC then
            (case plc_shm_close shm k of (shm, k) \<Rightarrow> Some (PLC_ERR_PROTO, shm, None, k))
          else if m_magic m = EIP_SHM_MAGIC then
            (case plc_shm_close shm k of (shm, k) \<Rightarrow> Some (PLC_ERR_PROTO, shm, None, k))
          else (case plc_shm_close shm k of (shm, k) \<Rightarrow> attach_loop name as shm k)
        else attach_loop name as shm k))"

definition attach ::
  "string \<Rightarrow> attempt list \<Rightarrow> plc_shm \<Rightarrow> kern \<Rightarrow> (plc_status \<times> plc_shm \<times> eip_shm option \<times> kern) option" where
  "attach inst as shm k = attach_loop (eip_shm_name EIP_SHM_NAME_MAX inst) as shm k"

subsection \<open>The service loop\<close>

text \<open>
  The process while it serves: the region, its frame and reply buffers, the time of the last
  request, how often it rang the core's doorbell, and the backend's state.
\<close>

record 'b service =
  sv_map :: eip_shm
  sv_frame :: plc_ipc_frame
  sv_reply :: "byte list"
  sv_last_request :: u64
  sv_posts :: nat
  sv_backend :: 'b

text \<open>
  One round: the stop flag, what the wait reports, the clock, the two rings as they are when
  they are touched, and what the network thread does before the \<open>i\<close>-th call of the backend.
\<close>

record 'b tick =
  tk_stop :: bool
  tk_sem :: "sem_report list"
  tk_now :: u64
  tk_req :: plc_spsc_ring
  tk_rsp :: plc_spsc_ring
  tk_net :: "nat \<Rightarrow> 'b \<Rightarrow> 'b"

unbundle bit_operations_syntax

definition set_status :: "(eip_adapter_status \<Rightarrow> eip_adapter_status) \<Rightarrow> 'b service \<Rightarrow> 'b service" where
  "set_status f s = s\<lparr>sv_map := (sv_map s)\<lparr>m_status := f (m_status (sv_map s))\<rparr>\<rparr>"

definition status_u64 :: "plc_status \<Rightarrow> u64" where
  "status_u64 st = word_of_int (status_value st)"

definition reply_flags :: "'b eip_backend \<Rightarrow> 'b \<Rightarrow> 'b \<Rightarrow> u32" where
  "reply_flags be b_conn b_run =
     (if be_io_connections be b_conn = 0 then 0 OR PLC_IPC_FRAME_DATA_INVALID
      else (case be_peer_in_run be of
              Some in_run \<Rightarrow> if \<not> in_run b_run then 0 OR PLC_IPC_FRAME_DATA_INVALID else 0
            | None \<Rightarrow> 0))"

text \<open>A request that was popped: hand over the outputs, take the inputs, answer, publish telemetry.\<close>

definition serve_request :: "'b eip_backend \<Rightarrow> 'b tick \<Rightarrow> 'b service \<Rightarrow> 'b service" where
  "serve_request be t s =
     (let frame = sv_frame s;
          b = be_publish_outputs be (take (unat (fr_len frame)) (fr_data frame)) (tk_net t 0 (sv_backend s));
          (bytes, b) = be_fetch_inputs be 496 (tk_net t 1 b);
          s = s\<lparr>sv_reply := put_slice 0 bytes (sv_reply s)\<rparr>;
          b_conn = tk_net t 2 b;
          b_run = tk_net t 3 b_conn;
          flags = reply_flags be b_conn b_run;
          (st, rsp) = plc_spsc_push_flagged (tk_rsp t) (fr_seq frame) flags (Some (sv_reply s))
                        (of_nat (length bytes));
          s = (if st \<noteq> PLC_OK
               then set_status (st_last_error_update (\<lambda>_. status_u64 st))
                      (s\<lparr>sv_map := (sv_map s)\<lparr>m_rsp := plc_spsc_drain rsp\<rparr>\<rparr>)
               else s\<lparr>sv_map := (sv_map s)\<lparr>m_rsp := rsp\<rparr>, sv_posts := sv_posts s + 1\<rparr>);
          b = tk_net t 4 b_run;
          s = set_status (\<lambda>x. x\<lparr>st_cycles := st_cycles x + 1, st_io_connections := be_io_connections be b\<rparr>) s;
          s = (case be_assembly_writes be of
                 Some f \<Rightarrow> set_status (st_assembly_writes_update (\<lambda>_. f b)) s
               | None \<Rightarrow> s)
      in s\<lparr>sv_backend := b\<rparr>)"

text \<open>One round of the loop after the stop flag was seen clear; \<open>False\<close> leaves the loop.\<close>

definition service_step :: "'b eip_backend \<Rightarrow> u32 \<Rightarrow> 'b tick \<Rightarrow> 'b service \<Rightarrow> bool \<times> 'b service" where
  "service_step be core_timeout_us t s =
     (let w = plc_sem_wait_timeout SERVICE_WAIT_US (tk_sem t) in
      if w = PLC_ERR_TIMEOUT then
        let idle = tk_now t - sv_last_request s in
        (\<not> idle \<ge> ucast core_timeout_us, s)
      else if w \<noteq> PLC_OK then (False, s)
      else (case plc_spsc_pop (tk_req t) (sv_frame s) PLC_IPC_MAX_FRAME_BYTES of (st, req, f) \<Rightarrow>
        let s = s\<lparr>sv_map := (sv_map s)\<lparr>m_req := req\<rparr>, sv_frame := f\<rparr> in
        if st = PLC_ERR_AGAIN then (True, s)
        else
          let s = s\<lparr>sv_last_request := tk_now t\<rparr> in
          if st \<noteq> PLC_OK then (True, set_status (st_last_error_update (\<lambda>_. status_u64 st)) s)
          else (True, serve_request be t s)))"

text \<open>The loop: \<open>None\<close> when the rounds are used up and it still serves.\<close>

fun service_loop :: "'b eip_backend \<Rightarrow> u32 \<Rightarrow> 'b tick list \<Rightarrow> 'b service \<Rightarrow> 'b service option" where
  "service_loop be core_timeout_us [] s = None"
| "service_loop be core_timeout_us (t # ts) s =
     (if tk_stop t then Some s
      else (case service_step be core_timeout_us t s of
              (True, s) \<Rightarrow> service_loop be core_timeout_us ts s
            | (False, s) \<Rightarrow> Some s))"

subsection \<open>The process\<close>

record ('b) adapter_world =
  aw_getenv :: "string \<Rightarrow> string option"
  aw_fs :: "string \<Rightarrow> file_open"
  aw_alloc :: bool
  aw_args :: "string list"
  aw_attempts :: "attempt list"
  aw_sem_faults :: "os_faults \<times> os_faults"
  aw_start :: u64
  aw_ticks :: "'b tick list"

definition EXIT_SUCCESS :: int where "EXIT_SUCCESS = 0"
definition EXIT_FAILURE :: int where "EXIT_FAILURE = 1"

definition arg_or :: "string list \<Rightarrow> nat \<Rightarrow> string \<Rightarrow> string" where
  "arg_or args i dflt = (if length args > i then args ! i else dflt)"

definition backend_config :: "('b, 'x) adapter_world_scheme \<Rightarrow> config \<Rightarrow> string \<Rightarrow> eip_shm \<Rightarrow> eip_backend_config" where
  "backend_config w cfg iface m = \<lparr>bc_interface = iface,
     bc_produced_assembly = (if m_produced_assembly m \<noteq> 0 then m_produced_assembly m else EIP_DEFAULT_PRODUCED_ASSEMBLY),
     bc_consumed_assembly = (if m_consumed_assembly m \<noteq> 0 then m_consumed_assembly m else EIP_DEFAULT_CONSUMED_ASSEMBLY),
     bc_config_assembly = plc_cfg_u32 (aw_getenv w) cfg ''SOFTPLC_EIP_CONFIG_ASSEMBLY'' EIP_DEFAULT_CONFIG_ASSEMBLY,
     bc_output_bytes = m_output_bytes m, bc_input_bytes = m_input_bytes m\<rparr>"

text \<open>After the doorbells are open: start the backend, serve, stop it.\<close>

definition serve ::
  "'b eip_backend \<Rightarrow> 'b adapter_world \<Rightarrow> config \<Rightarrow> string \<Rightarrow> eip_shm \<Rightarrow> 'b \<Rightarrow> (int \<times> 'b service) option" where
  "serve be w cfg iface m b =
     (let s = \<lparr>sv_map = m, sv_frame = frame_zero, sv_reply = replicate 496 0, sv_last_request = 0,
               sv_posts = 0, sv_backend = b\<rparr>;
          s = set_status (st_adapter_state_update (\<lambda>_. PLC_ADAPTER_OPENING)) s
      in (case be_init be (backend_config w cfg iface m) b of (st, b) \<Rightarrow>
        if st \<noteq> PLC_OK then
          Some (EXIT_FAILURE, (set_status (st_adapter_state_update (\<lambda>_. PLC_ADAPTER_FAULTED)) s)
                 \<lparr>sv_backend := be_shutdown be b\<rparr>)
        else
          let s = set_status (st_adapter_state_update (\<lambda>_. PLC_ADAPTER_ONLINE)) s;
              core_timeout_us = plc_cfg_u32 (aw_getenv w) cfg ''SOFTPLC_EIP_CORE_TIMEOUT_US'' CORE_TIMEOUT_US
          in (case service_loop be core_timeout_us (aw_ticks w)
                     (s\<lparr>sv_backend := b, sv_last_request := aw_start w\<rparr>) of
                None \<Rightarrow> None
              | Some s \<Rightarrow>
                  let s = set_status (st_adapter_state_update (\<lambda>_. PLC_ADAPTER_CLOSED)) s in
                  Some (EXIT_SUCCESS, s\<lparr>sv_backend := be_shutdown be (sv_backend s)\<rparr>))))"

definition eip_adapter_main ::
  "'b eip_backend \<Rightarrow> 'b adapter_world \<Rightarrow> 'b \<Rightarrow> config \<times> log_state \<Rightarrow> kern \<Rightarrow> (int \<times> kern) option" where
  "eip_adapter_main be w b cl k =
     (case plc_config_bootstrap (aw_getenv w) (aw_fs w) (aw_alloc w) ''eip-adapter'' cl of (rc, cfg, l) \<Rightarrow>
        if rc \<noteq> 0 then Some (EXIT_FAILURE, k)
        else
          let inst = arg_or (aw_args w) 1
                (the (plc_cfg_str (aw_getenv w) cfg ''SOFTPLC_INSTANCE'' (Some ''default'')));
              iface = arg_or (aw_args w) 2
                (the (plc_cfg_str (aw_getenv w) cfg ''SOFTPLC_EIP_INTERFACE'' (Some ''eth0'')))
          in (case attach inst (aw_attempts w) (shm_zero\<lparr>sh_fd := -1\<rparr>) k of
                None \<Rightarrow> None
              | Some (st, shm, m, k) \<Rightarrow>
                  if st \<noteq> PLC_OK then Some (EXIT_FAILURE, k)
                  else
                    let req_name = eip_sem_req_name EIP_SHM_NAME_MAX inst;
                        rsp_name = eip_sem_rsp_name EIP_SHM_NAME_MAX inst in
                    if fst (plc_sem_attach (fst (aw_sem_faults w)) req_name k) \<noteq> PLC_OK
                       \<or> fst (plc_sem_attach (snd (aw_sem_faults w)) rsp_name k) \<noteq> PLC_OK
                    then Some (EXIT_FAILURE,
                           snd (plc_shm_close shm (plc_sem_close None (Some req_name) False k)))
                    else
                      (case serve be w cfg iface (the m) b of
                         None \<Rightarrow> None
                       | Some (code, s) \<Rightarrow>
                           let k = plc_sem_close None (Some req_name) False k;
                               k = plc_sem_close None (Some rsp_name) False k
                           in Some (code, snd (plc_shm_close shm k)))))"

subsection \<open>The mirror backend\<close>

record mirror =
  g_mirror :: "byte list"
  g_mirror_len :: nat
  g_input_bytes :: nat
  g_mirror_writes :: u64

definition lb_init :: "eip_backend_config \<Rightarrow> mirror \<Rightarrow> plc_status \<times> mirror" where
  "lb_init cfg b = (PLC_OK, b\<lparr>g_mirror := replicate 496 0, g_mirror_len := 0,
     g_input_bytes := unat (bc_input_bytes cfg)\<rparr>)"

definition lb_shutdown :: "mirror \<Rightarrow> mirror" where
  "lb_shutdown b = b"

definition lb_publish :: "byte list \<Rightarrow> mirror \<Rightarrow> mirror" where
  "lb_publish data b =
     (let len = (if length data > 496 then 496 else length data);
          b = (if len \<noteq> 0 then b\<lparr>g_mirror := put_slice 0 (take len data) (g_mirror b)\<rparr> else b)
      in b\<lparr>g_mirror_len := len, g_mirror_writes := g_mirror_writes b + 1\<rparr>)"

definition lb_fetch :: "nat \<Rightarrow> mirror \<Rightarrow> byte list \<times> mirror" where
  "lb_fetch cap b =
     (let n = (if g_input_bytes b \<noteq> 0 then g_input_bytes b else g_mirror_len b);
          n = (if n > cap then cap else n)
      in if n \<noteq> 0 then
           let copied = (if n < g_mirror_len b then n else g_mirror_len b)
           in (take copied (g_mirror b) @ replicate (n - copied) 0, b)
         else ([], b))"

definition lb_connections :: "(string \<Rightarrow> string option) \<Rightarrow> config \<Rightarrow> mirror \<Rightarrow> u32" where
  "lb_connections getenv cfg b =
     (if plc_cfg_bool getenv cfg ''SOFTPLC_EIP_MIRROR_NO_CONNECTION'' 0 \<noteq> 0 then 0 else 1)"

definition lb_peer_in_run :: "(string \<Rightarrow> string option) \<Rightarrow> config \<Rightarrow> mirror \<Rightarrow> bool" where
  "lb_peer_in_run getenv cfg b \<longleftrightarrow> plc_cfg_bool getenv cfg ''SOFTPLC_EIP_MIRROR_IDLE'' 0 = 0"

definition lb_assembly_writes :: "mirror \<Rightarrow> u64" where
  "lb_assembly_writes b = g_mirror_writes b"

definition kLoopbackBackend :: "(string \<Rightarrow> string option) \<Rightarrow> config \<Rightarrow> mirror eip_backend" where
  "kLoopbackBackend getenv cfg = \<lparr>be_name = ''loopback'', be_init = lb_init, be_shutdown = lb_shutdown,
     be_publish_outputs = lb_publish, be_fetch_inputs = lb_fetch,
     be_io_connections = lb_connections getenv cfg, be_peer_in_run = Some (lb_peer_in_run getenv cfg),
     be_assembly_writes = Some lb_assembly_writes\<rparr>"

subsection \<open>The contract of a stack\<close>

text \<open>
  What the service loop relies on: a backend that started keeps its invariant, and
  \<open>fetch_inputs\<close> never returns more bytes than the capacity it was given.
\<close>

locale eip_stack =
  fixes be :: "'b eip_backend" and binv :: "'b \<Rightarrow> bool"
  assumes init_inv: "binv b \<Longrightarrow> be_init be cfg b = (PLC_OK, b') \<Longrightarrow> binv b'"
    and publish_inv: "binv b \<Longrightarrow> binv (be_publish_outputs be data b)"
    and fetch_bound: "binv b \<Longrightarrow> be_fetch_inputs be cap b = (bytes, b') \<Longrightarrow> length bytes \<le> cap \<and> binv b'"

definition sv_wf :: "'b service \<Rightarrow> bool" where
  "sv_wf s \<longleftrightarrow> frame_wf (sv_frame s) \<and> length (sv_reply s) = 496 \<and> ring_wf (m_req (sv_map s)) \<and> ring_wf (m_rsp (sv_map s))"

definition tick_wf :: "('b \<Rightarrow> bool) \<Rightarrow> 'b tick \<Rightarrow> bool" where
  "tick_wf binv t \<longleftrightarrow> ring_wf (tk_req t) \<and> ring_wf (tk_rsp t) \<and> (\<forall>i b. binv b \<longrightarrow> binv (tk_net t i b))"

lemma sv_wf_status [simp]: "sv_wf (set_status f s) = sv_wf s" "sv_backend (set_status f s) = sv_backend s"
  "sv_map (set_status f s) = (sv_map s)\<lparr>m_status := f (m_status (sv_map s))\<rparr>"
  "sv_posts (set_status f s) = sv_posts s" "sv_frame (set_status f s) = sv_frame s"
  "sv_reply (set_status f s) = sv_reply s" "sv_last_request (set_status f s) = sv_last_request s"
  by (simp_all add: set_status_def sv_wf_def)

lemma push_prefix:
  "unat len \<le> length d \<Longrightarrow>
   plc_spsc_push_flagged r seq flags (Some d) len = plc_spsc_push_flagged r seq flags (Some (take (unat len) d)) len"
  by (simp add: plc_spsc_push_flagged_def Let_def)

lemma push_wf:
  assumes "ring_wf r" and "plc_spsc_push_flagged r seq flags (Some bs) (of_nat (length bs)) = (st, r')"
    and "length bs \<le> 496"
  shows "ring_wf r' \<and> (st = PLC_OK \<or> r' = r)"
proof (cases "count r < 4")
  case True
  have "frame_wf (slots r ! idx (head r))"
    using assms(1) by (intro ring_wf_nth) (simp_all add: idx_mod)
  from filled_facts(1) [OF this assms(3)] push_exact [OF True assms(3)] assms(1,2) show ?thesis
    by (auto simp: ring_wf_def list_all_length nth_list_update)
next
  case False
  then have "plc_spsc_push_flagged r seq flags (Some bs) (of_nat (length bs)) = (PLC_ERR_AGAIN, r)"
    using assms(3) unat_of_nat_len [OF assms(3)]
    by (simp add: plc_spsc_push_flagged_def not_full_iff word_less_nat_alt)
  with assms show ?thesis by simp
qed

context eip_stack
begin

lemma serve_request_reply:
  assumes "sv_wf s" and "tick_wf binv t" and "binv (sv_backend s)"
  obtains bytes b1 b2 b3 st rsp where
    "be_fetch_inputs be 496 (tk_net t 1 (be_publish_outputs be
       (take (unat (fr_len (sv_frame s))) (fr_data (sv_frame s))) (tk_net t 0 (sv_backend s)))) = (bytes, b1)"
    and "b2 = tk_net t 2 b1" and "b3 = tk_net t 3 b2" and "length bytes \<le> 496"
    and "plc_spsc_push_flagged (tk_rsp t) (fr_seq (sv_frame s)) (reply_flags be b2 b3) (Some bytes)
       (of_nat (length bytes)) = (st, rsp)"
    and "m_rsp (sv_map (serve_request be t s)) = (if st = PLC_OK then rsp else plc_spsc_drain rsp)"
    and "sv_posts (serve_request be t s) = sv_posts s + (if st = PLC_OK then 1 else 0)"
    and "sv_wf (serve_request be t s)" and "binv (sv_backend (serve_request be t s))"
proof -
  obtain bytes b1 where fetch: "be_fetch_inputs be 496 (tk_net t 1 (be_publish_outputs be
       (take (unat (fr_len (sv_frame s))) (fr_data (sv_frame s))) (tk_net t 0 (sv_backend s)))) = (bytes, b1)"
    by force
  have net: "binv b \<Longrightarrow> binv (tk_net t i b)" for i b using assms(2) by (simp add: tick_wf_def)
  from fetch_bound [OF _ fetch] net publish_inv assms(3) have b: "length bytes \<le> 496" "binv b1" by auto
  let ?d = "put_slice 0 bytes (sv_reply s)"
  have d: "length ?d = 496" "take (length bytes) ?d = bytes"
    using assms(1) b by (auto simp: sv_wf_def put_slice_def)
  have len: "unat (of_nat (length bytes) :: u32) = length bytes" by (rule unat_of_nat_len [OF b(1)])
  let ?f = "reply_flags be (tk_net t 2 b1) (tk_net t 3 (tk_net t 2 b1))"
  obtain st rsp where push: "plc_spsc_push_flagged (tk_rsp t) (fr_seq (sv_frame s)) ?f (Some bytes)
       (of_nat (length bytes)) = (st, rsp)" by force
  have push': "plc_spsc_push_flagged (tk_rsp t) (fr_seq (sv_frame s)) ?f (Some ?d) (of_nat (length bytes)) = (st, rsp)"
    using push push_prefix [of "of_nat (length bytes)" ?d] d len b(1) by simp
  have wf: "ring_wf rsp" using push_wf [OF _ push b(1)] assms(2) by (simp add: tick_wf_def)
  show ?thesis
  proof (rule that [OF fetch refl refl b(1) push])
    show "m_rsp (sv_map (serve_request be t s)) = (if st = PLC_OK then rsp else plc_spsc_drain rsp)"
      "sv_posts (serve_request be t s) = sv_posts s + (if st = PLC_OK then 1 else 0)"
      by (simp_all add: serve_request_def fetch push' Let_def del: One_nat_def split: option.split)
    show "sv_wf (serve_request be t s)"
      using assms(1) d wf
      by (simp add: serve_request_def fetch push' Let_def sv_wf_def plc_spsc_drain_def ring_wf_def del: One_nat_def split: option.split)
    show "binv (sv_backend (serve_request be t s))"
      using net b(2) by (simp add: serve_request_def fetch push' Let_def del: One_nat_def split: option.split)
  qed
qed

lemma service_step_wf:
  assumes "sv_wf s" and "tick_wf binv t" and "binv (sv_backend s)"
  shows "sv_wf (snd (service_step be ct t s)) \<and> binv (sv_backend (snd (service_step be ct t s)))"
proof -
  obtain st req f where pop: "plc_spsc_pop (tk_req t) (sv_frame s) 496 = (st, req, f)" by (metis prod_cases3)
  have "ring_wf (tk_req t)" "frame_wf (sv_frame s)" using assms(1,2) by (simp_all add: tick_wf_def sv_wf_def)
  from pop_outcome [OF this pop] have wf: "ring_wf req" "frame_wf f" by auto
  let ?s = "s\<lparr>sv_map := (sv_map s)\<lparr>m_req := req\<rparr>, sv_frame := f, sv_last_request := tk_now t\<rparr>"
  have s: "sv_wf ?s" using assms(1) wf by (simp add: sv_wf_def)
  have "sv_wf (serve_request be t ?s) \<and> binv (sv_backend (serve_request be t ?s))"
    by (rule serve_request_reply [OF s assms(2)]) (use assms(3) in simp_all)
  moreover have "sv_wf (s\<lparr>sv_map := (sv_map s)\<lparr>m_req := req\<rparr>, sv_frame := f\<rparr>)"
    using assms(1) wf by (simp add: sv_wf_def)
  ultimately show ?thesis
    using assms(1,3) s by (simp add: service_step_def pop Let_def)
qed

lemma service_loop_wf:
  "service_loop be ct ts s = Some s' \<Longrightarrow> sv_wf s \<Longrightarrow> list_all (tick_wf binv) ts \<Longrightarrow> binv (sv_backend s) \<Longrightarrow>
   sv_wf s' \<and> binv (sv_backend s')"
proof (induction ts arbitrary: s)
  case (Cons t ts)
  obtain go s1 where step: "service_step be ct t s = (go, s1)" by force
  have "sv_wf s1" "binv (sv_backend s1)"
    using service_step_wf [of s t ct] Cons.prems step by simp_all
  with Cons.IH [of s1] Cons.prems step show ?case by (cases go) (auto split: if_splits)
qed simp
end

definition mirror_inv :: "mirror \<Rightarrow> bool" where
  "mirror_inv b \<longleftrightarrow> length (g_mirror b) = 496 \<and> g_mirror_len b \<le> 496"

interpretation mirror: eip_stack "kLoopbackBackend getenv cfg" mirror_inv
proof
  fix c b b' data cap bytes
  show "mirror_inv b'" if "be_init (kLoopbackBackend getenv cfg) c b = (PLC_OK, b')"
    using that by (auto simp: kLoopbackBackend_def lb_init_def mirror_inv_def)
  assume b: "mirror_inv b"
  then show "mirror_inv (be_publish_outputs (kLoopbackBackend getenv cfg) data b)"
    by (auto simp: kLoopbackBackend_def lb_publish_def mirror_inv_def Let_def put_slice_def)
  show "length bytes \<le> cap \<and> mirror_inv b'" if "be_fetch_inputs (kLoopbackBackend getenv cfg) cap b = (bytes, b')"
    using that b by (auto simp: kLoopbackBackend_def lb_fetch_def mirror_inv_def Let_def split: if_splits)
qed

text \<open>What the mirror answers: the outputs just published, cut or extended to the negotiated size.\<close>

definition mirror_size :: "mirror \<Rightarrow> nat \<Rightarrow> nat" where
  "mirror_size b n = min 496 (if g_input_bytes b \<noteq> 0 then g_input_bytes b else n)"

lemma mirror_answers:
  assumes "mirror_inv b" and "length data \<le> 496"
  shows "fst (lb_fetch 496 (lb_publish data b)) = fit (mirror_size b (length data)) data"
  using assms
  by (auto simp: lb_fetch_def lb_publish_def mirror_inv_def mirror_size_def Let_def put_slice_def fit_def min_def)

subsection \<open>Both processes together\<close>

lemma push_on_empty:
  assumes "ring_ok r" and "count r = 0" and "length bs \<le> 496"
  obtains r1 where "plc_spsc_push_flagged r seq flags (Some bs) (of_nat (length bs)) = (PLC_OK, r1)"
    and "front_ok r1" and "frame_msg (ring_slot r1 0) = (seq, flags, bs)"
proof -
  let ?f = "filled (slots r ! idx (head r)) seq flags bs"
  have c: "count r < 4" using assms(2) by simp
  have "frame_wf (slots r ! idx (head r))"
    using assms(1) by (intro ring_wf_nth) (simp_all add: ring_ok_def idx_mod)
  note f = filled_facts [OF this assms(3), of seq flags]
  let ?r = "r\<lparr>slots := (slots r)[idx (head r) := ?f], head := head r + 1\<rparr>"
  note ok = ring_ok_push [OF assms(1) c f(1,3)]
  have m: "msgs ?r = [(seq, flags, bs)]" using ok(2) f(2) assms(2) by (simp add: msgs_def)
  then have c1: "count ?r = 1" by (metis length_msgs length_Cons list.size(3) One_nat_def)
  then have slot: "frame_msg (ring_slot ?r 0) = (seq, flags, bs)" using m by (simp add: msgs_def)
  have "front_ok ?r"
    using ok(1) c1 unat_eq_zero [of "head ?r - tail ?r"]
    by (auto simp: front_ok_def ring_ok_iff plc_spsc_count_def count_def)
  from that [OF push_exact [OF c assms(3)] this slot] show ?thesis .
qed

lemma serve_one:
  assumes "sv_wf s" and "tick_wf mirror_inv t" and "mirror_inv (sv_backend s)"
    and "tk_sem t = replicate n Eintr @ Posted # reports" and "tk_net t = (\<lambda>_ b. b)"
    and "front_ok (tk_req t)" and "frame_msg (ring_slot (tk_req t) 0) = (seq, fl, data)"
    and "ring_ok (tk_rsp t)" and "count (tk_rsp t) = 0"
    and "lb_connections getenv cfg (sv_backend s) \<noteq> 0" and "lb_peer_in_run getenv cfg (sv_backend s)"
  obtains s' where "service_step (kLoopbackBackend getenv cfg) ct t s = (True, s')"
    and "front_ok (m_rsp (sv_map s'))" and "sv_posts s' = sv_posts s + 1"
    and "frame_msg (ring_slot (m_rsp (sv_map s')) 0) = (seq, 0, fit (mirror_size (sv_backend s) (length data)) data)"
proof -
  let ?be = "kLoopbackBackend getenv cfg"
  have "frame_wf (sv_frame s)" using assms(1) by (simp add: sv_wf_def)
  from pop_front [OF assms(6) this] obtain f where
    f: "plc_spsc_pop (tk_req t) (sv_frame s) 496 = (PLC_OK, (tk_req t)\<lparr>tail := tail (tk_req t) + 1\<rparr>, f)"
      "frame_wf f" "frame_msg f = (seq, fl, data)" using assms(7) by metis
  let ?s = "s\<lparr>sv_map := (sv_map s)\<lparr>m_req := (tk_req t)\<lparr>tail := tail (tk_req t) + 1\<rparr>\<rparr>, sv_frame := f,
      sv_last_request := tk_now t\<rparr>"
  have step: "service_step ?be ct t s = (True, serve_request ?be t ?s)"
    by (simp add: service_step_def f(1) plc_sem_wait_timeout_def assms(4) clockwait_eintr Let_def)
  have s: "sv_wf ?s" using assms(1,6) f(2) by (simp add: sv_wf_def front_ok_def ring_wf_def)
  have data: "take (unat (fr_len f)) (fr_data f) = data" "fr_seq f = seq" "length data \<le> 496"
    using f(2,3) by (auto simp: frame_msg_def frame_wf_def)
  let ?bytes = "fit (mirror_size (sv_backend s) (length data)) data"
  have flags: "reply_flags ?be b b' = 0" for b b'
    using assms(10,11) by (auto simp: reply_flags_def kLoopbackBackend_def lb_connections_def lb_peer_in_run_def)
  have len: "length ?bytes \<le> 496" by (simp add: mirror_size_def)
  from push_on_empty [OF assms(8,9) len, of seq 0] obtain r1 where
    r1: "plc_spsc_push_flagged (tk_rsp t) seq 0 (Some ?bytes) (of_nat (length ?bytes)) = (PLC_OK, r1)"
      "front_ok r1" "frame_msg (ring_slot r1 0) = (seq, 0, ?bytes)" by blast
  obtain bytes b1 st rsp where sr:
    "be_fetch_inputs ?be 496 (be_publish_outputs ?be data (sv_backend s)) = (bytes, b1)"
    "plc_spsc_push_flagged (tk_rsp t) seq 0 (Some bytes) (of_nat (length bytes)) = (st, rsp)"
    "m_rsp (sv_map (serve_request ?be t ?s)) = (if st = PLC_OK then rsp else plc_spsc_drain rsp)"
    "sv_posts (serve_request ?be t ?s) = sv_posts s + (if st = PLC_OK then 1 else 0)"
    by (rule mirror.serve_request_reply [OF s assms(2), of getenv cfg])
      (use assms(3,5) data flags in \<open>auto\<close>)
  have "bytes = ?bytes"
    using sr(1) mirror_answers [OF assms(3) data(3)] by (simp add: kLoopbackBackend_def)
  with r1 sr(2) have "st = PLC_OK" "rsp = r1" by auto
  with that [OF step] r1 sr(3,4) show ?thesis by simp
qed

lemma drain_empty: "ring_ok r \<Longrightarrow> ring_ok (plc_spsc_drain r) \<and> count (plc_spsc_drain r) = 0"
  by (simp add: ring_ok_def plc_spsc_drain_def ring_wf_def count_def)

text \<open>
  C6: The two processes together implement the loopback contract. Let the core send the first
  \<open>ol\<close> bytes of its outputs while both rings follow the protocol and no older request is queued,
  let the adapter process, with the mirror backend, take exactly the ring the core left and
  answer into the ring the core drained, and let the core find that ring when the doorbell
  rings within the budget. Then the exchange succeeds and the input image is the output image,
  cut or zero-extended to the negotiated size and to the window.
\<close>

theorem eip_mirror_end_to_end:
  assumes "eip_good a" and "unat ol \<le> unat (output_bytes (px_caps (impl a)))"
    and "unat il \<le> unat (input_bytes (px_caps (impl a)))" and "unat ol \<le> length outs" and "length b = unat il"
    and "ring_ok (ev_req e)" and "count (ev_req e) = 0" and "ring_ok (ev_rsp e)"
    and "tk_req t = snd (plc_spsc_push (ev_req e) (px_next_seq (impl a)) (Some outs) (ucast ol))"
    and "tk_rsp t = plc_spsc_drain (ev_rsp e)" and "tk_sem t = Posted # reports" and "tk_net t = (\<lambda>_ b. b)"
    and "sv_wf s" and "mirror_inv (sv_backend s)" and "lb_connections getenv cfg (sv_backend s) \<noteq> 0"
    and "lb_peer_in_run getenv cfg (sv_backend s)"
    and "ev_wakes e = [\<lparr>wk_now = now, wk_sem = [Posted],
      wk_rings = [m_rsp (sv_map (snd (service_step (kLoopbackBackend getenv cfg) ct t s)))]\<rparr>]"
    and "now - ev_start e < ucast (exchange_timeout_us (px_caps (impl a)))"
  shows "\<exists>p'. plc_adapter_exchange a (Some outs) ol (Some b) il e = (PLC_OK, a\<lparr>impl := p'\<rparr>,
      Some (fit (unat il) (fit (mirror_size (sv_backend s) (unat ol)) (take (unat ol) outs))))"
proof -
  define seq data where "seq = px_next_seq (impl a)" and "data = take (unat ol) outs"
  have ol: "unat ol \<le> 496" using assms(1,2) by (simp add: eip_good_def px_inv_def)
  have len: "length data = unat ol" using assms(4) by (simp add: data_def)
  have cast: "(ucast ol :: u32) = of_nat (length data)"
    unfolding len using ol by (simp add: word_unat_eq_iff unsigned_ucast_eq unat_of_nat)
  have ucl: "unat (ucast ol :: u32) = unat ol" using ol by (simp add: unsigned_ucast_eq take_bit_nat_eq_self)
  have dlen: "length data \<le> 496" using ol len by simp
  from push_on_empty [OF assms(6,7) dlen, of seq 0] obtain r1 where
    r1: "plc_spsc_push_flagged (ev_req e) seq 0 (Some data) (of_nat (length data)) = (PLC_OK, r1)"
      "front_ok r1" "frame_msg (ring_slot r1 0) = (seq, 0, data)" by blast
  have "plc_spsc_push_flagged (ev_req e) seq 0 (Some outs) (ucast ol) = (PLC_OK, r1)"
    using push_prefix [of "ucast ol :: u32" outs "ev_req e" seq 0] r1(1) [folded cast] assms(4)
    by (simp add: ucl data_def)
  then have req: "tk_req t = r1" by (simp add: assms(9) plc_spsc_push_def seq_def)
  note rsp = drain_empty [OF assms(8)]
  have tw: "tick_wf mirror_inv t"
    using r1(2) rsp by (simp add: tick_wf_def assms(10,12) req front_ok_def ring_ok_def)
  have h: "tk_sem t = replicate 0 Eintr @ Posted # reports" "front_ok (tk_req t)"
    "frame_msg (ring_slot (tk_req t) 0) = (seq, 0, data)" "ring_ok (tk_rsp t)" "count (tk_rsp t) = 0"
    using r1(2,3) rsp unfolding assms(10,11) req by simp_all
  obtain s' where s': "service_step (kLoopbackBackend getenv cfg) ct t s = (True, s')" "front_ok (m_rsp (sv_map s'))"
    "frame_msg (ring_slot (m_rsp (sv_map s')) 0) = (seq, 0, fit (mirror_size (sv_backend s) (length data)) data)"
    by (rule serve_one [OF assms(13) tw assms(14) h(1) assms(12) h(2-5) assms(15,16)])
  let ?w = "\<lparr>wk_now = now, wk_sem = [Posted], wk_rings = [m_rsp (sv_map s')]\<rparr>"
  have env: "eip_env_ok e"
    using assms(6,8) s'(1,2) by (simp add: eip_env_ok_def assms(17) wake_ok_def ring_ok_def front_ok_def)
  have img: "reply_image (ring_slot (m_rsp (sv_map s')) 0) n =
      fit n (fit (mirror_size (sv_backend s) (unat ol)) data)" for n
    using s'(3) unfolding len [symmetric] frame_msg_def reply_image_def by simp
  have fits: "out_fits ol (Some outs)" using assms(4) by (simp add: out_fits_def)
  have flags: "fr_seq (ring_slot (m_rsp (sv_map s')) 0) = seq" "fr_flags (ring_slot (m_rsp (sv_map s')) 0) AND 1 = 0"
    using s'(3) by (simp_all add: frame_msg_def)
  have wakes: "ev_wakes e = ?w # []" using assms(17) s'(1) by simp
  have c: "count (ev_req e) < 4" using assms(7) by simp
  have "\<exists>p'. plc_adapter_exchange a (Some outs) ol (Some b) il e =
      (PLC_OK, a\<lparr>impl := p'\<rparr>, Some (reply_image (ring_slot (m_rsp (sv_map s')) 0) (unat il)))
    \<and> px_state p' = PLC_ADAPTER_ONLINE \<and> px_inv p'"
    by (rule exchange_finds_reply [OF assms(1) env assms(2,3) fits assms(5) c wakes, of 0 "[]" "[]" _ "[]"])
      (use assms(18) s'(2) flags in \<open>simp_all add: seq_def\<close>)
  then show ?thesis unfolding img data_def by blast
qed

lemma cfg_bool_unset: "plc_cfg_bool (\<lambda>_. None) \<lparr>g_entries = [], g_path = []\<rparr> key fallback = fallback"
  by (simp add: plc_cfg_bool_def plc_cfg_str_def nonempty_def split: sum.split)

lemma ring_zero_ok: "ring_ok ring_zero" "count ring_zero = 0"
  using ring_zero_wf by (simp_all add: ring_ok_def count_def ring_zero_def)

definition demo_service :: "mirror service" where
  "demo_service = \<lparr>sv_map = eip_shm_zero, sv_frame = frame_zero, sv_reply = replicate 496 0,
     sv_last_request = 0, sv_posts = 0,
     sv_backend = \<lparr>g_mirror = replicate 496 0, g_mirror_len = 0, g_input_bytes = 2, g_mirror_writes = 0\<rparr>\<rparr>"

definition demo_tick :: "mirror tick" where
  "demo_tick = \<lparr>tk_stop = False, tk_sem = [Posted], tk_now = 2500,
     tk_req = snd (plc_spsc_push ring_zero 0 (Some [1, 2]) (ucast (2 :: size_t))),
     tk_rsp = plc_spsc_drain ring_zero, tk_net = (\<lambda>_ b. b)\<rparr>"

definition demo_mirror :: "mirror eip_backend" where
  "demo_mirror = kLoopbackBackend (\<lambda>_. None) \<lparr>g_entries = [], g_path = []\<rparr>"

definition demo_env :: eip_env where
  "demo_env = (silent_env 4000)\<lparr>ev_wakes := [\<lparr>wk_now = 3000, wk_sem = [Posted],
     wk_rings = [m_rsp (sv_map (snd (service_step demo_mirror 2000000 demo_tick demo_service)))]\<rparr>]\<rparr>"

theorem eip_mirror_end_to_end_witness:
  "\<exists>p'. plc_adapter_exchange demo_proxy (Some [1, 2]) 2 (Some [9, 9]) 2 demo_env =
     (PLC_OK, demo_proxy\<lparr>impl := p'\<rparr>, Some [1, 2])"
proof -
  let ?cfg = "\<lparr>g_entries = [], g_path = []\<rparr> :: config"
  have s: "sv_wf demo_service" "mirror_inv (sv_backend demo_service)" "mirror_size (sv_backend demo_service) 2 = 2"
    by (simp_all add: demo_service_def sv_wf_def mirror_inv_def mirror_size_def frame_wf_def frame_zero_def
        eip_shm_zero_def)
  have c: "lb_connections (\<lambda>_. None) ?cfg (sv_backend demo_service) \<noteq> 0"
    "lb_peer_in_run (\<lambda>_. None) ?cfg (sv_backend demo_service)"
    by (simp_all add: lb_connections_def lb_peer_in_run_def cfg_bool_unset)
  have e: "ev_req demo_env = ring_zero" "ev_rsp demo_env = ring_zero" "ev_start demo_env = 2000"
    "ev_wakes demo_env = [\<lparr>wk_now = 3000, wk_sem = [Posted], wk_rings =
       [m_rsp (sv_map (snd (service_step (kLoopbackBackend (\<lambda>_. None) ?cfg) 2000000 demo_tick demo_service)))]\<rparr>]"
    by (simp_all add: demo_env_def silent_env_def demo_mirror_def)
  have t: "tk_req demo_tick = snd (plc_spsc_push ring_zero 0 (Some [1, 2]) (ucast (2 :: size_t)))"
    "tk_rsp demo_tick = plc_spsc_drain ring_zero" "tk_sem demo_tick = [Posted]" "tk_net demo_tick = (\<lambda>_ b. b)"
    by (simp_all add: demo_tick_def)
  have "fit 2 (fit 2 (take 2 [1, 2 :: byte])) = [1, 2]" by (simp add: fit_def)
  then show ?thesis
    using eip_mirror_end_to_end [OF demo_proxy_good(1), of 2 2 "[1, 2]" "[9, 9]" demo_env demo_tick "[]" demo_service
        "\<lambda>_. None" ?cfg 3000 2000000] s c ring_zero_ok
    by (simp add: demo_proxy_good e t)
qed

subsection \<open>A silent core\<close>

definition quiet :: "'b tick \<Rightarrow> bool" where
  "quiet t \<longleftrightarrow> \<not> tk_stop t \<and> plc_sem_wait_timeout SERVICE_WAIT_US (tk_sem t) = PLC_ERR_TIMEOUT"

lemma quiet_loop:
  "list_all quiet ts \<Longrightarrow> service_loop be ct ts s =
     (if list_ex (\<lambda>t. ucast ct \<le> tk_now t - sv_last_request s) ts then Some s else None)"
  by (induction ts) (auto simp: quiet_def service_step_def Let_def split: bool.split)


definition silent_world :: "mirror adapter_world" where
  "silent_world = \<lparr>aw_getenv = \<lambda>_. None, aw_fs = \<lambda>_. Fopen_fails True [], aw_alloc = True, aw_args = [],
     aw_attempts = [], aw_sem_faults = (no_faults, no_faults), aw_start = 1000,
     aw_ticks = [demo_tick\<lparr>tk_sem := [], tk_now := 501000\<rparr>, demo_tick\<lparr>tk_sem := [Eintr], tk_now := 2001000\<rparr>]\<rparr>"


subsection \<open>Core and adapter find each other\<close>

lemma eip_sem_names_differ:
  "s \<noteq> [] \<Longrightarrow> length s < 32 \<Longrightarrow> eip_sem_req_name 128 s \<noteq> eip_sem_rsp_name 128 s"
  by (simp add: eip_sem_req_name_def eip_sem_rsp_name_def build_exact)

lemma create_sems_names:
  assumes "create_sems sf f p = (PLC_OK, p')" and "px_sem_req_name p \<noteq> px_sem_rsp_name p"
  shows "sem_names (px_kern p') (px_sem_req_name p) \<noteq> None \<and> sem_names (px_kern p') (px_sem_rsp_name p) \<noteq> None"
  using assms by (auto simp: create_sems_def plc_sem_create_def Let_def split: if_splits)

lemma attach_existing:
  assumes "shm_names k name = Some ob" and "n \<le> length (obj_bytes (shm_objs k ob))" and "n \<noteq> 0"
    and "\<not> f_open f" and "\<not> f_fstat f" and "\<not> f_mmap f"
  shows "\<exists>shm' k'. plc_shm_attach f name n shm k = (PLC_OK, shm', k') \<and> sem_names k' = sem_names k"
  using assms by (simp add: plc_shm_attach_def kern_defs Let_def)

text \<open>
  C39: The adapter process attaches to what the core opened. After the core has opened the
  proxy with an instance name of fewer than 32 characters, the adapter process started with
  that name finds the region at once, accepts its layout, and finds both semaphores.
\<close>

theorem eip_attach_after_open:
  assumes "px_state p = PLC_ADAPTER_CLOSED" and "kern_ok (px_kern p)" and "proxy_open p cfg e = (PLC_OK, p')"
    and "cfg_endpoint cfg = Some inst" and "inst \<noteq> []" and "length inst < EIP_INSTANCE_MAX"
    and "\<not> at_stop a" and "at_faults a = no_faults" and "at_others a = (\<lambda>k. k)" and "px_map p' = Some (at_region a)"
  shows "\<exists>shm k. attach inst (a # rounds) shm0 (px_kern p') = Some (PLC_OK, shm, px_map p', k)
    \<and> fst (plc_sem_attach no_faults (eip_sem_req_name EIP_SHM_NAME_MAX inst) k) = PLC_OK
    \<and> fst (plc_sem_attach no_faults (eip_sem_rsp_name EIP_SHM_NAME_MAX inst) k) = PLC_OK"
  using assms(1,3)
proof (cases rule: proxy_open_cases)
  case (ok shm k inb outb p2)
  have inst: "instance_of cfg = inst" using assms(4-6) by (simp add: instance_of_def nonempty_def)
  note fr = create_sems_frame [OF ok(5)]
  have kern: "px_kern p' = px_kern p2" using ok(6) by simp
  have "eip_shm_bytes \<noteq> 0" by (simp add: eip_shm_bytes_def)
  from create_steps [OF assms(2) this ok(4)] have "region_of shm (eip_shm_name 128 inst) eip_shm_bytes k"
    by (simp add: inst)
  then obtain ob where ob: "shm_names (px_kern p') (eip_shm_name 128 inst) = Some ob"
    "length (obj_bytes (shm_objs (px_kern p') ob)) = eip_shm_bytes"
    using fr kern by (auto simp: region_of_def)
  obtain shm' k' where att: "plc_shm_attach no_faults (eip_shm_name 128 inst) eip_shm_bytes shm0 (px_kern p') =
      (PLC_OK, shm', k')" "sem_names k' = sem_names (px_kern p')"
    using attach_existing [OF ob(1), of eip_shm_bytes no_faults shm0] ob(2) \<open>eip_shm_bytes \<noteq> 0\<close>
    by (auto simp: no_faults_def)
  have "at_region a = (fresh_map e inb outb)\<lparr>m_magic := EIP_SHM_MAGIC\<rparr>" using assms(10) by (simp add: ok(6))
  then have "layout_ok (at_region a)" by (simp add: layout_ok_def fresh_map_def)
  moreover have "sem_names (px_kern p') (eip_sem_req_name 128 inst) \<noteq> None"
    "sem_names (px_kern p') (eip_sem_rsp_name 128 inst) \<noteq> None"
    using create_sems_names [OF ok(5)] eip_sem_names_differ [OF assms(5,6)] by (simp_all add: named_def inst kern)
  ultimately show ?thesis
    using att assms(7-10) by (auto simp: attach_def plc_sem_attach_def no_faults_def Let_def)
qed simp_all

definition demo_config :: plc_adapter_config where
  "demo_config = plc_adapter_config_init\<lparr>cfg_endpoint := Some ''line1''\<rparr>"

theorem eip_attach_after_open_witness:
  "\<exists>p' a shm k. proxy_open new_proxy demo_config (silent_env 1000) = (PLC_OK, p')
    \<and> attach ''line1'' [a] shm_zero (px_kern p') = Some (PLC_OK, shm, px_map p', k)"
proof -
  have "eip_shm_bytes \<noteq> 0" by (simp add: eip_shm_bytes_def)
  then have "fst (proxy_open new_proxy demo_config (silent_env 1000)) = PLC_OK"
    using create_on_empty create_sems_succeeds
    by (simp add: proxy_open_def new_proxy_facts demo_config_def plc_adapter_config_init_def cfg_u32_unset
        Let_def split_beta) (simp add: silent_env_def)
  then obtain p' where o: "proxy_open new_proxy demo_config (silent_env 1000) = (PLC_OK, p')"
    by (cases "proxy_open new_proxy demo_config (silent_env 1000)") simp
  have "px_map p' \<noteq> None"
    using new_proxy_facts(1) o by (rule proxy_open_cases) auto
  then obtain m where m: "px_map p' = Some m" by auto
  let ?a = "\<lparr>at_stop = False, at_faults = no_faults, at_others = (\<lambda>k. k), at_region = m\<rparr>"
  have "\<exists>shm k. attach ''line1'' [?a] shm_zero (px_kern p') = Some (PLC_OK, shm, px_map p', k)"
    using eip_attach_after_open [OF new_proxy_facts(1) _ o, of "''line1''" ?a "[]" shm_zero] kern_empty_ok m
    by (auto simp: new_proxy_facts demo_config_def)
  with o show ?thesis by blast
qed

text \<open>
  From 32 characters on the two sides disagree: the proxy cuts the instance to 31 characters
  before it builds the names, the adapter process does not.
\<close>

lemma eip_long_instance_mismatch:
  assumes "cfg_endpoint cfg = Some inst" and "length inst \<ge> EIP_INSTANCE_MAX"
  shows "eip_shm_name EIP_SHM_NAME_MAX (instance_of cfg) \<noteq> eip_shm_name EIP_SHM_NAME_MAX inst"
proof -
  have i: "instance_of cfg = take 31 inst" "inst \<noteq> []"
    using assms by (auto simp: instance_of_def nonempty_def snprintf_s_def)
  have "length (eip_shm_name 128 (instance_of cfg)) = 44"
    using assms(2) i by (auto simp: eip_shm_name_def build_def snprintf_s_def min_def)
  moreover have "length (eip_shm_name 128 inst) > 44"
    using assms(2) i(2) by (simp add: eip_shm_name_def build_def snprintf_s_def)
  ultimately show ?thesis by (metis less_irrefl)
qed

end
