(* ===== verification/Opener_Backend.thy ===== *)
theory Opener_Backend
  imports Eip_Service
begin

text \<open>
  \<open>adapters/eip/eip_backend_opener.c\<close>: the target backend on OpENer. The stack runs on a thread
  of its own and calls back into this file; the service calls the backend interface. Both meet in
  two hand-off buffers under one mutex, so every call-back and every interface function is one
  step on the state.

  OpENer is a parameter: what its functions answer is an argument of \<open>opener_init\<close>, and the
  functions that are called are recorded in \<open>og_calls\<close>, oldest first. \<open>as_instance\<close> is the cast to
  OpENer's type of instance numbers. \<open>oa_clock\<close> is one reading of the clock, the low words of its
  seconds and nanoseconds.
\<close>

unbundle bit_operations_syntax

subsection \<open>State\<close>

datatype produced_or_consumed = Produced | Consumed | Config | No_buffer

datatype extended_status = In_run_mode | All_in_idle_mode

datatype opener_call =
    Create_assembly u32 produced_or_consumed u16
  | Exclusive_owner u32 u32 u32 u32
  | Input_only u32 u32 u32 u32
  | Listen_only u32 u32 u32 u32
  | Qos_callback
  | Tcpip_callback
  | Close_all_connections
  | Qos_update_used
  | Qos_reset
  | Inactivity_timeout nat
  | Set_extended_status extended_status
  | Connection_list_init
  | Set_serial_number nat
  | Cip_stack_init u16 bool
  | Set_mac
  | Get_host_name
  | Nvdata_load
  | Network_init bool
  | Network_finish
  | Shutdown_stack
  | Thread_created bool
  | Thread_joined

record opener =
  og_cfg :: eip_backend_config
  og_produced :: "byte list"
  og_consumed :: "byte list"
  og_produced_pending :: "byte list"
  og_consumed_snapshot :: "byte list"
  og_end_stack :: bool
  og_stack_running :: bool
  og_stack_initialised :: bool
  og_io_connections :: u32
  og_peer_in_run :: bool
  og_assembly_writes :: u64
  og_calls :: "opener_call list"

definition opener_zero :: opener where
  "opener_zero = \<lparr>og_cfg = \<lparr>bc_interface = [], bc_produced_assembly = 0, bc_consumed_assembly = 0,
       bc_config_assembly = 0, bc_output_bytes = 0, bc_input_bytes = 0\<rparr>,
     og_produced = replicate 496 0, og_consumed = replicate 496 0, og_produced_pending = replicate 496 0,
     og_consumed_snapshot = replicate 496 0, og_end_stack = False, og_stack_running = False,
     og_stack_initialised = False, og_io_connections = 0, og_peer_in_run = True, og_assembly_writes = 0,
     og_calls = []\<rparr>"

definition calls :: "opener_call list \<Rightarrow> opener \<Rightarrow> opener" where
  "calls cs g = g\<lparr>og_calls := og_calls g @ cs\<rparr>"

subsection \<open>Application call-backs\<close>

definition ApplicationInitialization :: "(u32 \<Rightarrow> u32) \<Rightarrow> opener \<Rightarrow> opener" where
  "ApplicationInitialization as_instance g =
     (let c = og_cfg g in calls
       [Create_assembly (as_instance (bc_produced_assembly c)) Produced (ucast (bc_output_bytes c)),
        Create_assembly (as_instance (bc_consumed_assembly c)) Consumed (ucast (bc_input_bytes c)),
        Create_assembly (as_instance (bc_config_assembly c)) Config 64,
        Create_assembly 152 No_buffer 0,
        Create_assembly 153 No_buffer 0,
        Exclusive_owner 0 (bc_consumed_assembly c) (bc_produced_assembly c) (bc_config_assembly c),
        Input_only 0 152 (bc_produced_assembly c) (bc_config_assembly c),
        Listen_only 0 153 (bc_produced_assembly c) (bc_config_assembly c),
        Qos_callback, Tcpip_callback] g)"

datatype io_connection_event = Io_opened | Io_closed | Io_timed_out

fun CheckIoConnectionEvent :: "io_connection_event \<Rightarrow> opener \<Rightarrow> opener" where
  "CheckIoConnectionEvent Io_opened g = g\<lparr>og_io_connections := og_io_connections g + 1\<rparr>"
| "CheckIoConnectionEvent Io_closed g =
     (if og_io_connections g > 0 then g\<lparr>og_io_connections := og_io_connections g - 1\<rparr> else g)"
| "CheckIoConnectionEvent Io_timed_out g =
     (if og_io_connections g > 0 then g\<lparr>og_io_connections := og_io_connections g - 1\<rparr> else g)"

definition AfterAssemblyDataReceived :: "(u32 \<Rightarrow> u32) \<Rightarrow> u32 \<Rightarrow> opener \<Rightarrow> opener" where
  "AfterAssemblyDataReceived as_instance instance_number g =
     (if instance_number = as_instance (bc_consumed_assembly (og_cfg g))
      then g\<lparr>og_consumed_snapshot := og_consumed g, og_assembly_writes := og_assembly_writes g + 1\<rparr>
      else g)"

definition BeforeAssemblyDataSend :: "(u32 \<Rightarrow> u32) \<Rightarrow> u32 option \<Rightarrow> opener \<Rightarrow> opener" where
  "BeforeAssemblyDataSend as_instance inst g =
     (case inst of
        Some instance_number \<Rightarrow>
          if instance_number = as_instance (bc_produced_assembly (og_cfg g))
          then g\<lparr>og_produced := og_produced_pending g\<rparr> else g
      | None \<Rightarrow> g)"

definition ResetDevice :: "opener \<Rightarrow> opener" where
  "ResetDevice g = calls [Close_all_connections, Qos_update_used] g"

definition ResetDeviceToInitialConfiguration :: "opener \<Rightarrow> opener" where
  "ResetDeviceToInitialConfiguration g = ResetDevice (calls [Inactivity_timeout 120, Qos_reset] g)"

definition RunIdleChanged :: "u32 \<Rightarrow> opener \<Rightarrow> opener" where
  "RunIdleChanged run_idle_value g =
     (let in_run = (run_idle_value AND 1 = 1);
          g = calls [Set_extended_status (if in_run then In_run_mode else All_in_idle_mode)] g
      in g\<lparr>og_peer_in_run := in_run\<rparr>)"

text \<open>
  What the stack thread does between two steps of the service. When a frame for an assembly has
  arrived, OpENer has written it to the assembly's buffer before it calls back: the event carries
  the buffer as it is then.
\<close>

datatype opener_event =
    Application_init
  | Connection io_connection_event
  | Data_received u32 "byte list"
  | Data_sending "u32 option"
  | Run_idle u32
  | Reset
  | Factory_reset

fun opener_callback :: "(u32 \<Rightarrow> u32) \<Rightarrow> opener_event \<Rightarrow> opener \<Rightarrow> opener" where
  "opener_callback ai Application_init g = ApplicationInitialization ai g"
| "opener_callback ai (Connection e) g = CheckIoConnectionEvent e g"
| "opener_callback ai (Data_received n buf) g = AfterAssemblyDataReceived ai n
     (if n = ai (bc_consumed_assembly (og_cfg g)) then g\<lparr>og_consumed := buf\<rparr> else g)"
| "opener_callback ai (Data_sending n) g = BeforeAssemblyDataSend ai n g"
| "opener_callback ai (Run_idle v) g = RunIdleChanged v g"
| "opener_callback ai Reset g = ResetDevice g"
| "opener_callback ai Factory_reset g = ResetDeviceToInitialConfiguration g"

subsection \<open>The backend interface\<close>

text \<open>
  What the system and the library answer to \<open>opener_init\<close>: the interface has a MAC address; the
  clock; the first number after seeding; whether the stack, the network handler and the thread
  start.
\<close>

record opener_answers =
  oa_mac :: "string \<Rightarrow> bool"
  oa_clock :: "u32 \<times> u32"
  oa_rand :: "u32 \<Rightarrow> u32"
  oa_stack :: "u16 \<Rightarrow> bool"
  oa_network :: bool
  oa_thread :: bool

definition opener_start :: "opener_answers \<Rightarrow> opener \<Rightarrow> plc_status \<times> opener" where
  "opener_start an g =
     (let unique_connection_id = ucast (oa_rand an (snd (oa_clock an) XOR fst (oa_clock an))) :: u16 in
      if \<not> oa_stack an unique_connection_id
      then (PLC_ERR_IO, calls [Cip_stack_init unique_connection_id False] g)
      else
        let g = calls [Cip_stack_init unique_connection_id True] g;
            g = g\<lparr>og_stack_initialised := True\<rparr>;
            g = calls [Set_mac, Get_host_name, Nvdata_load] g
        in if \<not> oa_network an
           then (PLC_ERR_IO, (calls [Network_init False, Shutdown_stack] g)\<lparr>og_stack_initialised := False\<rparr>)
           else
             let g = (calls [Network_init True] g)\<lparr>og_end_stack := False\<rparr> in
             if \<not> oa_thread an
             then (PLC_ERR_IO, (calls [Thread_created False, Network_finish, Shutdown_stack] g)
                     \<lparr>og_stack_initialised := False\<rparr>)
             else (PLC_OK, (calls [Thread_created True] g)\<lparr>og_stack_running := True\<rparr>))"

definition opener_init ::
  "opener_answers \<Rightarrow> eip_backend_config \<Rightarrow> opener \<Rightarrow> plc_status \<times> opener" where
  "opener_init an cfg g =
     (if bc_output_bytes cfg > PLC_IPC_MAX_FRAME_BYTES \<or> bc_input_bytes cfg > PLC_IPC_MAX_FRAME_BYTES
      then (PLC_ERR_INVAL, g)
      else
        let g = calls [Connection_list_init] (g\<lparr>og_cfg := cfg\<rparr>);
            iface = snprintf_s 16 (bc_interface cfg)
        in if \<not> oa_mac an iface then (PLC_ERR_IO, g)
           else opener_start an (calls [Set_serial_number 123456789] g))"

definition opener_shutdown :: "opener \<Rightarrow> opener" where
  "opener_shutdown g =
     (let g = g\<lparr>og_end_stack := True\<rparr>;
          g = (if og_stack_running g
               then calls [Thread_joined, Network_finish] (g\<lparr>og_stack_running := False\<rparr>) else g)
      in if og_stack_initialised g
         then (calls [Shutdown_stack] g)\<lparr>og_stack_initialised := False\<rparr> else g)"

definition opener_publish :: "byte list \<Rightarrow> opener \<Rightarrow> opener" where
  "opener_publish data g =
     (let len = (if length data > 496 then 496 else length data);
          p = og_produced_pending g;
          p = (if len \<noteq> 0 then put_slice 0 (take len data) p else p);
          p = (if len < 496 then put_slice len (replicate (496 - len) 0) p else p)
      in g\<lparr>og_produced_pending := p\<rparr>)"

definition opener_fetch :: "nat \<Rightarrow> opener \<Rightarrow> byte list \<times> opener" where
  "opener_fetch cap g =
     (let n = unat (bc_input_bytes (og_cfg g));
          n = (if n > cap then cap else n);
          n = (if n > 496 then 496 else n)
      in (take n (og_consumed_snapshot g), g))"

definition kOpenerBackend :: "opener_answers \<Rightarrow> opener eip_backend" where
  "kOpenerBackend an = \<lparr>be_name = ''opener'', be_init = opener_init an, be_shutdown = opener_shutdown,
     be_publish_outputs = opener_publish, be_fetch_inputs = opener_fetch,
     be_io_connections = og_io_connections, be_peer_in_run = Some og_peer_in_run,
     be_assembly_writes = Some og_assembly_writes\<rparr>"

subsection \<open>It is a stack\<close>

definition og_inv :: "opener \<Rightarrow> bool" where
  "og_inv g \<longleftrightarrow> length (og_produced g) = 496 \<and> length (og_consumed g) = 496
     \<and> length (og_produced_pending g) = 496 \<and> length (og_consumed_snapshot g) = 496"

lemma calls_fields [simp]:
  "og_cfg (calls cs g) = og_cfg g" "og_produced (calls cs g) = og_produced g"
  "og_consumed (calls cs g) = og_consumed g" "og_produced_pending (calls cs g) = og_produced_pending g"
  "og_consumed_snapshot (calls cs g) = og_consumed_snapshot g" "og_stack_running (calls cs g) = og_stack_running g"
  "og_stack_initialised (calls cs g) = og_stack_initialised g" "og_calls (calls cs g) = og_calls g @ cs"
  "og_io_connections (calls cs g) = og_io_connections g" "og_peer_in_run (calls cs g) = og_peer_in_run g"
  "og_end_stack (calls cs g) = og_end_stack g"
  by (simp_all add: calls_def)

lemma publish_pending:
  "og_inv g \<Longrightarrow> opener_publish data g = g\<lparr>og_produced_pending := fit 496 data\<rparr>"
  by (auto simp: opener_publish_def Let_def og_inv_def put_slice_def fit_def)

interpretation target: eip_stack "kOpenerBackend an" og_inv
proof
  fix c b b' data cap bytes
  assume b: "og_inv b"
  show "og_inv b'" if "be_init (kOpenerBackend an) c b = (PLC_OK, b')"
    using that b by (auto simp: kOpenerBackend_def opener_init_def opener_start_def
        og_inv_def Let_def split: if_splits)
  show "og_inv (be_publish_outputs (kOpenerBackend an) data b)"
    using b by (simp add: kOpenerBackend_def publish_pending) (simp add: og_inv_def)
  show "length bytes \<le> cap \<and> og_inv b'" if "be_fetch_inputs (kOpenerBackend an) cap b = (bytes, b')"
    using that b by (auto simp: kOpenerBackend_def opener_fetch_def Let_def)
qed

subsection \<open>Properties\<close>

text \<open>The service and the stack thread, interleaved in any order.\<close>

datatype opener_act = Publish "byte list" | Fetch nat | Callback opener_event

fun opener_do :: "(u32 \<Rightarrow> u32) \<Rightarrow> opener_act \<Rightarrow> opener \<Rightarrow> opener" where
  "opener_do ai (Publish data) g = opener_publish data g"
| "opener_do ai (Fetch cap) g = snd (opener_fetch cap g)"
| "opener_do ai (Callback e) g = opener_callback ai e g"

text \<open>The buffers a call-back carries are whole assembly buffers.\<close>

fun act_ok :: "opener_act \<Rightarrow> bool" where
  "act_ok (Callback (Data_received n buf)) = (length buf = 496)"
| "act_ok _ = True"

fun publishes :: "opener_act \<Rightarrow> bool" where
  "publishes (Publish data) = True"
| "publishes _ = False"

fun sends :: "u32 \<Rightarrow> opener_act \<Rightarrow> bool" where
  "sends n (Callback (Data_sending m)) = (m = Some n)"
| "sends n _ = False"

fun receives :: "u32 \<Rightarrow> opener_act \<Rightarrow> bool" where
  "receives n (Callback (Data_received m buf)) = (m = n)"
| "receives n _ = False"

lemma callback_fields:
  "og_cfg (opener_callback ai e g) = og_cfg g"
  "og_produced_pending (opener_callback ai e g) = og_produced_pending g"
  "\<not> sends (ai (bc_produced_assembly (og_cfg g))) (Callback e) \<Longrightarrow> og_produced (opener_callback ai e g) = og_produced g"
  "\<not> receives (ai (bc_consumed_assembly (og_cfg g))) (Callback e) \<Longrightarrow>
     og_consumed_snapshot (opener_callback ai e g) = og_consumed_snapshot g"
  "act_ok (Callback e) \<Longrightarrow> og_inv g \<Longrightarrow> og_inv (opener_callback ai e g)"
proof -
  have "og_cfg (CheckIoConnectionEvent c g) = og_cfg g
      \<and> og_produced_pending (CheckIoConnectionEvent c g) = og_produced_pending g
      \<and> og_produced (CheckIoConnectionEvent c g) = og_produced g
      \<and> og_consumed_snapshot (CheckIoConnectionEvent c g) = og_consumed_snapshot g
      \<and> og_consumed (CheckIoConnectionEvent c g) = og_consumed g" for c by (cases c) simp_all
  note defs = this ApplicationInitialization_def AfterAssemblyDataReceived_def BeforeAssemblyDataSend_def
    ResetDevice_def ResetDeviceToInitialConfiguration_def RunIdleChanged_def Let_def og_inv_def
  show "og_cfg (opener_callback ai e g) = og_cfg g"
    "og_produced_pending (opener_callback ai e g) = og_produced_pending g"
    by (cases e; simp add: defs split: option.split)+
  show "og_produced (opener_callback ai e g) = og_produced g" if "\<not> sends (ai (bc_produced_assembly (og_cfg g))) (Callback e)"
    using that by (cases e) (simp_all add: defs split: option.split)
  show "og_consumed_snapshot (opener_callback ai e g) = og_consumed_snapshot g"
    if "\<not> receives (ai (bc_consumed_assembly (og_cfg g))) (Callback e)"
    using that by (cases e) (simp_all add: defs split: option.split)
  show "og_inv (opener_callback ai e g)" if "act_ok (Callback e)" "og_inv g"
    using that by (cases e) (simp_all add: defs split: option.split)
qed

lemma act_fields:
  assumes "og_inv g" and "act_ok a"
  shows "og_cfg (opener_do ai a g) = og_cfg g" and "og_inv (opener_do ai a g)"
    and "\<not> publishes a \<Longrightarrow> og_produced_pending (opener_do ai a g) = og_produced_pending g"
    and "\<not> sends (ai (bc_produced_assembly (og_cfg g))) a \<Longrightarrow> og_produced (opener_do ai a g) = og_produced g"
    and "\<not> receives (ai (bc_consumed_assembly (og_cfg g))) a \<Longrightarrow>
      og_consumed_snapshot (opener_do ai a g) = og_consumed_snapshot g"
  using assms
  by (cases a; simp add: callback_fields publish_pending opener_fetch_def Let_def; simp add: og_inv_def)+

lemma acts_fields:
  assumes "og_inv g" and "list_all act_ok as"
  shows "og_cfg (fold (opener_do ai) as g) = og_cfg g \<and> og_inv (fold (opener_do ai) as g)
    \<and> (list_all (\<lambda>a. \<not> publishes a) as \<longrightarrow>
        og_produced_pending (fold (opener_do ai) as g) = og_produced_pending g)
    \<and> (list_all (\<lambda>a. \<not> sends (ai (bc_produced_assembly (og_cfg g))) a) as \<longrightarrow>
        og_produced (fold (opener_do ai) as g) = og_produced g)
    \<and> (list_all (\<lambda>a. \<not> receives (ai (bc_consumed_assembly (og_cfg g))) a) as \<longrightarrow>
        og_consumed_snapshot (fold (opener_do ai) as g) = og_consumed_snapshot g)"
  using assms
proof (induction as arbitrary: g)
  case (Cons a as)
  have "og_inv (opener_do ai a g)" using Cons.prems act_fields(2) by simp
  from Cons.IH [OF this] Cons.prems act_fields [of g a ai] show ?case by auto
qed simp

text \<open>
  C11: The hand-off between the service and OpENer's thread moves whole images. Whatever else the
  two threads do in between, and in any order: what OpENer finds in its produced assembly is the
  image published last before the assembly was last announced for sending, cut or zero-extended
  to the buffer, and stays that until the next announcement; and what the service fetches is the
  beginning of the consumed assembly as it was when data for it was last received.
\<close>

theorem opener_images_whole:
  assumes "og_inv g" and "list_all act_ok (as @ bs @ cs)" and "list_all (\<lambda>a. \<not> publishes a) bs"
    and "list_all (\<lambda>a. \<not> sends (ai (bc_produced_assembly (og_cfg g))) a) cs"
    and "list_all act_ok (ds @ es)"
    and "list_all (\<lambda>a. \<not> receives (ai (bc_consumed_assembly (og_cfg g))) a) es"
    and "length buf = 496"
  shows "og_produced (fold (opener_do ai) (as @ Publish data # bs
        @ Callback (Data_sending (Some (ai (bc_produced_assembly (og_cfg g))))) # cs) g) = fit 496 data
    \<and> fst (opener_fetch cap (fold (opener_do ai) (ds
        @ Callback (Data_received (ai (bc_consumed_assembly (og_cfg g))) buf) # es) g)) =
      take (min cap (unat (bc_input_bytes (og_cfg g)))) buf"
proof
  let ?run = "fold (opener_do ai)" and ?p = "ai (bc_produced_assembly (og_cfg g))"
  define g1 where "g1 = opener_publish data (?run as g)"
  have a: "og_inv (?run as g)" "og_cfg (?run as g) = og_cfg g"
    using acts_fields [OF assms(1), of as ai] assms(2) by simp_all
  then have g1: "og_inv g1" "og_cfg g1 = og_cfg g" "og_produced_pending g1 = fit 496 data"
    by (simp_all add: g1_def publish_pending) (simp add: og_inv_def)
  define g2 where "g2 = BeforeAssemblyDataSend ai (Some ?p) (?run bs g1)"
  have b: "og_inv (?run bs g1)" "og_cfg (?run bs g1) = og_cfg g" "og_produced_pending (?run bs g1) = fit 496 data"
    using acts_fields [OF g1(1), of bs ai] assms(2,3) g1 by simp_all
  then have g2: "og_inv g2" "og_cfg g2 = og_cfg g" "og_produced g2 = fit 496 data"
    by (simp_all add: g2_def BeforeAssemblyDataSend_def og_inv_def)
  have "og_produced (?run cs g2) = fit 496 data"
    using acts_fields [OF g2(1), of cs ai] assms(2,4) g2 by simp
  then show "og_produced (?run (as @ Publish data # bs @ Callback (Data_sending (Some ?p)) # cs) g) = fit 496 data"
    by (simp add: g1_def g2_def)
next
  let ?run = "fold (opener_do ai)" and ?c = "ai (bc_consumed_assembly (og_cfg g))"
  define g1 where "g1 = opener_callback ai (Data_received ?c buf) (?run ds g)"
  have d: "og_inv (?run ds g)" "og_cfg (?run ds g) = og_cfg g"
    using acts_fields [OF assms(1), of ds ai] assms(5) by simp_all
  then have g1: "og_inv g1" "og_cfg g1 = og_cfg g" "og_consumed_snapshot g1 = buf"
    using assms(7) by (simp_all add: g1_def AfterAssemblyDataReceived_def og_inv_def)
  have "og_consumed_snapshot (?run es g1) = buf" "og_cfg (?run es g1) = og_cfg g"
    using acts_fields [OF g1(1), of es ai] assms(5,6) g1 by simp_all
  then have "fst (opener_fetch cap (?run es g1)) = take (min cap (unat (bc_input_bytes (og_cfg g)))) buf"
    using assms(7) by (auto simp: opener_fetch_def Let_def min_def)
  then show "fst (opener_fetch cap (?run (ds @ Callback (Data_received ?c buf) # es) g)) =
      take (min cap (unat (bc_input_bytes (og_cfg g)))) buf"
    by (simp add: g1_def)
qed

lemma opener_zero_inv: "og_inv opener_zero"
  by (simp add: og_inv_def opener_zero_def)

definition demo_opener :: opener where
  "demo_opener = opener_zero\<lparr>og_cfg := \<lparr>bc_interface = ''eth0'', bc_produced_assembly = 100,
     bc_consumed_assembly = 150, bc_config_assembly = 151, bc_output_bytes = 2, bc_input_bytes = 3\<rparr>\<rparr>"

theorem opener_images_whole_witness:
  "og_produced (fold (opener_do (\<lambda>n. n)) [Publish [7, 7], Publish [1, 2],
      Callback (Data_received 150 (replicate 496 9)), Callback (Data_sending (Some 100)), Publish [5]] demo_opener) =
     fit 496 [1, 2]
   \<and> fst (opener_fetch 496 (fold (opener_do (\<lambda>n. n)) [Callback (Data_received 150 (replicate 496 8)),
      Callback (Data_received 150 (replicate 496 9)), Fetch 1, Callback (Connection Io_closed)] demo_opener)) = [9, 9, 9]"
proof -
  have inv: "og_inv demo_opener" by (simp add: og_inv_def demo_opener_def opener_zero_def)
  have cfg: "bc_produced_assembly (og_cfg demo_opener) = 100" "bc_consumed_assembly (og_cfg demo_opener) = 150"
    "unat (bc_input_bytes (og_cfg demo_opener)) = 3" by (simp_all add: demo_opener_def)
  from opener_images_whole [OF inv, where ai = "\<lambda>n. n" and as = "[Publish [7, 7]]"
      and bs = "[Callback (Data_received 150 (replicate 496 9))]" and cs = "[Publish [5]]" and data = "[1, 2]"
      and ds = "[Callback (Data_received 150 (replicate 496 8))]" and es = "[Fetch 1, Callback (Connection Io_closed)]"
      and buf = "replicate 496 9" and cap = 496, unfolded cfg]
  show ?thesis by (simp add: numeral_3_eq_3)
qed

text \<open>
  Replaying a list of calls: calls that start something and calls that stop it must alternate,
  beginning with a start. The result tells whether it is running at the end; \<open>None\<close> is a start
  of what runs or a stop of what does not.
\<close>

definition replay :: "(opener_call \<Rightarrow> bool) \<Rightarrow> (opener_call \<Rightarrow> bool) \<Rightarrow> opener_call \<Rightarrow> bool option \<Rightarrow> bool option" where
  "replay starts stops c r =
     (case r of
        None \<Rightarrow> None
      | Some on \<Rightarrow> if starts c then if on then None else Some True
                   else if stops c then if on then Some False else None else Some on)"

definition alternate :: "(opener_call \<Rightarrow> bool) \<Rightarrow> (opener_call \<Rightarrow> bool) \<Rightarrow> opener_call list \<Rightarrow> bool option" where
  "alternate starts stops cs = fold (replay starts stops) cs (Some False)"

fun starts_stack :: "opener_call \<Rightarrow> bool" where
  "starts_stack (Cip_stack_init n ok) = ok"
| "starts_stack _ = False"

text \<open>The flags say what is running, and so what is still to be stopped.\<close>

definition og_balanced :: "opener \<Rightarrow> bool" where
  "og_balanced g \<longleftrightarrow>
     alternate starts_stack ((=) Shutdown_stack) (og_calls g) = Some (og_stack_initialised g)
     \<and> alternate ((=) (Network_init True)) ((=) Network_finish) (og_calls g) = Some (og_stack_running g)
     \<and> alternate ((=) (Thread_created True)) ((=) Thread_joined) (og_calls g) = Some (og_stack_running g)
     \<and> (og_stack_running g \<longrightarrow> og_stack_initialised g)"

lemmas balance_defs = og_balanced_def alternate_def replay_def

lemma init_balanced:
  assumes "og_balanced g" and "\<not> og_stack_initialised g"
  shows "og_balanced (snd (opener_init an cfg g))"
  using assms by (auto simp: opener_init_def opener_start_def Let_def balance_defs)

lemma callback_balanced:
  assumes "og_balanced g"
  shows "og_balanced (opener_callback ai e g)"
proof -
  have c: "og_calls (CheckIoConnectionEvent x g) = og_calls g
      \<and> og_stack_initialised (CheckIoConnectionEvent x g) = og_stack_initialised g
      \<and> og_stack_running (CheckIoConnectionEvent x g) = og_stack_running g" for x by (cases x) simp_all
  note defs = ApplicationInitialization_def AfterAssemblyDataReceived_def BeforeAssemblyDataSend_def
    ResetDevice_def ResetDeviceToInitialConfiguration_def RunIdleChanged_def Let_def
  show ?thesis using assms by (cases e; simp add: defs balance_defs c split: option.split)
qed

lemma callbacks_balanced: "og_balanced g \<Longrightarrow> og_balanced (fold (opener_callback ai) es g)"
  by (induction es arbitrary: g) (simp_all add: callback_balanced)

lemma shutdown_balanced:
  assumes "og_balanced g"
  shows "og_balanced (opener_shutdown g) \<and> \<not> og_stack_initialised (opener_shutdown g)
    \<and> \<not> og_stack_running (opener_shutdown g)"
  using assms by (auto simp: opener_shutdown_def Let_def balance_defs)

text \<open>One life of the backend: a start, the call-backs of the stack, a shutdown in any case.\<close>

type_synonym opener_life = "opener_answers \<times> eip_backend_config \<times> opener_event list"

definition live :: "(u32 \<Rightarrow> u32) \<Rightarrow> opener_life \<Rightarrow> opener \<Rightarrow> opener" where
  "live ai = (\<lambda>(an, cfg, es) g. opener_shutdown (fold (opener_callback ai) es (snd (opener_init an cfg g))))"

lemma lives_balanced:
  "og_balanced g \<Longrightarrow> \<not> og_stack_initialised g \<Longrightarrow> \<not> og_stack_running g \<Longrightarrow>
   og_balanced (fold (live ai) ls g) \<and> \<not> og_stack_initialised (fold (live ai) ls g)
   \<and> \<not> og_stack_running (fold (live ai) ls g)"
proof (induction ls arbitrary: g)
  case (Cons l ls)
  have "og_balanced (live ai l g) \<and> \<not> og_stack_initialised (live ai l g) \<and> \<not> og_stack_running (live ai l g)"
    using shutdown_balanced [OF callbacks_balanced [OF init_balanced [OF Cons.prems(1,2)]]]
    by (cases l) (simp add: live_def)
  with Cons.IH show ?case by simp
qed simp

text \<open>
  C21: OpENer is taken down exactly as far as it was brought up. Start the backend any number of
  times, each followed by any call-backs of the stack and by a shutdown, as the adapter process
  does it after a failed start too. Whatever the interface, the stack, the network handler and the
  thread answer in each start: successful starts of the stack and calls of \<open>ShutdownCipStack\<close>
  alternate, so it is never called on a stack that is not up, nor twice; so do the starts and
  finishes of the network handler, and the creation and the joins of the thread; and in the end
  all three are down.
\<close>

theorem opener_start_stop_balanced:
  "alternate starts_stack ((=) Shutdown_stack) (og_calls (fold (live ai) ls opener_zero)) = Some False
   \<and> alternate ((=) (Network_init True)) ((=) Network_finish) (og_calls (fold (live ai) ls opener_zero)) = Some False
   \<and> alternate ((=) (Thread_created True)) ((=) Thread_joined) (og_calls (fold (live ai) ls opener_zero)) = Some False"
proof -
  have "og_balanced opener_zero" "\<not> og_stack_initialised opener_zero" "\<not> og_stack_running opener_zero"
    by (simp_all add: opener_zero_def balance_defs)
  from lives_balanced [OF this, of ai ls] show ?thesis by (simp add: og_balanced_def)
qed

text \<open>
  The run/idle flag outlives the connection it was received on: after a peer that said IDLE has
  gone, a new connection that sends data but no run/idle header is answered as invalid.
\<close>

lemma idle_outlives_connection:
  "fold (opener_do (\<lambda>n. n)) [Callback (Connection Io_opened), Callback (Run_idle 0), Callback (Connection Io_closed),
      Callback (Connection Io_opened), Callback (Data_received 150 buf)] demo_opener = g \<Longrightarrow>
   og_io_connections g = 1 \<and> reply_flags (kOpenerBackend an) g g = PLC_IPC_FRAME_DATA_INVALID"
  by (auto simp: demo_opener_def opener_zero_def AfterAssemblyDataReceived_def RunIdleChanged_def calls_def
      reply_flags_def kOpenerBackend_def)

end
