(* ===== verification/Scanner_Config.thy ===== *)
theory Scanner_Config
  imports Plc_Config Spsc_Ring Protocol_Adapter
begin

text \<open>
  \<open>adapters/eip_scanner/eip_scanner_config.h\<close> and \<open>eip_scanner_config.c\<close>: the scanner's device
  table, one device per line, and the packing of the devices' slices into the two aggregate
  images.

  The fixed array \<open>devices\<close> with its \<open>device_count\<close> is the list of its first \<open>device_count\<close>
  elements. The diagnostic written to \<open>err\<close> is the value of type \<open>scanner_error\<close>.
\<close>

subsection \<open>Data\<close>

abbreviation (input) EIP_SCANNER_MAX_DEVICES :: nat where "EIP_SCANNER_MAX_DEVICES \<equiv> 16"
abbreviation (input) EIP_SCANNER_ADDR_MAX :: nat where "EIP_SCANNER_ADDR_MAX \<equiv> 46"
abbreviation (input) FIELDS_PER_DEVICE :: nat where "FIELDS_PER_DEVICE \<equiv> 9"
abbreviation (input) SCANNER_LINE_MAX :: nat where "SCANNER_LINE_MAX \<equiv> 256"
abbreviation (input) SCANNER_FILE_MAX :: nat where "SCANNER_FILE_MAX \<equiv> 16384"

record eip_scanner_device =
  d_address :: string
  d_config_assembly :: u16
  d_o2t_assembly :: u16
  d_t2o_assembly :: u16
  d_o2t_bytes :: u16
  d_t2o_bytes :: u16
  d_o2t_rpi_us :: u32
  d_t2o_rpi_us :: u32
  d_timeout_multiplier :: u8
  d_failsafe_policy :: plc_failsafe_policy
  d_o2t_offset :: u32
  d_t2o_offset :: u32

record eip_scanner_config =
  c_devices :: "eip_scanner_device list"
  c_total_o2t_bytes :: u32
  c_total_t2o_bytes :: u32

definition scanner_config_zero :: eip_scanner_config where
  "scanner_config_zero = \<lparr>c_devices = [], c_total_o2t_bytes = 0, c_total_t2o_bytes = 0\<rparr>"

datatype scanner_error =
    Row_too_long nat
  | Expected_nine_fields nat
  | Too_many_devices nat
  | Address_too_long nat
  | Bad_config_assembly nat
  | Bad_o2t_assembly nat
  | Bad_t2o_assembly nat
  | Bad_o2t_length nat
  | Bad_t2o_length nat
  | Bad_rpi nat
  | Bad_timeout_multiplier nat
  | Bad_failsafe nat
  | Aggregate_exceeds_frame nat
  | No_devices
  | Cannot_open string
  | Larger_than_16k string

subsection \<open>Fields\<close>

definition parse_u32 :: "string \<Rightarrow> u64 \<Rightarrow> u32 option" where
  "parse_u32 tok max_v =
     (case strtoul tok of
        None \<Rightarrow> None
      | Some (v, erange, rest) \<Rightarrow> if rest \<noteq> [] \<or> v > max_v then None else Some (ucast v))"

text \<open>The tokens \<open>strtok_r\<close> delivers: the maximal runs of characters that are no delimiter.\<close>

function strtok :: "(char \<Rightarrow> bool) \<Rightarrow> string \<Rightarrow> string list" where
  "strtok delim s =
     (let t = dropWhile delim s in
      if t = [] then []
      else takeWhile (\<lambda>c. \<not> delim c) t # strtok delim (dropWhile (\<lambda>c. \<not> delim c) t))"
  by pat_completeness auto

lemma strtok_shorter:
  assumes "dropWhile delim s \<noteq> []"
  shows "length (dropWhile (\<lambda>c. \<not> delim c) (dropWhile delim s)) < length s"
proof -
  obtain c cs where t: "dropWhile delim s = c # cs" using assms by (cases "dropWhile delim s") auto
  then have "\<not> delim c" by (metis hd_dropWhile list.sel(1) list.simps(3))
  with t have "length (dropWhile (\<lambda>c. \<not> delim c) (dropWhile delim s)) \<le> length cs"
    by (simp add: length_dropWhile_le)
  moreover have "length (c # cs) \<le> length s" using length_dropWhile_le [of delim s] t by simp
  ultimately show ?thesis by simp
qed

termination strtok
  by (relation "measure (\<lambda>(_, s). length s)") (auto intro: strtok_shorter)

declare strtok.simps [simp del]

definition field_sep :: "char \<Rightarrow> bool" where
  "field_sep c \<longleftrightarrow> c = CHR '' '' \<or> c = CHR 0x09 \<or> c = CHR 0x0D"

subsection \<open>Rows\<close>

text \<open>The last part of a row: its slices go behind those of the rows before it.\<close>

definition pack_device ::
  "nat \<Rightarrow> eip_scanner_device \<Rightarrow> eip_scanner_config \<Rightarrow> scanner_error + eip_scanner_config" where
  "pack_device line_no d cfg =
     (let d = d\<lparr>d_o2t_offset := c_total_o2t_bytes cfg, d_t2o_offset := c_total_t2o_bytes cfg\<rparr> in
      if c_total_o2t_bytes cfg + ucast (d_o2t_bytes d) > PLC_IPC_MAX_FRAME_BYTES \<or>
         c_total_t2o_bytes cfg + ucast (d_t2o_bytes d) > PLC_IPC_MAX_FRAME_BYTES
      then Inl (Aggregate_exceeds_frame line_no)
      else Inr \<lparr>c_devices = c_devices cfg @ [d],
                c_total_o2t_bytes = c_total_o2t_bytes cfg + ucast (d_o2t_bytes d),
                c_total_t2o_bytes = c_total_t2o_bytes cfg + ucast (d_t2o_bytes d)\<rparr>)"

definition parse_policy :: "string \<Rightarrow> plc_failsafe_policy option" where
  "parse_policy tok =
     (if tok = ''hold'' then Some PLC_FAILSAFE_HOLD
      else if tok = ''clear'' then Some PLC_FAILSAFE_CLEAR else None)"

text \<open>The fields of a row, in the order they are checked.\<close>

definition parse_device ::
  "nat \<Rightarrow> string list \<Rightarrow> eip_scanner_config \<Rightarrow> scanner_error + eip_scanner_config" where
  "parse_device line_no tok cfg =
     (if length tok \<noteq> FIELDS_PER_DEVICE then Inl (Expected_nine_fields line_no)
      else if length (c_devices cfg) \<ge> EIP_SCANNER_MAX_DEVICES then Inl (Too_many_devices line_no)
      else if length (tok ! 0) \<ge> EIP_SCANNER_ADDR_MAX then Inl (Address_too_long line_no)
      else
        (case parse_u32 (tok ! 1) 0xFFFF of None \<Rightarrow> Inl (Bad_config_assembly line_no) | Some ca \<Rightarrow>
        (case parse_u32 (tok ! 2) 0xFFFF of None \<Rightarrow> Inl (Bad_o2t_assembly line_no) | Some oa \<Rightarrow>
        (case parse_u32 (tok ! 3) 0xFFFF of None \<Rightarrow> Inl (Bad_t2o_assembly line_no) | Some ta \<Rightarrow>
        (case parse_u32 (tok ! 4) (ucast PLC_IPC_MAX_FRAME_BYTES) of None \<Rightarrow> Inl (Bad_o2t_length line_no) | Some no \<Rightarrow>
        (case parse_u32 (tok ! 5) (ucast PLC_IPC_MAX_FRAME_BYTES) of None \<Rightarrow> Inl (Bad_t2o_length line_no) | Some nt \<Rightarrow>
        (case parse_u32 (tok ! 6) 0xFFFFFFFF of None \<Rightarrow> Inl (Bad_rpi line_no) | Some rpi \<Rightarrow>
         if rpi = 0 then Inl (Bad_rpi line_no)
         else
        (case parse_u32 (tok ! 7) 7 of None \<Rightarrow> Inl (Bad_timeout_multiplier line_no) | Some mult \<Rightarrow>
        (case parse_policy (tok ! 8) of None \<Rightarrow> Inl (Bad_failsafe line_no) | Some pol \<Rightarrow>
           pack_device line_no
             \<lparr>d_address = snprintf_s EIP_SCANNER_ADDR_MAX (tok ! 0),
              d_config_assembly = ucast ca, d_o2t_assembly = ucast oa, d_t2o_assembly = ucast ta,
              d_o2t_bytes = ucast no, d_t2o_bytes = ucast nt,
              d_o2t_rpi_us = rpi, d_t2o_rpi_us = rpi,
              d_timeout_multiplier = ucast mult, d_failsafe_policy = pol,
              d_o2t_offset = 0, d_t2o_offset = 0\<rparr> cfg)))))))))"

definition strip_hash :: "string \<Rightarrow> string" where
  "strip_hash line = (case strchr CHR ''#'' line of Some (before, _) \<Rightarrow> before | None \<Rightarrow> line)"

definition parse_row ::
  "nat \<Rightarrow> string \<Rightarrow> eip_scanner_config \<Rightarrow> scanner_error + eip_scanner_config" where
  "parse_row line_no line cfg =
     (if length line > SCANNER_LINE_MAX - 1 then Inl (Row_too_long line_no)
      else
        let tok = strtok field_sep (strip_hash line) in
        if tok = [] then Inr cfg else parse_device line_no tok cfg)"

subsection \<open>The table\<close>

text \<open>On an error the table keeps the devices of the rows before the offending one.\<close>

function scanner_parse_loop ::
  "nat \<Rightarrow> eip_scanner_config \<Rightarrow> string \<Rightarrow> scanner_error option \<times> eip_scanner_config" where
  "scanner_parse_loop line_no cfg p =
     (if p = [] then (None, cfg)
      else
        let (line, rest) = split_line p in
        (case parse_row (Suc line_no) line cfg of
           Inl e \<Rightarrow> (Some e, cfg)
         | Inr cfg' \<Rightarrow> scanner_parse_loop (Suc line_no) cfg' rest))"
  by pat_completeness auto

termination scanner_parse_loop
  by (relation "measure (\<lambda>(_, _, p). length p)") (auto dest: split_line_shorter [OF _ sym])

declare scanner_parse_loop.simps [simp del]

definition eip_scanner_config_parse ::
  "string \<Rightarrow> plc_status \<times> scanner_error option \<times> eip_scanner_config" where
  "eip_scanner_config_parse table =
     (case scanner_parse_loop 0 scanner_config_zero table of
        (Some e, cfg) \<Rightarrow> (PLC_ERR_INVAL, Some e, cfg)
      | (None, cfg) \<Rightarrow>
          if c_devices cfg = [] then (PLC_ERR_INVAL, Some No_devices, cfg)
          else (PLC_OK, None, cfg))"

text \<open>\<open>feof\<close> holds when \<open>fread\<close> came back with fewer bytes than asked for and no read error.\<close>

definition eip_scanner_config_load ::
  "(string \<Rightarrow> file_open) \<Rightarrow> string \<Rightarrow> eip_scanner_config
   \<Rightarrow> plc_status \<times> scanner_error option \<times> eip_scanner_config" where
  "eip_scanner_config_load fs path cfg =
     (case fs path of
        Fopen_fails _ _ \<Rightarrow> (PLC_ERR_NOTFOUND, Some (Cannot_open path), cfg)
      | Fopened bytes ferror \<Rightarrow>
          let got = take (SCANNER_FILE_MAX - 1) bytes;
              too_big = \<not> (length bytes < SCANNER_FILE_MAX - 1 \<and> \<not> ferror) in
          if too_big then (PLC_ERR_INVAL, Some (Larger_than_16k path), cfg)
          else eip_scanner_config_parse (ends_at_nul got))"

subsection \<open>Every accepted table is packed\<close>

definition plain_field :: "string \<Rightarrow> bool" where
  "plain_field f \<longleftrightarrow> f \<noteq> [] \<and> (\<forall>c \<in> set f. \<not> field_sep c \<and> c \<noteq> CHR ''#'' \<and> c \<noteq> CHR 0x0A)"

definition device_wf :: "eip_scanner_device \<Rightarrow> bool" where
  "device_wf d \<longleftrightarrow> length (d_address d) < EIP_SCANNER_ADDR_MAX \<and> plain_field (d_address d)
     \<and> unat (d_o2t_bytes d) \<le> 496 \<and> unat (d_t2o_bytes d) \<le> 496
     \<and> d_o2t_rpi_us d \<noteq> 0 \<and> d_t2o_rpi_us d = d_o2t_rpi_us d \<and> unat (d_timeout_multiplier d) \<le> 7"

definition o2t_sum :: "eip_scanner_device list \<Rightarrow> nat" where
  "o2t_sum ds = (\<Sum>d\<leftarrow>ds. unat (d_o2t_bytes d))"

definition t2o_sum :: "eip_scanner_device list \<Rightarrow> nat" where
  "t2o_sum ds = (\<Sum>d\<leftarrow>ds. unat (d_t2o_bytes d))"

definition packed :: "eip_scanner_device list \<Rightarrow> bool" where
  "packed ds \<longleftrightarrow> (\<forall>i < length ds. unat (d_o2t_offset (ds ! i)) = o2t_sum (take i ds)
     \<and> unat (d_t2o_offset (ds ! i)) = t2o_sum (take i ds))"

definition scanner_wf :: "eip_scanner_config \<Rightarrow> bool" where
  "scanner_wf cfg \<longleftrightarrow> length (c_devices cfg) \<le> EIP_SCANNER_MAX_DEVICES
     \<and> list_all device_wf (c_devices cfg) \<and> packed (c_devices cfg)
     \<and> unat (c_total_o2t_bytes cfg) = o2t_sum (c_devices cfg)
     \<and> unat (c_total_t2o_bytes cfg) = t2o_sum (c_devices cfg)
     \<and> o2t_sum (c_devices cfg) \<le> 496 \<and> t2o_sum (c_devices cfg) \<le> 496"

lemma sum_append [simp]:
  "o2t_sum (as @ bs) = o2t_sum as + o2t_sum bs" "t2o_sum (as @ bs) = t2o_sum as + t2o_sum bs"
  "o2t_sum [] = 0" "t2o_sum [] = 0"
  "o2t_sum (d # ds) = unat (d_o2t_bytes d) + o2t_sum ds"
  "t2o_sum (d # ds) = unat (d_t2o_bytes d) + t2o_sum ds"
  by (simp_all add: o2t_sum_def t2o_sum_def)

lemma packed_snoc:
  "packed (ds @ [d]) \<longleftrightarrow> packed ds \<and> unat (d_o2t_offset d) = o2t_sum ds
     \<and> unat (d_t2o_offset d) = t2o_sum ds"
  by (auto simp: packed_def nth_append less_Suc_eq)

lemma parse_u32_bound: "parse_u32 tok m = Some v \<Longrightarrow> unat m < 2 ^ 32 \<Longrightarrow> unat v \<le> unat m"
  by (auto simp: parse_u32_def word_less_nat_alt unsigned_ucast_eq split: option.splits if_splits)
     (meson le_trans not_less take_bit_nat_less_eq_self)

lemma unat_add_u16:
  assumes "unat (t :: u32) \<le> 496"
  shows "unat (t + ucast (x :: u16)) = unat t + unat x"
proof -
  have "unat x < 2 ^ 16" using unsigned_less [of x, where ?'a = nat] by simp
  moreover from this have "unat (ucast x :: u32) = unat x"
    by (simp add: unsigned_ucast_eq take_bit_nat_eq_self)
  ultimately show ?thesis using assms by (simp add: unat_word_ariths)
qed

lemma pack_device_Inr:
  assumes "pack_device n d cfg = Inr cfg'" and wf: "scanner_wf cfg" and "device_wf d"
    and "length (c_devices cfg) < EIP_SCANNER_MAX_DEVICES"
  shows "scanner_wf cfg'"
proof -
  have "unat (c_total_o2t_bytes cfg) \<le> 496" "unat (c_total_t2o_bytes cfg) \<le> 496"
    using wf by (simp_all add: scanner_wf_def)
  note add = unat_add_u16 [OF this(1)] unat_add_u16 [OF this(2)]
  show ?thesis
    using assms add
    by (auto simp: pack_device_def scanner_wf_def packed_snoc Let_def word_less_nat_alt device_wf_def
        split: if_splits)
qed

lemma unat_ucast_le: "unat (ucast (v :: 'a::len word) :: 'b::len word) \<le> unat v"
  by (simp add: unsigned_ucast_eq take_bit_nat_less_eq_self)

lemma parse_u32_narrow:
  "parse_u32 tok m = Some v \<Longrightarrow> unat m < 2 ^ 32 \<Longrightarrow> unat (ucast v :: 'b::len word) \<le> unat m"
  using parse_u32_bound unat_ucast_le le_trans by metis

lemma parse_device_wf:
  assumes "parse_device n tok cfg = Inr cfg'" and "scanner_wf cfg" and "list_all plain_field tok"
  shows "scanner_wf cfg'"
proof -
  have len: "length tok = 9" "length (c_devices cfg) < 16" "length (tok ! 0) < 46"
    using assms(1) by (auto simp: parse_device_def split: if_splits)
  then have plain: "plain_field (tok ! 0)" using assms(3) by (simp add: list_all_length)
  have addr: "snprintf_s 46 (tok ! 0) = tok ! 0" using len(3) by (simp add: snprintf_s_def)
  show ?thesis
    using assms(1) len addr plain
    by (auto simp: parse_device_def device_wf_def snprintf_s_def
        dest!: parse_u32_narrow [of "tok ! 4" _ _, simplified] parse_u32_narrow [of "tok ! 5" _ _, simplified]
          parse_u32_narrow [of "tok ! 7" _ _, simplified]
        intro!: pack_device_Inr [OF _ assms(2)] split: if_splits option.splits)
qed

lemma strtok_plain: "t \<in> set (strtok delim s) \<Longrightarrow> t \<noteq> [] \<and> (\<forall>c \<in> set t. \<not> delim c \<and> c \<in> set s)"
proof (induction delim s arbitrary: t rule: strtok.induct)
  case (1 delim s)
  define u where "u = dropWhile delim s"
  have sub: "set u \<subseteq> set s" by (auto simp: u_def dest: set_dropWhileD)
  note IH = 1(1)
  show ?case
  proof (cases "u = []")
    case True
    then show ?thesis using 1(2) by (simp add: u_def strtok.simps)
  next
    case False
    then have "\<not> delim (hd u)" by (metis u_def hd_dropWhile)
    with False have ne: "takeWhile (\<lambda>c. \<not> delim c) u \<noteq> []" by (cases u) auto
    have "set (strtok delim s) =
      insert (takeWhile (\<lambda>c. \<not> delim c) u) (set (strtok delim (dropWhile (\<lambda>c. \<not> delim c) u)))"
      using False by (subst strtok.simps) (simp add: Let_def flip: u_def)
    with 1(2) consider "t = takeWhile (\<lambda>c. \<not> delim c) u"
      | "t \<in> set (strtok delim (dropWhile (\<lambda>c. \<not> delim c) u))" by blast
    then show ?thesis
    proof cases
      case 1
      then show ?thesis using ne sub by (auto dest: set_takeWhileD)
    next
      case 2
      from IH [OF u_def _ this] False sub show ?thesis by (blast dest: set_dropWhileD)
    qed
  qed
qed

lemma strip_hash_plain: "c \<in> set (strip_hash line) \<Longrightarrow> c \<noteq> CHR ''#'' \<and> c \<in> set line"
  by (auto simp: strip_hash_def strchr_Some strchr_None split: option.splits)

lemma split_line_plain: "split_line p = (line, rest) \<Longrightarrow> CHR 0x0A \<notin> set line"
  by (auto simp: split_line_def strchr_Some strchr_None split: option.splits)

lemma parse_row_wf:
  assumes "parse_row n line cfg = Inr cfg'" and "scanner_wf cfg" and "CHR 0x0A \<notin> set line"
  shows "scanner_wf cfg'"
proof -
  have "list_all plain_field (strtok field_sep (strip_hash line))"
    using assms(3) strtok_plain strip_hash_plain unfolding list_all_iff plain_field_def by metis
  then show ?thesis
    using assms(1, 2) by (auto simp: parse_row_def Let_def intro: parse_device_wf split: if_splits)
qed

lemma parse_loop_wf: "scanner_wf cfg \<Longrightarrow> scanner_wf (snd (scanner_parse_loop n cfg p))"
proof (induction n cfg p rule: scanner_parse_loop.induct)
  case (1 n cfg p)
  show ?case
  proof (cases "p = []")
    case True
    then show ?thesis using 1 by (simp add: scanner_parse_loop.simps)
  next
    case False
    obtain line rest where l: "split_line p = (line, rest)" by (cases "split_line p") auto
    show ?thesis
      using 1(1) [OF False l [symmetric] refl] 1(2) False l parse_row_wf split_line_plain
      by (subst scanner_parse_loop.simps) (fastforce split: sum.splits)
  qed
qed

lemma scanner_config_zero_wf: "scanner_wf scanner_config_zero"
  by (simp add: scanner_wf_def scanner_config_zero_def packed_def)

lemma parse_wf: "eip_scanner_config_parse t = (st, e, cfg) \<Longrightarrow> scanner_wf cfg"
  using parse_loop_wf [OF scanner_config_zero_wf, of 0 t]
  by (auto simp: eip_scanner_config_parse_def split: prod.splits option.splits if_splits)

subsection \<open>Writing a table\<close>

definition print_policy :: "plc_failsafe_policy \<Rightarrow> string" where
  "print_policy p = (case p of PLC_FAILSAFE_HOLD \<Rightarrow> ''hold'' | PLC_FAILSAFE_CLEAR \<Rightarrow> ''clear'')"

definition print_fields :: "eip_scanner_device \<Rightarrow> string list" where
  "print_fields d =
     [d_address d, dec (unat (d_config_assembly d)), dec (unat (d_o2t_assembly d)),
      dec (unat (d_t2o_assembly d)), dec (unat (d_o2t_bytes d)), dec (unat (d_t2o_bytes d)),
      dec (unat (d_o2t_rpi_us d)), dec (unat (d_timeout_multiplier d)),
      print_policy (d_failsafe_policy d)]"

definition print_row :: "eip_scanner_device \<Rightarrow> string" where
  "print_row d = concat (map (\<lambda>f. f @ '' '') (print_fields d))"

definition print_table :: "eip_scanner_device list \<Rightarrow> string" where
  "print_table ds = concat (map (\<lambda>d. print_row d @ [CHR 0x0A]) ds)"

lemma strtok_field:
  assumes "plain_field f"
  shows "strtok field_sep (f @ '' '' @ rest) = f # strtok field_sep rest"
proof -
  have drop: "dropWhile field_sep (f @ '' '' @ rest) = f @ '' '' @ rest"
    using assms by (cases f) (auto simp: plain_field_def)
  have sep: "field_sep CHR '' ''" by (simp add: field_sep_def)
  have run: "takeWhile (\<lambda>c. \<not> field_sep c) (f @ '' '' @ rest) = f"
    "dropWhile (\<lambda>c. \<not> field_sep c) (f @ '' '' @ rest) = '' '' @ rest"
    using assms sep by (auto simp: plain_field_def takeWhile_append2 dropWhile_append2)
  have "strtok field_sep ('' '' @ rest) = strtok field_sep rest"
    using sep by (subst (1 2) strtok.simps) simp
  then show ?thesis
    using assms drop run by (subst strtok.simps) (simp add: plain_field_def del: append_Cons)
qed

lemma strtok_fields:
  "list_all plain_field fs \<Longrightarrow> strtok field_sep (concat (map (\<lambda>f. f @ '' '') fs)) = fs"
proof (induction fs)
  case Nil
  show ?case by (subst strtok.simps) simp
next
  case (Cons f fs)
  then show ?case using strtok_field [of f "concat (map (\<lambda>f. f @ '' '') fs)"] by simp
qed

lemma plain_dec: "plain_field (dec n)"
  using dec_digits [of n] dec_nonempty [of n]
  by (auto simp: plain_field_def list_all_iff isdigit_def field_sep_def ord_def)

lemma plain_fields: "device_wf d \<Longrightarrow> list_all plain_field (print_fields d)"
  by (auto simp: print_fields_def plain_dec device_wf_def)
     (auto simp: print_policy_def plain_field_def field_sep_def split: plc_failsafe_policy.split)

lemma length_dec: "n < 10 ^ Suc k \<Longrightarrow> length (dec n) \<le> Suc k"
proof (induction k arbitrary: n)
  case 0
  then show ?case by (subst dec.simps) simp
next
  case (Suc k)
  have "n div 10 < 10 ^ Suc k" using Suc.prems by (simp add: less_mult_imp_div_less mult.commute)
  from Suc.IH [OF this] show ?case by (subst dec.simps) simp
qed

lemma length_dec_word: "LENGTH('a::len) \<le> 33 \<Longrightarrow> length (dec (unat (v :: 'a word))) \<le> 10"
proof -
  assume "LENGTH('a) \<le> 33"
  then have "(2 :: nat) ^ LENGTH('a) \<le> 2 ^ 33" by (rule power_increasing) simp
  then have "unat v < 10 ^ Suc 9"
    using unsigned_less [of v, where ?'a = nat] by (simp del: unsigned_less)
  from length_dec [OF this] show ?thesis by simp
qed

lemma length_print_row: "device_wf d \<Longrightarrow> length (print_row d) \<le> 255"
  using length_dec_word [of "d_config_assembly d"] length_dec_word [of "d_o2t_assembly d"]
    length_dec_word [of "d_t2o_assembly d"] length_dec_word [of "d_o2t_bytes d"]
    length_dec_word [of "d_t2o_bytes d"] length_dec_word [of "d_o2t_rpi_us d"]
    length_dec_word [of "d_timeout_multiplier d"]
  by (simp add: print_row_def print_fields_def print_policy_def device_wf_def
      split: plc_failsafe_policy.split)

lemma parse_u32_dec:
  assumes "n \<le> unat m" and "unat m < 2 ^ 32"
  shows "parse_u32 (dec n) m = Some (of_nat n)"
proof -
  have "n < 2 ^ 64" using assms by simp
  then have st: "strtoul (dec n) = Some (of_nat n, False, [])"
    using strtoul_dec [of "[]" "[]" n] by simp
  have un: "unat (of_nat n :: u64) = n"
    using \<open>n < 2 ^ 64\<close> by (simp only: unat_of_nat take_bit_nat_eq_self) simp
  then have "\<not> (of_nat n :: u64) > m" using assms by (simp add: word_less_nat_alt)
  moreover have "ucast (of_nat n :: u64) = (of_nat n :: u32)" using un by (metis of_nat_unat)
  ultimately show ?thesis using st by (simp add: parse_u32_def)
qed

definition unplaced :: "eip_scanner_device \<Rightarrow> eip_scanner_device" where
  "unplaced d = d\<lparr>d_o2t_offset := 0, d_t2o_offset := 0\<rparr>"

lemma parse_device_print:
  assumes "device_wf d" and "length (c_devices cfg) < EIP_SCANNER_MAX_DEVICES"
  shows "parse_device n (print_fields d) cfg = pack_device n (unplaced d) cfg"
proof -
  have small: "unat (v :: u16) \<le> 65535" "unat (w :: u32) \<le> 4294967295" for v w
    using unsigned_less [of v, where ?'a = nat] unsigned_less [of w, where ?'a = nat] by simp_all
  have p: "parse_u32 (dec (unat v)) 0xFFFF = Some (of_nat (unat v))" for v :: u16
    using small by (intro parse_u32_dec) simp_all
  have q: "parse_u32 (dec (unat v)) 496 = Some (of_nat (unat v))" if "unat v \<le> 496" for v :: u16
    using that by (intro parse_u32_dec) simp_all
  have r: "parse_u32 (dec (unat w)) 0xFFFFFFFF = Some w" for w :: u32
    using small parse_u32_dec [of "unat w" "0xFFFFFFFF"] by simp
  have m: "parse_u32 (dec (unat v)) 7 = Some (of_nat (unat v))" if "unat v \<le> 7" for v :: u8
    using that by (intro parse_u32_dec) simp_all
  have c: "ucast (of_nat (unat v) :: u32) = v" for v :: u16
    unfolding of_nat_unat by (rule bit_word_eqI) (simp add: bit_simps)
  have c8: "ucast (of_nat (unat v) :: u32) = v" for v :: u8
    unfolding of_nat_unat by (rule bit_word_eqI) (simp add: bit_simps)
  have pol: "parse_policy (print_policy x) = Some x" for x
    by (cases x) (simp_all add: parse_policy_def print_policy_def)
  show ?thesis
    using assms p q r m c c8 pol
    by (cases d) (simp add: parse_device_def print_fields_def device_wf_def unplaced_def snprintf_s_def)
qed

definition placed :: "eip_scanner_device list \<Rightarrow> eip_scanner_config" where
  "placed ds = \<lparr>c_devices = ds, c_total_o2t_bytes = of_nat (o2t_sum ds), c_total_t2o_bytes = of_nat (t2o_sum ds)\<rparr>"

lemma placed_self:
  assumes "scanner_wf cfg"
  shows "placed (c_devices cfg) = cfg"
proof -
  have "of_nat (o2t_sum (c_devices cfg)) = c_total_o2t_bytes cfg"
    "of_nat (t2o_sum (c_devices cfg)) = c_total_t2o_bytes cfg"
    using assms unfolding scanner_wf_def by (metis of_nat_unat ucast_id)+
  then show ?thesis by (cases cfg) (simp add: placed_def)
qed

lemma packed_prefix: "packed (ds @ es) \<Longrightarrow> packed ds"
  by (induction es rule: rev_induct) (simp_all add: packed_snoc flip: append_assoc)

lemma unat_placed:
  assumes "o2t_sum ds \<le> 496" and "t2o_sum ds \<le> 496"
  shows "unat (of_nat (o2t_sum ds) :: u32) = o2t_sum ds"
    and "unat (of_nat (t2o_sum ds) :: u32) = t2o_sum ds"
  using assms by (simp_all add: unat_of_nat take_bit_nat_eq_self)

lemma placed_prefix_wf:
  assumes "scanner_wf (placed (ds @ es))"
  shows "scanner_wf (placed ds)"
proof -
  have "packed ds" using assms packed_prefix by (auto simp: scanner_wf_def placed_def)
  moreover have "o2t_sum ds \<le> 496" "t2o_sum ds \<le> 496"
    using assms by (simp_all add: scanner_wf_def placed_def)
  ultimately show ?thesis
    using assms unat_placed [of ds] by (simp add: scanner_wf_def placed_def)
qed

lemma pack_device_next:
  assumes "scanner_wf (placed (ds @ [d]))"
  shows "pack_device n (unplaced d) (placed ds) = Inr (placed (ds @ [d]))"
proof -
  define a b :: u32 where "a = of_nat (o2t_sum ds)" and "b = of_nat (t2o_sum ds)"
  have le: "o2t_sum ds + unat (d_o2t_bytes d) \<le> 496" "t2o_sum ds + unat (d_t2o_bytes d) \<le> 496"
    using assms by (simp_all add: scanner_wf_def placed_def)
  then have un: "unat a = o2t_sum ds" "unat b = t2o_sum ds"
    using unat_placed [of ds] unfolding a_def b_def by simp_all
  then have "unat (a + ucast (d_o2t_bytes d)) \<le> 496" "unat (b + ucast (d_t2o_bytes d)) \<le> 496"
    using le by (simp_all add: unat_add_u16)
  then have fits: "\<not> (a + ucast (d_o2t_bytes d) > 496 \<or> b + ucast (d_t2o_bytes d) > 496)"
    by (simp add: word_less_nat_alt)
  have "unat (d_o2t_offset d) = unat a" "unat (d_t2o_offset d) = unat b"
    using assms un by (simp_all add: scanner_wf_def placed_def packed_snoc)
  then have eq: "(unplaced d)\<lparr>d_o2t_offset := a, d_t2o_offset := b\<rparr> = d"
    by (simp add: unplaced_def flip: word_unat_eq_iff)
  have "placed ds = \<lparr>c_devices = ds, c_total_o2t_bytes = a, c_total_t2o_bytes = b\<rparr>"
    "placed (ds @ [d]) = \<lparr>c_devices = ds @ [d], c_total_o2t_bytes = a + ucast (d_o2t_bytes d),
       c_total_t2o_bytes = b + ucast (d_t2o_bytes d)\<rparr>"
    by (simp_all add: placed_def a_def b_def)
  then show ?thesis using fits eq by (simp add: pack_device_def Let_def)
qed

lemma parse_row_print:
  assumes "scanner_wf (placed (ds @ [d]))"
  shows "parse_row n (print_row d) (placed ds) = Inr (placed (ds @ [d]))"
proof -
  have d: "device_wf d" and len: "length ds < 16" using assms by (simp_all add: scanner_wf_def placed_def)
  have "CHR ''#'' \<notin> set (print_row d)"
    using plain_fields [OF d] by (auto simp: print_row_def list_all_iff plain_field_def)
  then have "strip_hash (print_row d) = print_row d"
    by (simp add: strip_hash_def strchr_None [THEN iffD2])
  moreover have "strtok field_sep (print_row d) = print_fields d"
    unfolding print_row_def by (rule strtok_fields [OF plain_fields [OF d]])
  moreover have "print_fields d \<noteq> []" by (simp add: print_fields_def)
  moreover have "parse_device n (print_fields d) (placed ds) = Inr (placed (ds @ [d]))"
    using parse_device_print [OF d] len pack_device_next [OF assms] by (simp add: placed_def)
  moreover have "\<not> length (print_row d) > 255" using length_print_row [OF d] by simp
  ultimately show ?thesis by (simp add: parse_row_def)
qed

lemma parse_table_print:
  "scanner_wf (placed (ds @ es)) \<Longrightarrow>
   scanner_parse_loop n (placed ds) (print_table es) = (None, placed (ds @ es))"
proof (induction es arbitrary: n ds)
  case Nil
  then show ?case by (simp add: print_table_def scanner_parse_loop.simps)
next
  case (Cons d es)
  have wf: "scanner_wf (placed (ds @ [d]))"
    using placed_prefix_wf [of "ds @ [d]" es] Cons.prems by simp
  then have "device_wf d" by (simp add: scanner_wf_def placed_def)
  then have "CHR 0x0A \<notin> set (print_row d)"
    using plain_fields [of d] by (auto simp: print_row_def list_all_iff plain_field_def)
  then have "split_line (print_table (d # es)) = (print_row d, print_table es)"
    by (simp add: split_line_def print_table_def strchr_Some [THEN iffD2])
  moreover have "print_table (d # es) \<noteq> []" by (simp add: print_table_def)
  ultimately show ?case
    using Cons.IH [of "ds @ [d]" "Suc n"] Cons.prems parse_row_print [OF wf]
    by (subst scanner_parse_loop.simps) simp
qed

subsection \<open>The slices of the devices\<close>

lemma prefix_sum_step:
  fixes ns :: "nat list"
  assumes "i < j" and "j \<le> length ns"
  shows "sum_list (take i ns) + ns ! i \<le> sum_list (take j ns)"
proof -
  have "take j ns = take (Suc i) ns @ drop (Suc i) (take j ns)"
    using assms by (metis Suc_leI append_take_drop_id min.absorb1 take_take)
  then have "sum_list (take (Suc i) ns) \<le> sum_list (take j ns)" by (metis le_add1 sum_list_append)
  then show ?thesis using assms by (simp add: take_Suc_conv_app_nth)
qed

lemma prefix_sum_hit:
  "k < sum_list ns \<Longrightarrow> \<exists>i < length ns. sum_list (take i ns) \<le> k \<and> k < sum_list (take i ns) + ns ! i"
  for ns :: "nat list"
proof (induction ns rule: rev_induct)
  case (snoc n ns)
  show ?case
  proof (cases "k < sum_list ns")
    case True
    then obtain i where "i < length ns" "sum_list (take i ns) \<le> k" "k < sum_list (take i ns) + ns ! i"
      using snoc.IH by blast
    then show ?thesis by (intro exI [of _ i]) (simp add: nth_append)
  next
    case False
    then show ?thesis using snoc.prems by (intro exI [of _ "length ns"]) simp
  qed
qed simp

lemma prefix_sums_partition:
  fixes ns :: "nat list"
  assumes "k < sum_list ns"
  shows "\<exists>!i. i < length ns \<and> sum_list (take i ns) \<le> k \<and> k < sum_list (take i ns) + ns ! i"
proof (rule ex_ex1I)
  fix i j
  assume "i < length ns \<and> sum_list (take i ns) \<le> k \<and> k < sum_list (take i ns) + ns ! i"
    and "j < length ns \<and> sum_list (take j ns) \<le> k \<and> k < sum_list (take j ns) + ns ! j"
  then show "i = j"
    using prefix_sum_step [of i j ns] prefix_sum_step [of j i ns] by (cases i j rule: linorder_cases) linarith+
qed (use prefix_sum_hit [OF assms] in blast)

definition in_slice :: "u32 \<Rightarrow> u16 \<Rightarrow> nat \<Rightarrow> bool" where
  "in_slice offset bytes k \<longleftrightarrow> unat offset \<le> k \<and> k < unat offset + unat bytes"

lemma packed_partition:
  assumes "packed ds"
  shows "k < t2o_sum ds \<Longrightarrow> \<exists>!i. i < length ds \<and> in_slice (d_t2o_offset (ds ! i)) (d_t2o_bytes (ds ! i)) k"
    and "k < o2t_sum ds \<Longrightarrow> \<exists>!i. i < length ds \<and> in_slice (d_o2t_offset (ds ! i)) (d_o2t_bytes (ds ! i)) k"
proof -
  have t: "i < length ds \<and> in_slice (d_t2o_offset (ds ! i)) (d_t2o_bytes (ds ! i)) k \<longleftrightarrow>
      i < length ds \<and> sum_list (take i (map (\<lambda>d. unat (d_t2o_bytes d)) ds)) \<le> k
      \<and> k < sum_list (take i (map (\<lambda>d. unat (d_t2o_bytes d)) ds)) + map (\<lambda>d. unat (d_t2o_bytes d)) ds ! i" for i
    using assms by (auto simp: packed_def in_slice_def t2o_sum_def take_map)
  have o: "i < length ds \<and> in_slice (d_o2t_offset (ds ! i)) (d_o2t_bytes (ds ! i)) k \<longleftrightarrow>
      i < length ds \<and> sum_list (take i (map (\<lambda>d. unat (d_o2t_bytes d)) ds)) \<le> k
      \<and> k < sum_list (take i (map (\<lambda>d. unat (d_o2t_bytes d)) ds)) + map (\<lambda>d. unat (d_o2t_bytes d)) ds ! i" for i
    using assms by (auto simp: packed_def in_slice_def o2t_sum_def take_map)
  show "k < t2o_sum ds \<Longrightarrow> \<exists>!i. i < length ds \<and> in_slice (d_t2o_offset (ds ! i)) (d_t2o_bytes (ds ! i)) k"
    unfolding t using prefix_sums_partition [of k "map (\<lambda>d. unat (d_t2o_bytes d)) ds"]
    by (simp add: t2o_sum_def)
  show "k < o2t_sum ds \<Longrightarrow> \<exists>!i. i < length ds \<and> in_slice (d_o2t_offset (ds ! i)) (d_o2t_bytes (ds ! i)) k"
    unfolding o using prefix_sums_partition [of k "map (\<lambda>d. unat (d_o2t_bytes d)) ds"]
    by (simp add: o2t_sum_def)
qed

lemma sum_take_le: "t2o_sum (take i ds) \<le> t2o_sum ds" "o2t_sum (take i ds) \<le> o2t_sum ds"
  using sum_append(1, 2) [of "take i ds" "drop i ds"] by simp_all

lemma packed_bounds:
  assumes "packed ds" and "i < length ds"
  shows "unat (d_t2o_offset (ds ! i)) + unat (d_t2o_bytes (ds ! i)) \<le> t2o_sum ds"
    and "unat (d_o2t_offset (ds ! i)) + unat (d_o2t_bytes (ds ! i)) \<le> o2t_sum ds"
  using assms sum_take_le [of "Suc i" ds] by (simp_all add: packed_def take_Suc_conv_app_nth)

lemma packed_order:
  assumes "packed ds" and "i < j" and "j < length ds"
  shows "unat (d_t2o_offset (ds ! i)) + unat (d_t2o_bytes (ds ! i)) \<le> unat (d_t2o_offset (ds ! j))"
    and "unat (d_o2t_offset (ds ! i)) + unat (d_o2t_bytes (ds ! i)) \<le> unat (d_o2t_offset (ds ! j))"
proof -
  have "packed (take j ds)" using packed_prefix [of "take j ds" "drop j ds"] assms(1) by simp
  from packed_bounds [OF this, of i] show
    "unat (d_t2o_offset (ds ! i)) + unat (d_t2o_bytes (ds ! i)) \<le> unat (d_t2o_offset (ds ! j))"
    "unat (d_o2t_offset (ds ! i)) + unat (d_o2t_bytes (ds ! i)) \<le> unat (d_o2t_offset (ds ! j))"
    using assms by (simp_all add: packed_def)
qed

lemma parse_print:
  assumes "scanner_wf (placed ds)" and "ds \<noteq> []"
  shows "eip_scanner_config_parse (print_table ds) = (PLC_OK, None, placed ds)"
proof -
  have "scanner_parse_loop 0 scanner_config_zero (print_table ds) = (None, placed ds)"
    using parse_table_print [of "[]" ds 0] assms(1) by (simp add: placed_def scanner_config_zero_def)
  then show ?thesis using assms(2) by (simp add: eip_scanner_config_parse_def placed_def)
qed

text \<open>A table of two drives.\<close>

definition demo_table :: "eip_scanner_device list" where
  "demo_table =
     [\<lparr>d_address = ''10.0.0.1'', d_config_assembly = 151, d_o2t_assembly = 150, d_t2o_assembly = 100,
       d_o2t_bytes = 2, d_t2o_bytes = 3, d_o2t_rpi_us = 10000, d_t2o_rpi_us = 10000,
       d_timeout_multiplier = 3, d_failsafe_policy = PLC_FAILSAFE_HOLD,
       d_o2t_offset = 0, d_t2o_offset = 0\<rparr>,
      \<lparr>d_address = ''10.0.0.2'', d_config_assembly = 151, d_o2t_assembly = 150, d_t2o_assembly = 100,
       d_o2t_bytes = 1, d_t2o_bytes = 2, d_o2t_rpi_us = 20000, d_t2o_rpi_us = 20000,
       d_timeout_multiplier = 3, d_failsafe_policy = PLC_FAILSAFE_CLEAR,
       d_o2t_offset = 2, d_t2o_offset = 3\<rparr>]"

lemma demo_table_wf: "scanner_wf (placed demo_table)"
  by code_simp

lemma demo_table_parses:
  "eip_scanner_config_parse (print_table demo_table) = (PLC_OK, None, placed demo_table)"
  by (rule parse_print [OF demo_table_wf]) (simp add: demo_table_def)

text \<open>
  C23: Every table the parser accepts can be written back and read again without loss: it has at
  most 16 devices, each with its address, assemblies, RPI, timeout multiplier and policy, and
  writing the nine columns of each device in order gives a text that parses to the same table,
  with the same offsets and totals.
\<close>

theorem scanner_table_roundtrip:
  assumes "eip_scanner_config_parse t = (PLC_OK, None, cfg)"
  shows "eip_scanner_config_parse (print_table (c_devices cfg)) = (PLC_OK, None, cfg)"
proof -
  have ne: "c_devices cfg \<noteq> []"
    using assms by (auto simp: eip_scanner_config_parse_def split: prod.splits option.splits if_splits)
  have wf: "scanner_wf cfg" by (rule parse_wf [OF assms])
  have z: "placed [] = scanner_config_zero" by (simp add: placed_def scanner_config_zero_def)
  have "scanner_parse_loop 0 (placed []) (print_table (c_devices cfg)) = (None, cfg)"
    using parse_table_print [of "[]" "c_devices cfg" 0] wf placed_self [OF wf] by simp
  then show ?thesis using ne unfolding z by (simp add: eip_scanner_config_parse_def)
qed

theorem scanner_table_roundtrip_witness:
  "\<exists>t cfg. eip_scanner_config_parse t = (PLC_OK, None, cfg) \<and> length (c_devices cfg) = 2
     \<and> eip_scanner_config_parse (print_table (c_devices cfg)) = (PLC_OK, None, cfg)"
  using demo_table_parses scanner_table_roundtrip [OF demo_table_parses]
  by (intro exI [of _ "print_table demo_table"] exI [of _ "placed demo_table"])
     (simp add: placed_def demo_table_def)

text \<open>
  C13: In every table the parser accepts, the devices tile the two aggregate images: there are
  one to sixteen devices, neither total exceeds an IPC frame, and every byte of the input image
  and every byte of the output image belongs to the slice of exactly one device.
\<close>

theorem scanner_table_tiles:
  assumes "eip_scanner_config_parse t = (PLC_OK, None, cfg)"
  shows "1 \<le> length (c_devices cfg) \<and> length (c_devices cfg) \<le> 16
    \<and> c_total_o2t_bytes cfg \<le> 496 \<and> c_total_t2o_bytes cfg \<le> 496
    \<and> (\<forall>k < unat (c_total_t2o_bytes cfg). \<exists>!i. i < length (c_devices cfg)
        \<and> in_slice (d_t2o_offset (c_devices cfg ! i)) (d_t2o_bytes (c_devices cfg ! i)) k)
    \<and> (\<forall>k < unat (c_total_o2t_bytes cfg). \<exists>!i. i < length (c_devices cfg)
        \<and> in_slice (d_o2t_offset (c_devices cfg ! i)) (d_o2t_bytes (c_devices cfg ! i)) k)"
proof -
  have wf: "scanner_wf cfg" by (rule parse_wf [OF assms])
  have "c_devices cfg \<noteq> []"
    using assms by (auto simp: eip_scanner_config_parse_def split: prod.splits option.splits if_splits)
  moreover have "c_total_o2t_bytes cfg \<le> 496" "c_total_t2o_bytes cfg \<le> 496"
    using wf by (simp_all add: scanner_wf_def word_le_nat_alt)
  ultimately show ?thesis
    using wf packed_partition [of "c_devices cfg"] by (simp add: scanner_wf_def Suc_le_eq)
qed

theorem scanner_table_tiles_witness:
  "\<exists>cfg. eip_scanner_config_parse (print_table demo_table) = (PLC_OK, None, cfg)
     \<and> (\<exists>!i. i < 2 \<and> in_slice (d_t2o_offset (demo_table ! i)) (d_t2o_bytes (demo_table ! i)) 4)"
proof -
  have n: "c_devices (placed demo_table) = demo_table" "length demo_table = 2"
    "4 < unat (c_total_t2o_bytes (placed demo_table))"
    by (simp_all add: placed_def demo_table_def)
  show ?thesis
    using demo_table_parses scanner_table_tiles [OF demo_table_parses] n by auto
qed

end
