(* ===== verification/Scanner_Layout.thy ===== *)
theory Scanner_Layout
  imports Scanner_Config Eip_Layout
begin

text \<open>
  \<open>adapters/eip_scanner/eip_scanner_shm_layout.h\<close>, \<open>eip_scanner_shm_layout_public.h\<close> and
  \<open>eip_scanner_names.c\<close>: the region the core and the scanner process share, the health bytes in
  front of the input image, and the names both sides derive from the instance.
\<close>

abbreviation (input) EIP_SCANNER_SHM_MAGIC :: u32 where "EIP_SCANNER_SHM_MAGIC \<equiv> 0x45495331"
abbreviation (input) EIP_SCANNER_SHM_ABI_VERSION :: u32 where "EIP_SCANNER_SHM_ABI_VERSION \<equiv> 3"
abbreviation (input) EIP_SCANNER_SHM_NAME_MAX :: nat where "EIP_SCANNER_SHM_NAME_MAX \<equiv> 128"
abbreviation (input) EIP_SCANNER_INSTANCE_MAX :: nat where "EIP_SCANNER_INSTANCE_MAX \<equiv> 32"
abbreviation (input) EIP_SCANNER_DEFAULT_EXCHANGE_TIMEOUT_US :: u32 where
  "EIP_SCANNER_DEFAULT_EXCHANGE_TIMEOUT_US \<equiv> 5000"
abbreviation (input) EIP_SCANNER_DEFAULT_FAILSAFE_TIMEOUT_US :: u32 where
  "EIP_SCANNER_DEFAULT_FAILSAFE_TIMEOUT_US \<equiv> 100000"

abbreviation (input) EIP_DEVICE_OFFLINE :: byte where "EIP_DEVICE_OFFLINE \<equiv> 0"
abbreviation (input) EIP_DEVICE_ONLINE :: byte where "EIP_DEVICE_ONLINE \<equiv> 1"
abbreviation (input) EIP_DEVICE_FAILSAFE :: byte where "EIP_DEVICE_FAILSAFE \<equiv> 2"

definition EIP_SCANNER_HEALTH_BYTES :: "nat \<Rightarrow> u32" where
  "EIP_SCANNER_HEALTH_BYTES device_count = of_nat device_count"

record eip_scanner_status =
  ss_adapter_state :: plc_adapter_state_t
  ss_devices_online :: u32
  ss_cycles :: u64
  ss_forward_opens :: u64
  ss_connection_losses :: u64
  ss_out_of_order :: u64
  ss_last_error :: u64

record eip_scanner_shm =
  s_magic :: u32
  s_abi_version :: u32
  s_layout_bytes :: u32
  s_device_count :: u32
  s_health_bytes :: u32
  s_o2t_total_bytes :: u32
  s_t2o_total_bytes :: u32
  s_input_bytes :: u32
  s_status :: eip_scanner_status
  s_req :: plc_spsc_ring
  s_rsp :: plc_spsc_ring

text \<open>
  \<open>sizeof(eip_scanner_shm_t)\<close>: 60 bytes of header words padded to 64 and 48 of status, padded to
  the next cache line, then two rings of 2176 bytes.
\<close>

definition eip_scanner_shm_bytes :: nat where
  "eip_scanner_shm_bytes = 128 + 2 * 2176"

definition eip_scanner_shm_zero :: eip_scanner_shm where
  "eip_scanner_shm_zero = \<lparr>s_magic = 0, s_abi_version = 0, s_layout_bytes = 0, s_device_count = 0,
     s_health_bytes = 0, s_o2t_total_bytes = 0, s_t2o_total_bytes = 0, s_input_bytes = 0,
     s_status = \<lparr>ss_adapter_state = PLC_ADAPTER_CLOSED, ss_devices_online = 0, ss_cycles = 0,
       ss_forward_opens = 0, ss_connection_losses = 0, ss_out_of_order = 0, ss_last_error = 0\<rparr>,
     s_req = ring_zero, s_rsp = ring_zero\<rparr>"

definition scanner_build :: "nat \<Rightarrow> string \<Rightarrow> string \<Rightarrow> string" where
  "scanner_build buf_len inst suffix =
     (let inst = (if inst = [] then ''default'' else inst) in
      snprintf_s buf_len (''/softplc.'' @ inst @ ''.eipscan'' @ suffix))"

definition eip_scanner_shm_name :: "nat \<Rightarrow> string \<Rightarrow> string" where
  "eip_scanner_shm_name buf_len inst = scanner_build buf_len inst []"

definition eip_scanner_sem_req_name :: "nat \<Rightarrow> string \<Rightarrow> string" where
  "eip_scanner_sem_req_name buf_len inst = scanner_build buf_len inst ''.req''"

definition eip_scanner_sem_rsp_name :: "nat \<Rightarrow> string \<Rightarrow> string" where
  "eip_scanner_sem_rsp_name buf_len inst = scanner_build buf_len inst ''.rsp''"

lemma scanner_build_exact:
  "inst \<noteq> [] \<Longrightarrow> length inst < EIP_SCANNER_INSTANCE_MAX \<Longrightarrow> length suffix \<le> 4 \<Longrightarrow>
   scanner_build EIP_SCANNER_SHM_NAME_MAX inst suffix = ''/softplc.'' @ inst @ ''.eipscan'' @ suffix"
  by (simp add: scanner_build_def snprintf_s_def)

text \<open>
  The two roles never meet under one name, whatever instances they run for: the letter before
  the common suffix differs.
\<close>

lemma roles_have_distinct_names:
  assumes "i \<noteq> []" "length i < EIP_SCANNER_INSTANCE_MAX" "j \<noteq> []" "length j < EIP_INSTANCE_MAX"
    and "length suffix \<le> 4"
  shows "scanner_build EIP_SCANNER_SHM_NAME_MAX i suffix \<noteq> build EIP_SHM_NAME_MAX j suffix"
proof -
  have "last (''/softplc.'' @ i @ ''.eipscan'') \<noteq> last (''/softplc.'' @ j @ ''.eip'')" by simp
  then have "''/softplc.'' @ i @ ''.eipscan'' \<noteq> ''/softplc.'' @ j @ ''.eip''" by metis
  then have "(''/softplc.'' @ i @ ''.eipscan'') @ suffix \<noteq> (''/softplc.'' @ j @ ''.eip'') @ suffix"
    by (simp only: append_same_eq simp_thms)
  then show ?thesis using assms by (simp add: scanner_build_exact build_exact)
qed

lemma scanner_name_bounds:
  assumes "s \<noteq> []" and "length s < 32"
  shows "eip_scanner_shm_name 128 s \<noteq> []" "length (eip_scanner_shm_name 128 s) < 128"
  using assms by (simp_all add: eip_scanner_shm_name_def scanner_build_exact)

end
