(* ===== verification/Scanner_Proxy.thy ===== *)
theory Scanner_Proxy
  imports Scanner_Layout Eip_Proxy
begin

text \<open>
  \<open>adapters/eip_scanner/eip_scanner_proxy.c\<close>: the core's side of the EtherNet/IP scanner. It
  takes its image sizes from the device table, exchanges one aggregate frame each way per scan,
  and reports itself degraded while no device is connected.

  The environment of a call is that of the adapter's proxy, extended by the file system the
  device table is read from and by \<open>devices_online\<close> as the core reads it after a reply. The
  exchange itself repeats the one of \<open>eip_adapter_proxy.c\<close>; its properties are carried over from
  there through \<open>as_eip\<close>, which shows a scanner proxy as an adapter proxy.
\<close>

subsection \<open>State and environment\<close>

record scanner_proxy =
  sx_caps :: plc_adapter_caps
  sx_stats :: plc_adapter_stats
  sx_state :: plc_adapter_state_t
  sx_instance :: string
  sx_shm :: plc_shm
  sx_map :: "eip_scanner_shm option"
  sx_sem_req :: "nat option"
  sx_sem_rsp :: "nat option"
  sx_sem_req_name :: string
  sx_sem_rsp_name :: string
  sx_next_seq :: u32
  sx_stale :: plc_staleness
  sx_opened_us :: u64
  sx_last_good :: "byte list"
  sx_scratch :: plc_ipc_frame
  sx_kern :: kern

record scanner_env = eip_env +
  ev_fs :: "string \<Rightarrow> file_open"
  ev_online :: u32

subsection \<open>Lifecycle\<close>

definition scanner_teardown :: "scanner_proxy \<Rightarrow> scanner_proxy" where
  "scanner_teardown p =
     (let k = plc_sem_close (sx_sem_req p) (Some (sx_sem_req_name p)) True (sx_kern p);
          k = plc_sem_close (sx_sem_rsp p) (Some (sx_sem_rsp_name p)) True k
      in (case plc_shm_close (sx_shm p) k of (shm, k) \<Rightarrow>
            p\<lparr>sx_sem_req := None, sx_sem_rsp := None, sx_shm := shm, sx_map := None, sx_kern := k\<rparr>))"

definition scanner_cfg_u32 :: "scanner_env \<Rightarrow> string \<Rightarrow> u32 \<Rightarrow> u32" where
  "scanner_cfg_u32 e key fallback = plc_cfg_u32 (ev_getenv e) (ev_config e) key fallback"

definition device_table_path :: "scanner_env \<Rightarrow> string" where
  "device_table_path e = the (plc_cfg_str (ev_getenv e) (ev_config e) ''SOFTPLC_SCANNER_DEVICES''
     (Some ''/etc/softplc/scanner-devices.conf''))"

definition scanner_fresh_map :: "eip_scanner_config \<Rightarrow> eip_scanner_shm" where
  "scanner_fresh_map table =
     (let health = EIP_SCANNER_HEALTH_BYTES (length (c_devices table)) in
      eip_scanner_shm_zero\<lparr>
        s_abi_version := EIP_SCANNER_SHM_ABI_VERSION,
        s_layout_bytes := of_nat eip_scanner_shm_bytes,
        s_device_count := of_nat (length (c_devices table)),
        s_health_bytes := health,
        s_o2t_total_bytes := c_total_o2t_bytes table,
        s_t2o_total_bytes := c_total_t2o_bytes table,
        s_input_bytes := health + c_total_t2o_bytes table,
        s_req := plc_spsc_init (s_req eip_scanner_shm_zero),
        s_rsp := plc_spsc_init (s_rsp eip_scanner_shm_zero),
        s_status := (s_status eip_scanner_shm_zero)\<lparr>ss_adapter_state := PLC_ADAPTER_CLOSED\<rparr>\<rparr>)"

definition scanner_caps_of ::
  "scanner_env \<Rightarrow> plc_adapter_config \<Rightarrow> u32 \<Rightarrow> u32 \<Rightarrow> plc_adapter_caps" where
  "scanner_caps_of e cfg inb outb = caps_zero\<lparr>
     abi_version := PLC_ADAPTER_ABI_VERSION,
     cap_name := snprintf_s 32 (case cfg_name cfg of Some n \<Rightarrow> n | None \<Rightarrow> ''eipscan0''),
     protocol := snprintf_s 32 ''ethernet-ip-scanner'',
     input_bytes := inb,
     output_bytes := outb,
     failsafe_policy := cfg_failsafe_policy cfg,
     exchange_timeout_us := (if cfg_exchange_timeout_us cfg \<noteq> 0 then cfg_exchange_timeout_us cfg
       else scanner_cfg_u32 e ''SOFTPLC_SCANNER_EXCHANGE_TIMEOUT_US'' EIP_SCANNER_DEFAULT_EXCHANGE_TIMEOUT_US),
     failsafe_timeout_us := (if cfg_failsafe_timeout_us cfg \<noteq> 0 then cfg_failsafe_timeout_us cfg
       else scanner_cfg_u32 e ''SOFTPLC_SCANNER_FAILSAFE_TIMEOUT_US'' EIP_SCANNER_DEFAULT_FAILSAFE_TIMEOUT_US),
     cap_flags := PLC_ADAPTER_CAP_OUT_OF_PROCESS,
     point_override_capacity := 0\<rparr>"

definition scanner_instance_of :: "plc_adapter_config \<Rightarrow> string" where
  "scanner_instance_of cfg = snprintf_s EIP_SCANNER_INSTANCE_MAX
     (case nonempty (cfg_endpoint cfg) of Some s \<Rightarrow> s
      | None \<Rightarrow> (case nonempty (cfg_name cfg) of Some s \<Rightarrow> s | None \<Rightarrow> ''default''))"

definition scanner_create_sems ::
  "bool \<times> bool \<Rightarrow> os_faults \<Rightarrow> scanner_proxy \<Rightarrow> plc_status \<times> scanner_proxy" where
  "scanner_create_sems sf f p =
     (case plc_sem_create (f\<lparr>f_sem_open := fst sf\<rparr>) (sx_sem_req_name p) (sx_kern p) of (st, s, k) \<Rightarrow>
        let p = p\<lparr>sx_sem_req := s, sx_kern := k\<rparr> in
        if st \<noteq> PLC_OK then (st, p)
        else (case plc_sem_create (f\<lparr>f_sem_open := snd sf\<rparr>) (sx_sem_rsp_name p) k of (st, s, k) \<Rightarrow>
          (st, p\<lparr>sx_sem_rsp := s, sx_kern := k\<rparr>)))"

text \<open>The part of \<open>proxy_open\<close> after the table is loaded and the sizes are accepted.\<close>

definition scanner_publish ::
  "scanner_proxy \<Rightarrow> plc_adapter_config \<Rightarrow> scanner_env \<Rightarrow> eip_scanner_config \<Rightarrow> plc_status \<times> scanner_proxy" where
  "scanner_publish p cfg e table =
     (let health = EIP_SCANNER_HEALTH_BYTES (length (c_devices table));
          shm_name = eip_scanner_shm_name EIP_SCANNER_SHM_NAME_MAX (sx_instance p);
          p = p\<lparr>sx_sem_req_name := eip_scanner_sem_req_name EIP_SCANNER_SHM_NAME_MAX (sx_instance p),
                sx_sem_rsp_name := eip_scanner_sem_rsp_name EIP_SCANNER_SHM_NAME_MAX (sx_instance p)\<rparr>
      in (case plc_shm_create (ev_faults e) shm_name eip_scanner_shm_bytes (sx_shm p) (sx_kern p) of
            (st, shm, k) \<Rightarrow>
              let p = p\<lparr>sx_shm := shm, sx_kern := k\<rparr> in
              if st \<noteq> PLC_OK then (st, p)
              else
                let p = p\<lparr>sx_map := Some (scanner_fresh_map table)\<rparr> in
                (case scanner_create_sems (ev_sem_faults e) (ev_faults e) p of (st, p) \<Rightarrow>
                   if st \<noteq> PLC_OK then (st, scanner_teardown p)
                   else (PLC_OK, p\<lparr>
                     sx_map := Some ((scanner_fresh_map table)\<lparr>s_magic := EIP_SCANNER_SHM_MAGIC\<rparr>),
                     sx_caps := scanner_caps_of e cfg (health + c_total_t2o_bytes table) (c_total_o2t_bytes table),
                     sx_stats := stats_zero,
                     sx_last_good := replicate 496 0,
                     sx_next_seq := 1,
                     sx_opened_us := ev_start e,
                     sx_stale := staleness_zero,
                     sx_state := PLC_ADAPTER_OPENING\<rparr>))))"

definition scanner_open ::
  "scanner_proxy \<Rightarrow> plc_adapter_config \<Rightarrow> scanner_env \<Rightarrow> plc_status \<times> scanner_proxy" where
  "scanner_open p cfg e =
     (if sx_state p \<noteq> PLC_ADAPTER_CLOSED then (PLC_ERR_STATE, p)
      else
        let p = p\<lparr>sx_instance := scanner_instance_of cfg\<rparr> in
        (case eip_scanner_config_load (ev_fs e) (device_table_path e) scanner_config_zero of (st, err, table) \<Rightarrow>
           if st \<noteq> PLC_OK then (st, p)
           else if EIP_SCANNER_HEALTH_BYTES (length (c_devices table)) + c_total_t2o_bytes table
             > PLC_IPC_MAX_FRAME_BYTES
           then (PLC_ERR_INVAL, p)
           else scanner_publish p cfg e table))"

definition scanner_close :: "scanner_proxy \<Rightarrow> plc_status \<times> scanner_proxy" where
  "scanner_close p =
     (if sx_state p = PLC_ADAPTER_CLOSED then (PLC_OK, p)
      else (PLC_OK, (scanner_teardown p)\<lparr>sx_state := PLC_ADAPTER_CLOSED\<rparr>))"

subsection \<open>The cyclic exchange\<close>

definition scanner_fail ::
  "scanner_proxy \<Rightarrow> byte list option \<Rightarrow> size_t \<Rightarrow> plc_status \<Rightarrow> u64
   \<Rightarrow> plc_status \<times> scanner_proxy \<times> byte list option" where
  "scanner_fail p in_buf in_len reason now =
     (let p = p\<lparr>sx_stats := (sx_stats p)\<lparr>timeouts := timeouts (sx_stats p) + 1\<rparr>\<rparr>;
          age = plc_staleness_age_us now (sx_stale p) (sx_opened_us p);
          p = p\<lparr>sx_stats := (sx_stats p)\<lparr>stale_for_us := age\<rparr>\<rparr>
      in if age \<ge> ucast (failsafe_timeout_us (sx_caps p)) then
           let p = (if sx_state p \<noteq> PLC_ADAPTER_FAULTED
                    then p\<lparr>sx_state := PLC_ADAPTER_FAULTED,
                           sx_stats := (sx_stats p)\<lparr>failsafe_activations :=
                             failsafe_activations (sx_stats p) + 1\<rparr>\<rparr>
                    else p)
           in (reason, p, plc_adapter_apply_failsafe (failsafe_policy (sx_caps p)) in_buf
                 (Some (sx_last_good p)) in_len)
         else
           let p = (if sx_state p = PLC_ADAPTER_ONLINE then p\<lparr>sx_state := PLC_ADAPTER_DEGRADED\<rparr> else p)
           in (reason, p, plc_adapter_apply_failsafe PLC_FAILSAFE_HOLD in_buf (Some (sx_last_good p)) in_len))"

definition scanner_map_upd :: "(eip_scanner_shm \<Rightarrow> eip_scanner_shm) \<Rightarrow> scanner_proxy \<Rightarrow> scanner_proxy" where
  "scanner_map_upd f p = p\<lparr>sx_map := map_option f (sx_map p)\<rparr>"

definition scanner_protocol_error :: "scanner_proxy \<Rightarrow> scanner_proxy" where
  "scanner_protocol_error p =
     p\<lparr>sx_stats := (sx_stats p)\<lparr>protocol_errors := protocol_errors (sx_stats p) + 1\<rparr>\<rparr>"

fun scanner_reply_loop :: "u32 \<Rightarrow> plc_spsc_ring list \<Rightarrow> scanner_proxy \<Rightarrow> reply \<times> scanner_proxy" where
  "scanner_reply_loop seq [] p = (Queue_empty, p)"
| "scanner_reply_loop seq (r # rs) p =
     (case plc_spsc_pop r (sx_scratch p) PLC_IPC_MAX_FRAME_BYTES of (st, r, f) \<Rightarrow>
        let p = (scanner_map_upd (s_rsp_update (\<lambda>_. r)) p)\<lparr>sx_scratch := f\<rparr> in
        if st = PLC_ERR_AGAIN then (Queue_empty, p)
        else if st \<noteq> PLC_OK then (Missed PLC_ERR_PROTO, scanner_protocol_error p)
        else if sint (fr_seq f - seq) < 0 then scanner_reply_loop seq rs p
        else if fr_seq f \<noteq> seq then (Missed PLC_ERR_PROTO, scanner_protocol_error p)
        else (Matched, p))"

fun scanner_wait_loop :: "u64 \<Rightarrow> u32 \<Rightarrow> wake list \<Rightarrow> scanner_proxy \<Rightarrow> reply \<times> scanner_proxy" where
  "scanner_wait_loop t0 seq [] p = (Missed PLC_ERR_TIMEOUT, p)"
| "scanner_wait_loop t0 seq (w # ws) p =
     (let budget = ucast (exchange_timeout_us (sx_caps p)); spent = wk_now w - t0 in
      if spent \<ge> budget then (Missed PLC_ERR_TIMEOUT, p)
      else
        let st = plc_sem_wait_timeout (ucast (budget - spent)) (wk_sem w) in
        if st = PLC_ERR_TIMEOUT then (Missed PLC_ERR_TIMEOUT, p)
        else if st \<noteq> PLC_OK then (Missed PLC_ERR_IO, scanner_protocol_error p)
        else (case scanner_reply_loop seq (wk_rings w) p of
                (Queue_empty, p) \<Rightarrow> scanner_wait_loop t0 seq ws p
              | (r, p) \<Rightarrow> (r, p)))"

definition scanner_accept_copy ::
  "scanner_proxy \<Rightarrow> byte list option \<Rightarrow> size_t \<Rightarrow> scanner_proxy \<times> byte list option" where
  "scanner_accept_copy p in_buf in_len =
     (let got = (if ucast (fr_len (sx_scratch p)) < in_len then ucast (fr_len (sx_scratch p)) else in_len) in
      (case in_buf of
         None \<Rightarrow> (p, None)
       | Some bs \<Rightarrow>
           if in_len \<noteq> 0 then
             let bs = (let bs = (if got \<noteq> 0
                                 then put_slice 0 (get_slice 0 (unat got) (fr_data (sx_scratch p))) bs else bs)
                       in if got < in_len
                          then put_slice (unat got) (replicate (unat (in_len - got)) 0) bs else bs)
             in (p\<lparr>sx_last_good := put_slice 0 (get_slice 0 (unat in_len) bs) (sx_last_good p)\<rparr>, Some bs)
           else (p, Some bs)))"

text \<open>The accounting of a good exchange, and the state it leaves: degraded with no device online.\<close>

definition scanner_accept_account ::
  "scanner_proxy \<Rightarrow> u32 \<Rightarrow> u64 \<Rightarrow> u64 \<Rightarrow> u64 \<Rightarrow> scanner_proxy" where
  "scanner_accept_account p online t0 now now_rtt =
     (let rtt = now_rtt - t0;
          p = p\<lparr>sx_stats := (sx_stats p)\<lparr>exchanges := exchanges (sx_stats p) + 1\<rparr>\<rparr>;
          p = p\<lparr>sx_stale := plc_staleness_mark_fresh now (sx_stale p)\<rparr>;
          p = p\<lparr>sx_stats := (sx_stats p)\<lparr>stale_for_us := 0, last_rtt_us := rtt\<rparr>\<rparr>;
          p = (if rtt > max_rtt_us (sx_stats p)
               then p\<lparr>sx_stats := (sx_stats p)\<lparr>max_rtt_us := rtt\<rparr>\<rparr> else p)
      in if online = 0 then
           (if sx_state p \<noteq> PLC_ADAPTER_DEGRADED then p\<lparr>sx_state := PLC_ADAPTER_DEGRADED\<rparr> else p)
         else
           (if sx_state p \<noteq> PLC_ADAPTER_ONLINE then p\<lparr>sx_state := PLC_ADAPTER_ONLINE\<rparr> else p))"

definition scanner_exchange ::
  "scanner_proxy \<Rightarrow> byte list option \<Rightarrow> size_t \<Rightarrow> byte list option \<Rightarrow> size_t \<Rightarrow> scanner_env
   \<Rightarrow> plc_status \<times> scanner_proxy \<times> byte list option" where
  "scanner_exchange p out out_len in_buf in_len e =
     (if sx_state p = PLC_ADAPTER_CLOSED \<or> sx_map p = None then (PLC_ERR_STATE, p, in_buf)
      else if out_len > ucast (output_bytes (sx_caps p)) \<or> in_len > ucast (input_bytes (sx_caps p))
      then (PLC_ERR_INVAL, p, in_buf)
      else
        let t0 = ev_start e;
            seq = sx_next_seq p;
            p = p\<lparr>sx_next_seq := sx_next_seq p + 1\<rparr>;
            p = scanner_map_upd (s_rsp_update (\<lambda>_. plc_spsc_drain (ev_rsp e))) p
        in (case plc_spsc_push (ev_req e) seq out (ucast out_len) of (st, req) \<Rightarrow>
              let p = scanner_map_upd (s_req_update (\<lambda>_. req)) p in
              if st \<noteq> PLC_OK then scanner_fail p in_buf in_len PLC_ERR_TIMEOUT (ev_end e)
              else (case scanner_wait_loop t0 seq (ev_wakes e) p of
                      (Missed reason, p) \<Rightarrow> scanner_fail p in_buf in_len reason (ev_end e)
                    | (_, p) \<Rightarrow>
                        (case scanner_accept_copy p in_buf in_len of (p, in_buf) \<Rightarrow>
                           (PLC_OK, scanner_accept_account p (ev_online e) t0 (ev_end e) (ev_rtt e), in_buf)))))"

subsection \<open>Introspection and the dispatch table\<close>

definition scanner_caps :: "scanner_proxy \<Rightarrow> plc_status \<times> plc_adapter_caps" where
  "scanner_caps p = (PLC_OK, sx_caps p)"

definition scanner_stats :: "scanner_proxy \<Rightarrow> plc_status \<times> plc_adapter_stats" where
  "scanner_stats p = (PLC_OK, sx_stats p)"

definition scanner_state :: "scanner_proxy \<Rightarrow> plc_adapter_state_t" where
  "scanner_state p = sx_state p"

definition plc_eip_scanner_devices_online :: "scanner_proxy \<Rightarrow> u32" where
  "plc_eip_scanner_devices_online p =
     (case sx_map p of None \<Rightarrow> 0 | Some m \<Rightarrow> ss_devices_online (s_status m))"

definition kScannerVtbl :: "(scanner_proxy, scanner_env) plc_adapter_vtbl" where
  "kScannerVtbl = \<lparr>vt_open = Some scanner_open, vt_close = Some scanner_close, vt_exchange = Some scanner_exchange,
     vt_get_caps = Some scanner_caps, vt_get_stats = Some scanner_stats, vt_state = Some scanner_state\<rparr>"

definition scanner_create ::
  "bool \<Rightarrow> bool \<Rightarrow> kern \<Rightarrow> (scanner_proxy, scanner_env) plc_protocol_adapter option" where
  "scanner_create alloc_a alloc_impl k =
     (if \<not> alloc_a \<or> \<not> alloc_impl then None
      else Some \<lparr>vtbl = Some kScannerVtbl,
        impl = \<lparr>sx_caps = caps_zero, sx_stats = stats_zero, sx_state = PLC_ADAPTER_CLOSED, sx_instance = [],
          sx_shm = shm_zero\<lparr>sh_fd := -1\<rparr>, sx_map = None, sx_sem_req = None, sx_sem_rsp = None,
          sx_sem_req_name = [], sx_sem_rsp_name = [], sx_next_seq = 0, sx_stale = staleness_zero,
          sx_opened_us = 0, sx_last_good = replicate 496 0, sx_scratch = frame_zero, sx_kern = k\<rparr>\<rparr>)"

definition scanner_destroy :: "(scanner_proxy, scanner_env) plc_protocol_adapter \<Rightarrow> kern" where
  "scanner_destroy a = sx_kern (snd (scanner_close (impl a)))"

subsection \<open>A scanner proxy seen as an adapter proxy\<close>

definition as_eip_map :: "eip_scanner_shm \<Rightarrow> eip_shm" where
  "as_eip_map m = eip_shm_zero\<lparr>m_req := s_req m, m_rsp := s_rsp m\<rparr>"

definition as_eip :: "scanner_proxy \<Rightarrow> eip_proxy" where
  "as_eip p = \<lparr>px_caps = sx_caps p, px_stats = sx_stats p, px_state = sx_state p, px_instance = sx_instance p,
     px_shm = sx_shm p, px_map = map_option as_eip_map (sx_map p), px_sem_req = sx_sem_req p,
     px_sem_rsp = sx_sem_rsp p, px_sem_req_name = sx_sem_req_name p, px_sem_rsp_name = sx_sem_rsp_name p,
     px_next_seq = sx_next_seq p, px_stale = sx_stale p, px_opened_us = sx_opened_us p,
     px_last_good = sx_last_good p, px_scratch = sx_scratch p, px_kern = sx_kern p\<rparr>"

lemma as_eip_fields [simp]:
  "px_caps (as_eip p) = sx_caps p" "px_stats (as_eip p) = sx_stats p" "px_state (as_eip p) = sx_state p"
  "px_shm (as_eip p) = sx_shm p" "px_map (as_eip p) = map_option as_eip_map (sx_map p)"
  "px_sem_req (as_eip p) = sx_sem_req p" "px_sem_rsp (as_eip p) = sx_sem_rsp p"
  "px_sem_req_name (as_eip p) = sx_sem_req_name p" "px_sem_rsp_name (as_eip p) = sx_sem_rsp_name p"
  "px_next_seq (as_eip p) = sx_next_seq p" "px_stale (as_eip p) = sx_stale p"
  "px_opened_us (as_eip p) = sx_opened_us p" "px_last_good (as_eip p) = sx_last_good p"
  "px_scratch (as_eip p) = sx_scratch p" "px_kern (as_eip p) = sx_kern p" "px_instance (as_eip p) = sx_instance p"
  by (simp_all add: as_eip_def)

lemma as_eip_updates:
  "as_eip (p\<lparr>sx_scratch := f\<rparr>) = (as_eip p)\<lparr>px_scratch := f\<rparr>"
  "as_eip (p\<lparr>sx_state := s\<rparr>) = (as_eip p)\<lparr>px_state := s\<rparr>"
  "as_eip (p\<lparr>sx_stats := t\<rparr>) = (as_eip p)\<lparr>px_stats := t\<rparr>"
  "as_eip (p\<lparr>sx_stale := u\<rparr>) = (as_eip p)\<lparr>px_stale := u\<rparr>"
  "as_eip (p\<lparr>sx_last_good := b\<rparr>) = (as_eip p)\<lparr>px_last_good := b\<rparr>"
  "as_eip (p\<lparr>sx_next_seq := n\<rparr>) = (as_eip p)\<lparr>px_next_seq := n\<rparr>"
  "as_eip (scanner_map_upd (s_rsp_update (\<lambda>_. r)) p) = map_upd (m_rsp_update (\<lambda>_. r)) (as_eip p)"
  "as_eip (scanner_map_upd (s_req_update (\<lambda>_. r)) p) = map_upd (m_req_update (\<lambda>_. r)) (as_eip p)"
  "as_eip (scanner_protocol_error p) = protocol_error (as_eip p)"
  by (simp_all add: as_eip_def scanner_map_upd_def map_upd_def as_eip_map_def eip_shm_zero_def option.map_comp comp_def
      scanner_protocol_error_def protocol_error_def)

lemma reply_loop_as_eip:
  "reply_loop seq rs (as_eip p) = map_prod id as_eip (scanner_reply_loop seq rs p)"
proof (induction seq rs p rule: scanner_reply_loop.induct)
  case (2 seq r rs p)
  obtain st r' f where pop: "plc_spsc_pop r (sx_scratch p) 496 = (st, r', f)" by (metis prod_cases3)
  note IH = 2 [OF pop [symmetric] refl refl]
  show ?case using IH pop by (simp add: Let_def as_eip_updates [symmetric])
qed simp

lemma wait_loop_as_eip:
  "wait_loop t0 seq ws (as_eip p) = map_prod id as_eip (scanner_wait_loop t0 seq ws p)"
proof (induction t0 seq ws p rule: scanner_wait_loop.induct)
  case (2 t0 seq w ws p)
  obtain r q where rl: "scanner_reply_loop seq (wk_rings w) p = (r, q)" by force
  note IH = 2 [OF refl refl _ refl _ _ rl [symmetric]]
  show ?case
    using IH rl by (cases r) (simp_all add: Let_def reply_loop_as_eip as_eip_updates [symmetric])
qed simp

lemma fail_as_eip:
  "proxy_fail (as_eip p) buf il reason now = map_prod id (map_prod as_eip id) (scanner_fail p buf il reason now)"
  by (simp add: proxy_fail_def scanner_fail_def Let_def flip: as_eip_updates)

lemma accept_copy_as_eip:
  "accept_copy (as_eip p) buf il = map_prod as_eip id (scanner_accept_copy p buf il)"
  by (cases buf) (simp_all add: accept_copy_def scanner_accept_copy_def Let_def as_eip_updates)

lemma accept_copy_from_eip:
  "scanner_accept_copy p (Some b) il =
    (p\<lparr>sx_last_good := px_last_good (fst (accept_copy (as_eip p) (Some b) il))\<rparr>,
     snd (accept_copy (as_eip p) (Some b) il))"
  by (simp add: accept_copy_def scanner_accept_copy_def Let_def)

definition reply_state :: "u32 \<Rightarrow> plc_adapter_state_t" where
  "reply_state online = (if online = 0 then PLC_ADAPTER_DEGRADED else PLC_ADAPTER_ONLINE)"

lemma account_as_eip:
  "as_eip (scanner_accept_account p online t0 now rtt) =
    (accept_account (as_eip p) t0 now rtt)\<lparr>px_state := reply_state online\<rparr>"
  by (simp add: accept_account_def scanner_accept_account_def reply_state_def Let_def as_eip_updates)

lemma fail_buffer:
  "fst (snd (scanner_fail p buf il reason now)) = fst (snd (scanner_fail p None il reason now))"
  by (simp add: scanner_fail_def Let_def)

subsection \<open>The image of one exchange\<close>

definition scanner_sent :: "scanner_proxy \<Rightarrow> plc_spsc_ring \<Rightarrow> scanner_env \<Rightarrow> scanner_proxy" where
  "scanner_sent p req e = scanner_map_upd (s_req_update (\<lambda>_. req))
     (scanner_map_upd (s_rsp_update (\<lambda>_. plc_spsc_drain (ev_rsp e))) (p\<lparr>sx_next_seq := sx_next_seq p + 1\<rparr>))"

lemma sent_as_eip: "as_eip (scanner_sent p req e) = px_sent (as_eip p) req (eip_env.truncate e)"
  by (simp add: scanner_sent_def px_sent_def as_eip_updates eip_env.defs)

definition sx_inv :: "scanner_proxy \<Rightarrow> bool" where
  "sx_inv p \<longleftrightarrow> px_inv (as_eip p)"

definition scanner_env_ok :: "scanner_env \<Rightarrow> bool" where
  "scanner_env_ok e \<longleftrightarrow> eip_env_ok (eip_env.truncate e)"

lemma scanner_exchange_unfold:
  assumes "sx_inv p" and "unat ol \<le> unat (output_bytes (sx_caps p))" and "unat il \<le> unat (input_bytes (sx_caps p))"
    and "plc_spsc_push (ev_req e) (sx_next_seq p) out (ucast ol) = (st, req)"
    and "scanner_wait_loop (ev_start e) (sx_next_seq p) (ev_wakes e) (scanner_sent p req e) = (r, q)"
  shows "scanner_exchange p out ol buf il e =
    (if st \<noteq> PLC_OK then scanner_fail (scanner_sent p req e) buf il PLC_ERR_TIMEOUT (ev_end e)
     else (case r of
        Missed reason \<Rightarrow> scanner_fail q buf il reason (ev_end e)
      | _ \<Rightarrow> (case scanner_accept_copy q buf il of (p, b) \<Rightarrow>
               (PLC_OK, scanner_accept_account p (ev_online e) (ev_start e) (ev_end e) (ev_rtt e), b))))"
proof -
  obtain m where "sx_map p = Some m" "sx_state p \<noteq> PLC_ADAPTER_CLOSED"
    using assms(1) by (auto simp: sx_inv_def px_inv_def)
  moreover have "\<not> (ucast (output_bytes (sx_caps p)) < ol \<or> ucast (input_bytes (sx_caps p)) < il)"
    using assms(2,3) by (simp add: word_less_nat_alt)
  ultimately show ?thesis
    using assms(4,5) by (simp add: scanner_exchange_def scanner_sent_def Let_def split: reply.split)
qed

text \<open>
  The two outcomes of a scanner's exchange, in the vocabulary of the adapter's: a reply of its
  own, or a miss. A frame's flags are never looked at.
\<close>

definition scanner_outcome ::
  "scanner_proxy \<Rightarrow> scanner_env \<Rightarrow> nat \<Rightarrow> plc_status \<Rightarrow> byte list \<Rightarrow> scanner_proxy \<Rightarrow> bool" where
  "scanner_outcome p e n st img p' \<longleftrightarrow>
     sx_inv p' \<and> sx_caps p' = sx_caps p \<and> length img = n \<and> sx_next_seq p' = sx_next_seq p + 1
     \<and> (if st = PLC_OK
        then (\<exists>f. own_reply (as_eip p) (eip_env.truncate e) f \<and> img = reply_image f n)
          \<and> take n (sx_last_good p') = img \<and> sx_state p' = reply_state (ev_online e)
          \<and> sx_stale p' = \<lparr>last_good_us = ev_end e, have_good = True\<rparr>
        else st \<in> {PLC_ERR_TIMEOUT, PLC_ERR_IO, PLC_ERR_PROTO}
          \<and> missed_outcome (as_eip p) (eip_env.truncate e) n img (as_eip p'))"

lemma scanner_missed:
  assumes "sx_inv p" and "unat il \<le> 496" and "px_frame ((as_eip p)\<lparr>px_next_seq := sx_next_seq p + 1\<rparr>) (as_eip q)"
    and "sx_inv q" and "reason \<in> {PLC_ERR_TIMEOUT, PLC_ERR_IO, PLC_ERR_PROTO}"
  shows "\<exists>st p' img. (\<forall>b. length b = unat il \<longrightarrow> scanner_fail q (Some b) il reason (ev_end e) = (st, p', Some img))
    \<and> scanner_outcome p e (unat il) st img p'"
proof -
  let ?x = "fst (snd (scanner_fail q None il reason (ev_end e)))"
  have fr: "px_frame ((as_eip p)\<lparr>px_next_seq := px_next_seq (as_eip p) + 1\<rparr>) (as_eip q)" using assms(3) by simp
  from missed_exchange [OF assms(1) [unfolded sx_inv_def] assms(2) fr assms(4) [unfolded sx_inv_def] assms(5),
      of "eip_env.truncate e"] obtain st p' img where
    *: "\<And>b. length b = unat il \<Longrightarrow> proxy_fail (as_eip q) (Some b) il reason (ev_end e) = (st, p', Some img)"
      "exchange_outcome (as_eip p) (eip_env.truncate e) (unat il) st img p'"
    by (auto simp: eip_env.defs)
  have b: "scanner_fail q (Some b) il reason (ev_end e) = (st, ?x, Some img) \<and> as_eip ?x = p'" if "length b = unat il" for b
    using *(1) [OF that] fail_as_eip [of q "Some b" il reason "ev_end e"]
      fail_buffer [of q "Some b" il reason "ev_end e"]
    by (cases "scanner_fail q (Some b) il reason (ev_end e)") auto
  then have x: "as_eip ?x = p'" using length_replicate [of "unat il" 0] by blast
  have st: "st = reason"
    using b [of "replicate (unat il) 0"] by (auto simp: scanner_fail_def Let_def split: if_splits)
  have "scanner_outcome p e (unat il) st img ?x"
    using *(2) assms(5) unfolding x [symmetric] st
    by (auto simp: exchange_outcome_def scanner_outcome_def sx_inv_def)
  with b show ?thesis by blast
qed

lemma scanner_matched:
  assumes "sx_inv q" and "fr_len (sx_scratch q) \<le> 496" and "unat il \<le> unat (input_bytes (sx_caps q))"
  shows "\<exists>p'. (\<forall>b. length b = unat il \<longrightarrow>
        (case scanner_accept_copy q (Some b) il of (p, b') \<Rightarrow>
           (PLC_OK, scanner_accept_account p online t0 now rtt, b')) =
        (PLC_OK, p', Some (reply_image (sx_scratch q) (unat il))))
    \<and> sx_inv p' \<and> sx_caps p' = sx_caps q
    \<and> sx_last_good p' = reply_image (sx_scratch q) (unat il) @ drop (unat il) (sx_last_good q)
    \<and> sx_stale p' = \<lparr>last_good_us = now, have_good = True\<rparr> \<and> sx_state p' = reply_state online
    \<and> sx_next_seq p' = sx_next_seq q"
proof -
  let ?img = "reply_image (sx_scratch q) (unat il)"
  let ?q = "q\<lparr>sx_last_good := ?img @ drop (unat il) (sx_last_good q)\<rparr>"
  let ?p = "scanner_accept_account ?q online t0 now rtt"
  have inv: "px_inv (as_eip q)" using assms(1) by (simp add: sx_inv_def)
  have il: "unat il \<le> 496" using inv assms(3) by (simp add: px_inv_def)
  have copy: "scanner_accept_copy q (Some b) il = (?q, Some ?img)" if "length b = unat il" for b
    using accept_copy_image [OF inv _ il that] assms(2) by (simp add: accept_copy_from_eip)
  have e: "as_eip ?p = (accept_account (as_eip ?q) t0 now rtt)\<lparr>px_state := reply_state online\<rparr>"
    by (rule account_as_eip)
  have f: "sx_caps ?p = px_caps (as_eip ?p)" "sx_last_good ?p = px_last_good (as_eip ?p)"
    "sx_stale ?p = px_stale (as_eip ?p)" "sx_state ?p = px_state (as_eip ?p)"
    "sx_next_seq ?p = px_next_seq (as_eip ?p)" by (simp_all only: as_eip_fields)
  have "px_inv ((as_eip ?q)\<lparr>px_state := PLC_ADAPTER_ONLINE\<rparr>)"
    using inv il by (simp add: px_inv_def reply_image_def)
  then have "px_inv (accept_account (as_eip ?q) t0 now rtt)" by (simp only: accept_account_fields)
  then have "px_inv ((accept_account (as_eip ?q) t0 now rtt)\<lparr>px_state := reply_state online\<rparr>)"
    by (simp add: px_inv_def reply_state_def)
  then have "sx_inv ?p" unfolding sx_inv_def e .
  then show ?thesis
    using copy by (intro exI [of _ ?p]) (simp add: f e accept_account_fields as_eip_updates)
qed

lemma scanner_exchange_outcome:
  assumes inv: "sx_inv p" and ok: "scanner_env_ok e" and ol: "unat ol \<le> unat (output_bytes (sx_caps p))"
    and il: "unat il \<le> unat (input_bytes (sx_caps p))"
  shows "\<exists>st p' img. (\<forall>b. length b = unat il \<longrightarrow> scanner_exchange p out ol (Some b) il e = (st, p', Some img))
    \<and> scanner_outcome p e (unat il) st img p'"
proof -
  let ?e = "eip_env.truncate e"
  obtain st1 req where push: "plc_spsc_push (ev_req e) (sx_next_seq p) out (ucast ol) = (st1, req)" by force
  obtain r q where wl: "scanner_wait_loop (ev_start e) (sx_next_seq p) (ev_wakes e) (scanner_sent p req e) = (r, q)"
    by force
  note ex = scanner_exchange_unfold [OF inv ol il push wl]
  have inv': "px_inv (as_eip p)" using inv by (simp add: sx_inv_def)
  have il': "unat il \<le> 496" using inv' il by (simp add: px_inv_def)
  have wl': "wait_loop (ev_start e) (sx_next_seq p) (ev_wakes e) (px_sent (as_eip p) req ?e) = (r, as_eip q)"
    using wl by (simp add: wait_loop_as_eip flip: sent_as_eip)
  note sent = px_sent_facts [of "as_eip p" req ?e]
  have "frame_wf (px_scratch (px_sent (as_eip p) req ?e))" "list_all wake_ok (ev_wakes e)"
    using inv' ok sent(2) by (auto simp: px_inv_def scanner_env_ok_def eip_env_ok_def eip_env.defs)
  note out = wait_loop_outcome [OF wl' this(2) this(1)]
  have fr: "px_frame ((as_eip p)\<lparr>px_next_seq := sx_next_seq p + 1\<rparr>) (as_eip q)"
    using sent(1) out px_frame_trans by fastforce
  have q: "sx_inv q" unfolding sx_inv_def
    using px_inv_frame [of "px_sent (as_eip p) req ?e" "as_eip q"] out sent(3) [OF inv'] by simp
  consider (full) "st1 \<noteq> PLC_OK" | (missed) reason where "st1 = PLC_OK" "r = Missed reason"
    | (matched) "st1 = PLC_OK" "r = Matched" using out by (cases r) auto
  then show ?thesis
  proof cases
    case full
    have "sx_inv (scanner_sent p req e)" using sent(3) [OF inv'] by (simp add: sx_inv_def sent_as_eip)
    moreover have "px_frame ((as_eip p)\<lparr>px_next_seq := sx_next_seq p + 1\<rparr>) (as_eip (scanner_sent p req e))"
      using sent(1) by (simp add: sent_as_eip)
    ultimately show ?thesis using scanner_missed [OF inv il', of "scanner_sent p req e" PLC_ERR_TIMEOUT] full
      unfolding ex by simp
  next
    case missed
    with scanner_missed [OF inv il' fr q, of reason] out show ?thesis unfolding ex by auto
  next
    case matched
    define f where "f = sx_scratch q"
    have own: "own_reply (as_eip p) ?e f" using out matched by (auto simp: own_reply_def f_def eip_env.defs)
    then have len: "fr_len f \<le> 496" by (auto simp: own_reply_def taken_from_def)
    have il_q: "unat il \<le> unat (input_bytes (sx_caps q))" using il fr by (simp add: px_frame_def)
    from scanner_matched [OF q len [unfolded f_def] il_q, of "ev_online e" "ev_start e" "ev_end e" "ev_rtt e"]
    obtain p' where p': "\<And>b. length b = unat il \<Longrightarrow> scanner_exchange p out ol (Some b) il e =
          (PLC_OK, p', Some (reply_image f (unat il)))" "sx_inv p'" "sx_caps p' = sx_caps q"
        "sx_last_good p' = reply_image f (unat il) @ drop (unat il) (sx_last_good q)"
        "sx_stale p' = \<lparr>last_good_us = ev_end e, have_good = True\<rparr>" "sx_state p' = reply_state (ev_online e)"
        "sx_next_seq p' = sx_next_seq q"
      using matched unfolding ex f_def by auto
    have "scanner_outcome p e (unat il) PLC_OK (reply_image f (unat il)) p'"
      using p' fr own by (auto simp: scanner_outcome_def px_frame_def reply_image_def)
    with p'(1) show ?thesis by blast
  qed
qed

subsection \<open>The adapter contract\<close>

definition scanner_good :: "(scanner_proxy, scanner_env) plc_protocol_adapter \<Rightarrow> bool" where
  "scanner_good a \<longleftrightarrow> vtbl a = Some kScannerVtbl \<and> sx_inv (impl a)"

lemma scanner_wrapper:
  "scanner_good a \<Longrightarrow> out_fits ol out \<Longrightarrow>
   plc_adapter_exchange a out ol (Some b) il e =
     (case scanner_exchange (impl a) out ol (Some b) il e of (st, i, b') \<Rightarrow> (st, a\<lparr>impl := i\<rparr>, b'))"
  by (auto simp: plc_adapter_exchange_def scanner_good_def kScannerVtbl_def out_fits_def)

interpretation scan: io_adapter scanner_good "\<lambda>a. sx_caps (impl a)" scanner_env_ok
proof
  fix a :: "(scanner_proxy, scanner_env) plc_protocol_adapter" and e st a' b' and ol il :: size_t
    and out and b1 b2 :: "byte list"
  show "plc_adapter_get_caps a = (PLC_OK, Some (sx_caps (impl a)))" if "scanner_good a"
    using that by (simp add: scanner_good_def plc_adapter_get_caps_def kScannerVtbl_def scanner_caps_def)
  assume *: "scanner_good a" "scanner_env_ok e" "unat ol \<le> unat (output_bytes (sx_caps (impl a)))"
    "unat il \<le> unat (input_bytes (sx_caps (impl a)))" "out_fits ol out"
    "length b1 = unat il" "length b2 = unat il"
    and ex: "plc_adapter_exchange a out ol (Some b1) il e = (st, a', b')"
  from *(1) have inv: "sx_inv (impl a)" by (simp add: scanner_good_def)
  from scanner_exchange_outcome [OF inv *(2-4), of out] obtain st0 p' img where
    p': "\<And>b. length b = unat il \<Longrightarrow> scanner_exchange (impl a) out ol (Some b) il e = (st0, p', Some img)"
      "scanner_outcome (impl a) e (unat il) st0 img p'" by blast
  with * ex show "scanner_good a' \<and> sx_caps (impl a') = sx_caps (impl a)
      \<and> (\<exists>b. b' = Some b \<and> length b = unat il)
      \<and> plc_adapter_exchange a out ol (Some b2) il e = (st, a', b')"
    by (auto simp: scanner_wrapper) (auto simp: scanner_good_def scanner_outcome_def)
qed

definition valid_frames :: "scanner_env \<Rightarrow> bool" where
  "valid_frames e \<longleftrightarrow> (\<forall>w \<in> set (ev_wakes e). \<forall>r \<in> set (wk_rings w).
     fr_flags (ring_slot r 0) AND PLC_IPC_FRAME_DATA_INVALID = 0)"

lemma fail_pair:
  "\<exists>q img. scanner_fail x buf il reason now = (reason, q, img)
    \<and> proxy_fail (as_eip x) buf il reason now = (reason, as_eip q, img)"
proof -
  have "fst (scanner_fail x buf il reason now) = reason" by (simp add: scanner_fail_def Let_def)
  then show ?thesis by (cases "scanner_fail x buf il reason now") (simp add: fail_as_eip)
qed

lemma accept_pair:
  "\<exists>q q' img. (case scanner_accept_copy x buf il of (p, b) \<Rightarrow>
        (PLC_OK, scanner_accept_account p online t0 now rtt, b)) = (PLC_OK, q, img)
    \<and> proxy_accept (as_eip x) buf il t0 now rtt = (PLC_OK, q', img)
    \<and> as_eip q = q'\<lparr>px_state := reply_state online\<rparr>"
  by (cases "scanner_accept_copy x buf il") (simp add: proxy_accept_def accept_copy_as_eip account_as_eip)

lemma exchange_as_eip:
  assumes "sx_inv p" and "unat ol \<le> unat (output_bytes (sx_caps p))" and "unat il \<le> unat (input_bytes (sx_caps p))"
    and "plc_spsc_push (ev_req e) (sx_next_seq p) out (ucast ol) = (st, req)"
    and "scanner_wait_loop (ev_start e) (sx_next_seq p) (ev_wakes e) (scanner_sent p req e) = (r, q)"
  shows "proxy_exchange (as_eip p) out ol buf il (eip_env.truncate e) =
    (if st \<noteq> PLC_OK then proxy_fail (as_eip (scanner_sent p req e)) buf il PLC_ERR_TIMEOUT (ev_end e)
     else (case r of
        Missed reason \<Rightarrow> proxy_fail (as_eip q) buf il reason (ev_end e)
      | _ \<Rightarrow> if fr_flags (sx_scratch q) AND PLC_IPC_FRAME_DATA_INVALID \<noteq> 0
             then proxy_unusable (as_eip q) buf il (ev_end e)
             else proxy_accept (as_eip q) buf il (ev_start e) (ev_end e) (ev_rtt e)))"
proof -
  let ?e = "eip_env.truncate e"
  have ev: "ev_req ?e = ev_req e" "ev_wakes ?e = ev_wakes e" "ev_start ?e = ev_start e" "ev_end ?e = ev_end e"
    "ev_rtt ?e = ev_rtt e" by (simp_all add: eip_env.defs)
  have "wait_loop (ev_start e) (sx_next_seq p) (ev_wakes e) (px_sent (as_eip p) req ?e) = (r, as_eip q)"
    using assms(5) by (simp add: wait_loop_as_eip flip: sent_as_eip)
  from proxy_exchange_unfold [OF assms(1) [unfolded sx_inv_def], of ol il ?e out st req r "as_eip q" buf,
      unfolded ev as_eip_fields, OF assms(2-4) this]
  show ?thesis unfolding sent_as_eip .
qed

lemma exchange_pair:
  assumes "sx_inv p" and "scanner_env_ok e" and "valid_frames e"
    and "unat ol \<le> unat (output_bytes (sx_caps p))" and "unat il \<le> unat (input_bytes (sx_caps p))"
  shows "\<exists>st q q' img. scanner_exchange p out ol buf il e = (st, q, img)
    \<and> proxy_exchange (as_eip p) out ol buf il (eip_env.truncate e) = (st, q', img)
    \<and> as_eip q = q'\<lparr>px_state := (if st = PLC_OK then reply_state (ev_online e) else px_state q')\<rparr>"
proof -
  obtain st1 req where push: "plc_spsc_push (ev_req e) (sx_next_seq p) out (ucast ol) = (st1, req)" by force
  obtain r q where wl: "scanner_wait_loop (ev_start e) (sx_next_seq p) (ev_wakes e) (scanner_sent p req e) = (r, q)"
    by force
  note ex = scanner_exchange_unfold [OF assms(1,4,5) push wl, of buf]
    exchange_as_eip [OF assms(1,4,5) push wl, of buf]
  have "wait_loop (ev_start e) (sx_next_seq p) (ev_wakes e) (as_eip (scanner_sent p req e)) = (r, as_eip q)"
    using wl by (simp add: wait_loop_as_eip)
  moreover have "list_all wake_ok (ev_wakes e)" "frame_wf (px_scratch (as_eip (scanner_sent p req e)))"
    using assms(1,2) by (auto simp: scanner_env_ok_def eip_env_ok_def sx_inv_def px_inv_def sent_as_eip
        px_sent_facts(2) eip_env.defs)
  ultimately have out: "r \<noteq> Queue_empty" "\<And>st. r = Missed st \<Longrightarrow> st \<noteq> PLC_OK"
    "r = Matched \<Longrightarrow> \<exists>w \<in> set (ev_wakes e). \<exists>ring \<in> set (wk_rings w). taken_from (sx_scratch q) ring"
    using wait_loop_outcome by fastforce+
  consider (full) "st1 \<noteq> PLC_OK" | (missed) reason where "st1 = PLC_OK" "r = Missed reason"
    | (matched) "st1 = PLC_OK" "r = Matched" using out by (cases r) auto
  then show ?thesis
  proof cases
    case full
    with fail_pair [of "scanner_sent p req e" buf il PLC_ERR_TIMEOUT "ev_end e"] show ?thesis
      unfolding ex by auto
  next
    case missed
    with out(2) fail_pair [of q buf il reason "ev_end e"] show ?thesis unfolding ex by auto
  next
    case matched
    then have "fr_flags (sx_scratch q) AND 1 = 0"
      using assms(3) out(3) by (auto simp: valid_frames_def taken_from_def frame_msg_def)
    with matched accept_pair [where x = q and buf = buf and il = il and online = "ev_online e" and ?t0.0 = "ev_start e"
        and now = "ev_end e" and rtt = "ev_rtt e"] show ?thesis
      unfolding ex by auto
  qed
qed

text \<open>
  C17: The scanner's exchange and the adapter's exchange are the same algorithm. On every state,
  every output image, every caller's buffer and every behaviour of the peer in which no frame is
  flagged invalid (the scanner process never flags one), the two return the same status and the
  same input image, and leave the same sequence number, statistics, staleness, last good image
  and rings. They differ in one field: after a reply the scanner is degraded while no device is
  connected, where the adapter is online.
\<close>

theorem scanner_matches_adapter:
  assumes "sx_inv p" and "scanner_env_ok e" and "valid_frames e"
    and "unat ol \<le> unat (output_bytes (sx_caps p))" and "unat il \<le> unat (input_bytes (sx_caps p))"
  shows "\<exists>st q q' img. scanner_exchange p out ol buf il e = (st, q, img)
    \<and> proxy_exchange (as_eip p) out ol buf il (eip_env.truncate e) = (st, q', img)
    \<and> as_eip q = q'\<lparr>px_state := (if st = PLC_OK then reply_state (ev_online e) else px_state q')\<rparr>"
  by (rule exchange_pair [OF assms])

definition demo_scanner :: scanner_proxy where
  "demo_scanner = (impl (the (scanner_create True True kern_empty)))\<lparr>
     sx_state := PLC_ADAPTER_OPENING, sx_map := Some eip_scanner_shm_zero, sx_next_seq := 0,
     sx_opened_us := 1000, sx_last_good := replicate 496 7,
     sx_caps := caps_zero\<lparr>input_bytes := 2, output_bytes := 2, exchange_timeout_us := 5000,
       failsafe_timeout_us := 100000, failsafe_policy := PLC_FAILSAFE_CLEAR\<rparr>\<rparr>"

text \<open>The peer answers, after a signal and behind a late reply, while no device is connected.\<close>

definition scanner_answering_env :: scanner_env where
  "scanner_answering_env = eip_env.extend answering_env
     (scanner_env.fields (\<lambda>_. Fopen_fails True []) 0)"

lemma demo_scanner_facts:
  "sx_inv demo_scanner" "unat (output_bytes (sx_caps demo_scanner)) = 2"
  "unat (input_bytes (sx_caps demo_scanner)) = 2"
  by (simp_all add: demo_scanner_def scanner_create_def sx_inv_def px_inv_def frame_wf_def frame_zero_def)

lemma scanner_answering_env_facts:
  "eip_env.truncate scanner_answering_env = answering_env" "ev_wakes scanner_answering_env = ev_wakes answering_env"
  "ev_online scanner_answering_env = 0"
  by (simp_all add: scanner_answering_env_def eip_env.defs scanner_env.defs)

lemma scanner_answering_env_ok: "scanner_env_ok scanner_answering_env" "valid_frames scanner_answering_env"
  using answering_env_ok demo_ring_facts(3)
  by (simp_all add: scanner_env_ok_def valid_frames_def scanner_answering_env_facts answering_env_def)

theorem scanner_matches_adapter_witness:
  "\<exists>st q q' img. scanner_exchange demo_scanner (Some [1, 2]) 2 (Some [9, 9]) 2 scanner_answering_env = (st, q, img)
    \<and> proxy_exchange (as_eip demo_scanner) (Some [1, 2]) 2 (Some [9, 9]) 2 answering_env = (st, q', img)
    \<and> as_eip q = q'\<lparr>px_state := (if st = PLC_OK then PLC_ADAPTER_DEGRADED else px_state q')\<rparr>"
proof -
  have fits: "unat (2 :: size_t) \<le> unat (output_bytes (sx_caps demo_scanner))"
    "unat (2 :: size_t) \<le> unat (input_bytes (sx_caps demo_scanner))"
    by (simp_all add: demo_scanner_facts(2,3))
  have degraded: "reply_state 0 = PLC_ADAPTER_DEGRADED" by (simp add: reply_state_def)
  show ?thesis
    by (rule scanner_matches_adapter [OF demo_scanner_facts(1) scanner_answering_env_ok fits,
          of "Some [1, 2]" "Some [9, 9]", unfolded scanner_answering_env_facts degraded])
qed

subsection \<open>Opening and closing\<close>

lemma teardown_as_eip: "as_eip (scanner_teardown p) = proxy_teardown (as_eip p)"
  by (simp add: scanner_teardown_def proxy_teardown_def Let_def as_eip_def split: prod.split)

lemma scanner_create_sems_frame:
  assumes "scanner_create_sems sf f p = (st, p')"
  shows "sx_shm p' = sx_shm p \<and> sx_state p' = sx_state p \<and> sx_scratch p' = sx_scratch p
    \<and> sx_instance p' = sx_instance p
    \<and> open_fds (sx_kern p') = open_fds (sx_kern p) \<and> mapped (sx_kern p') = mapped (sx_kern p)"
  using assms by (auto simp: scanner_create_sems_def plc_sem_create_def Let_def split: if_splits)

lemma scanner_teardown_restores:
  assumes "kern_ok k0" and "plc_shm_create f (eip_scanner_shm_name 128 s) eip_scanner_shm_bytes shm0 k0 = (PLC_OK, shm, k)"
    and "s \<noteq> []" and "length s < 32"
    and "sx_shm q = shm" and "open_fds (sx_kern q) = open_fds k" and "mapped (sx_kern q) = mapped k"
  shows "open_fds (sx_kern (scanner_teardown q)) = open_fds k0 \<and> mapped (sx_kern (scanner_teardown q)) = mapped k0
    \<and> shm_names (sx_kern (scanner_teardown q)) (eip_scanner_shm_name 128 s) = None"
proof -
  have k: "sx_kern (scanner_teardown q) = px_kern (proxy_teardown (as_eip q))"
    by (simp flip: teardown_as_eip)
  show ?thesis
    unfolding k teardown_kern as_eip_fields assms(5)
    by (rule shm_close_after_create [OF assms(1) _ assms(2)])
      (use assms(3,4,6,7) scanner_name_bounds [of s] in \<open>simp_all add: sem_kern_frame eip_scanner_shm_bytes_def\<close>)
qed

lemma scanner_instance_bounds: "scanner_instance_of cfg \<noteq> [] \<and> length (scanner_instance_of cfg) < 32"
  by (auto simp: scanner_instance_of_def nonempty_def snprintf_s_def split: option.splits if_splits)

lemma load_wf: "eip_scanner_config_load fs path c0 = (PLC_OK, err, table) \<Longrightarrow> scanner_wf table"
  by (auto simp: eip_scanner_config_load_def Let_def split: file_open.splits if_splits intro: parse_wf)

lemma scanner_open_cases:
  assumes "sx_state p = PLC_ADAPTER_CLOSED" and "scanner_open p cfg e = (st, p')"
  obtains (refused) "st \<noteq> PLC_OK" and "p' = p\<lparr>sx_instance := scanner_instance_of cfg\<rparr>"
  | (published) err table where
      "eip_scanner_config_load (ev_fs e) (device_table_path e) scanner_config_zero = (PLC_OK, err, table)"
      and "\<not> EIP_SCANNER_HEALTH_BYTES (length (c_devices table)) + c_total_t2o_bytes table > 496"
      and "scanner_publish (p\<lparr>sx_instance := scanner_instance_of cfg\<rparr>) cfg e table = (st, p')"
  using assms unfolding scanner_open_def Let_def by (auto split: if_splits prod.splits intro: that)

definition scanner_named :: "scanner_proxy \<Rightarrow> scanner_proxy" where
  "scanner_named p = p\<lparr>sx_sem_req_name := eip_scanner_sem_req_name 128 (sx_instance p),
     sx_sem_rsp_name := eip_scanner_sem_rsp_name 128 (sx_instance p)\<rparr>"

lemma scanner_publish_cases:
  assumes "scanner_publish p cfg e table = (st, p')"
  obtains (shm) shm k where "st \<noteq> PLC_OK"
      and "plc_shm_create (ev_faults e) (eip_scanner_shm_name 128 (sx_instance p)) eip_scanner_shm_bytes (sx_shm p) (sx_kern p)
        = (st, shm, k)"
      and "p' = (scanner_named p)\<lparr>sx_shm := shm, sx_kern := k\<rparr>"
  | (sems) shm k p2 where "st \<noteq> PLC_OK"
      and "plc_shm_create (ev_faults e) (eip_scanner_shm_name 128 (sx_instance p)) eip_scanner_shm_bytes (sx_shm p) (sx_kern p)
        = (PLC_OK, shm, k)"
      and "scanner_create_sems (ev_sem_faults e) (ev_faults e)
        ((scanner_named p)\<lparr>sx_shm := shm, sx_kern := k, sx_map := Some (scanner_fresh_map table)\<rparr>) = (st, p2)"
      and "p' = scanner_teardown p2"
  | (ok) shm k p2 where "st = PLC_OK"
      and "plc_shm_create (ev_faults e) (eip_scanner_shm_name 128 (sx_instance p)) eip_scanner_shm_bytes (sx_shm p) (sx_kern p)
        = (PLC_OK, shm, k)"
      and "scanner_create_sems (ev_sem_faults e) (ev_faults e)
        ((scanner_named p)\<lparr>sx_shm := shm, sx_kern := k, sx_map := Some (scanner_fresh_map table)\<rparr>) = (PLC_OK, p2)"
      and "p' = p2\<lparr>sx_map := Some ((scanner_fresh_map table)\<lparr>s_magic := EIP_SCANNER_SHM_MAGIC\<rparr>),
        sx_caps := scanner_caps_of e cfg
          (EIP_SCANNER_HEALTH_BYTES (length (c_devices table)) + c_total_t2o_bytes table) (c_total_o2t_bytes table),
        sx_stats := stats_zero, sx_last_good := replicate 496 0, sx_next_seq := 1, sx_opened_us := ev_start e,
        sx_stale := staleness_zero, sx_state := PLC_ADAPTER_OPENING\<rparr>"
  using assms unfolding scanner_publish_def Let_def
  by (auto simp: scanner_named_def split: if_splits prod.splits intro: that)

lemma scanner_open_close:
  assumes "sx_state p = PLC_ADAPTER_CLOSED" and "kern_ok (sx_kern p)" and "frame_wf (sx_scratch p)"
    and "scanner_open p cfg e = (st, p')"
  shows "if st = PLC_OK
    then sx_inv p' \<and> map_option s_magic (sx_map p') = Some EIP_SCANNER_SHM_MAGIC
      \<and> open_fds (sx_kern (snd (scanner_close p'))) = open_fds (sx_kern p)
      \<and> mapped (sx_kern (snd (scanner_close p'))) = mapped (sx_kern p)
      \<and> shm_names (sx_kern (snd (scanner_close p'))) (eip_scanner_shm_name EIP_SCANNER_SHM_NAME_MAX (sx_instance p')) = None
    else sx_state p' = PLC_ADAPTER_CLOSED
      \<and> open_fds (sx_kern p') = open_fds (sx_kern p) \<and> mapped (sx_kern p') = mapped (sx_kern p)"
  using assms(1,4)
proof (cases rule: scanner_open_cases)
  case refused
  then show ?thesis using assms(1) by simp
next
  case (published err table)
  let ?s = "scanner_instance_of cfg"
  have s: "?s \<noteq> []" "length ?s < 32" using scanner_instance_bounds by auto
  from published(3) show ?thesis
  proof (cases rule: scanner_publish_cases)
    case (shm shm k)
    with create_steps [OF assms(2) _ shm(2) [simplified]] assms(1) show ?thesis
      by (simp add: scanner_named_def eip_scanner_shm_bytes_def)
  next
    case (sems shm k p2)
    note fr = scanner_create_sems_frame [OF sems(3)]
    have "sx_state (scanner_teardown p2) = sx_state p2"
      by (simp add: scanner_teardown_def Let_def split: prod.split)
    with fr scanner_teardown_restores [OF assms(2) sems(2) [simplified] s, of p2] sems(1,4) assms(1) show ?thesis
      by (simp add: scanner_named_def)
  next
    case (ok shm k p2)
    note fr = scanner_create_sems_frame [OF ok(3)]
    have sizes: "unat (EIP_SCANNER_HEALTH_BYTES (length (c_devices table)) + c_total_t2o_bytes table) \<le> 496"
      "unat (c_total_o2t_bytes table) \<le> 496"
      using published(2) load_wf [OF published(1)] by (simp_all add: word_less_nat_alt scanner_wf_def)
    have close: "sx_kern (snd (scanner_close p')) = sx_kern (scanner_teardown p')" "sx_instance p' = ?s"
      using ok(4) fr by (simp_all add: scanner_close_def scanner_named_def)
    have "sx_inv p'"
      using fr sizes assms(3) by (simp add: ok(4) sx_inv_def px_inv_def scanner_caps_of_def scanner_named_def)
    moreover have "sx_shm p' = shm" "open_fds (sx_kern p') = open_fds k" "mapped (sx_kern p') = mapped k"
      using fr by (simp_all add: ok(4) scanner_named_def)
    ultimately show ?thesis
      using scanner_teardown_restores [OF assms(2) ok(2) [simplified] s, of p'] by (simp add: ok(1) close) (simp add: ok(4))
  qed
qed

end
