(* ===== verification/Scanner_Service.thy ===== *)
theory Scanner_Service
  imports Scanner_Proxy Eip_Service
begin

text \<open>
  \<open>adapters/eip_scanner/eip_scanner_main.c\<close> and \<open>eip_scanner_backend.h\<close>: the scanner process that
  attaches to the core's region and answers each request with one health byte per device and the
  devices' inputs, over the interface of an originator stack.

  A backend is a record of functions over its own state. The stack thread calls \<open>poll\<close> beside
  the service loop, so before each call of the loop the environment may change that state.
\<close>

subsection \<open>The backend interface\<close>

text \<open>
  \<open>exchange_images\<close> takes the outputs, the health block and the rest of the reply buffer, and
  gives the number of bytes it claims to have written, the two blocks and its state. \<open>init\<close> is
  \<open>None\<close> when a C++ exception leaves it, which ends the process.
\<close>

record 'b eip_scanner_backend =
  sb_name :: string
  sb_init :: "eip_scanner_config \<Rightarrow> 'b \<Rightarrow> (plc_status \<times> 'b) option"
  sb_shutdown :: "'b \<Rightarrow> 'b"
  sb_exchange_images :: "byte list \<Rightarrow> byte list \<Rightarrow> byte list \<Rightarrow> 'b \<Rightarrow> nat \<times> byte list \<times> byte list \<times> 'b"
  sb_devices_online :: "'b \<Rightarrow> u32"
  sb_forward_opens :: "'b \<Rightarrow> u64"
  sb_connection_losses :: "'b \<Rightarrow> u64"
  sb_out_of_order :: "'b \<Rightarrow> u64"

subsection \<open>Attaching\<close>

record scan_attempt =
  sa_stop :: bool
  sa_faults :: os_faults
  sa_others :: "kern \<Rightarrow> kern"
  sa_region :: eip_scanner_shm

definition scanner_layout_ok :: "eip_scanner_shm \<Rightarrow> bool" where
  "scanner_layout_ok m \<longleftrightarrow> s_magic m = EIP_SCANNER_SHM_MAGIC \<and> s_abi_version m = EIP_SCANNER_SHM_ABI_VERSION
     \<and> s_layout_bytes m = of_nat eip_scanner_shm_bytes"

fun scanner_attach_loop ::
  "string \<Rightarrow> scan_attempt list \<Rightarrow> plc_shm \<Rightarrow> kern
   \<Rightarrow> (plc_status \<times> plc_shm \<times> eip_scanner_shm option \<times> kern) option" where
  "scanner_attach_loop name [] shm k = None"
| "scanner_attach_loop name (a # as) shm k =
     (let k = sa_others a k; m = sa_region a in
      if sa_stop a then Some (PLC_ERR_STATE, shm, None, k)
      else (case plc_shm_attach (sa_faults a) name eip_scanner_shm_bytes shm k of (st, shm, k) \<Rightarrow>
        if st = PLC_OK then
          if scanner_layout_ok m then Some (PLC_OK, shm, Some m, k)
          else if s_magic m \<noteq> 0 \<and> s_magic m \<noteq> EIP_SCANNER_SHM_MAGIC then
            (case plc_shm_close shm k of (shm, k) \<Rightarrow> Some (PLC_ERR_PROTO, shm, None, k))
          else if s_magic m = EIP_SCANNER_SHM_MAGIC then
            (case plc_shm_close shm k of (shm, k) \<Rightarrow> Some (PLC_ERR_PROTO, shm, None, k))
          else (case plc_shm_close shm k of (shm, k) \<Rightarrow> scanner_attach_loop name as shm k)
        else scanner_attach_loop name as shm k))"

definition scanner_attach ::
  "string \<Rightarrow> scan_attempt list \<Rightarrow> plc_shm \<Rightarrow> kern
   \<Rightarrow> (plc_status \<times> plc_shm \<times> eip_scanner_shm option \<times> kern) option" where
  "scanner_attach inst as shm k = scanner_attach_loop (eip_scanner_shm_name EIP_SCANNER_SHM_NAME_MAX inst) as shm k"

text \<open>The region the core published against the table this process read.\<close>

definition table_agrees :: "eip_scanner_shm \<Rightarrow> eip_scanner_config \<Rightarrow> bool" where
  "table_agrees m table \<longleftrightarrow> \<not> (s_device_count m \<noteq> of_nat (length (c_devices table))
     \<or> s_o2t_total_bytes m \<noteq> c_total_o2t_bytes table \<or> s_t2o_total_bytes m \<noteq> c_total_t2o_bytes table)"

subsection \<open>The service loop\<close>

record 'b scan_service =
  sc_map :: eip_scanner_shm
  sc_frame :: plc_ipc_frame
  sc_reply :: "byte list"
  sc_last_request :: u64
  sc_posts :: nat
  sc_backend :: 'b

definition scan_status :: "(eip_scanner_status \<Rightarrow> eip_scanner_status) \<Rightarrow> 'b scan_service \<Rightarrow> 'b scan_service" where
  "scan_status f s = s\<lparr>sc_map := (sc_map s)\<lparr>s_status := f (s_status (sc_map s))\<rparr>\<rparr>"

text \<open>A request that was popped: the health block, the images, the answer, the telemetry.\<close>

definition scan_request :: "'b eip_scanner_backend \<Rightarrow> u32 \<Rightarrow> 'b tick \<Rightarrow> 'b scan_service \<Rightarrow> 'b scan_service" where
  "scan_request be health_bytes t s =
     (let frame = sc_frame s;
          hb = unat health_bytes;
          reply = put_slice 0 (replicate hb 0) (sc_reply s);
          (n, health, t2o, b) = sb_exchange_images be (take (unat (fr_len frame)) (fr_data frame))
             (take hb reply) (drop hb reply) (tk_net t 0 (sc_backend s));
          s = s\<lparr>sc_reply := health @ t2o\<rparr>;
          (st, rsp) = plc_spsc_push (tk_rsp t) (fr_seq frame) (Some (sc_reply s)) (health_bytes + of_nat n);
          s = (if st \<noteq> PLC_OK
               then scan_status (ss_last_error_update (\<lambda>_. status_u64 st))
                      (s\<lparr>sc_map := (sc_map s)\<lparr>s_rsp := plc_spsc_drain rsp\<rparr>\<rparr>)
               else s\<lparr>sc_map := (sc_map s)\<lparr>s_rsp := rsp\<rparr>, sc_posts := sc_posts s + 1\<rparr>);
          b1 = tk_net t 1 b; b2 = tk_net t 2 b1; b3 = tk_net t 3 b2; b4 = tk_net t 4 b3;
          s = scan_status (\<lambda>x. x\<lparr>ss_cycles := ss_cycles x + 1,
                 ss_devices_online := sb_devices_online be b1,
                 ss_forward_opens := sb_forward_opens be b2,
                 ss_connection_losses := sb_connection_losses be b3,
                 ss_out_of_order := sb_out_of_order be b4\<rparr>) s
      in s\<lparr>sc_backend := b4\<rparr>)"

definition scan_step ::
  "'b eip_scanner_backend \<Rightarrow> u32 \<Rightarrow> u32 \<Rightarrow> 'b tick \<Rightarrow> 'b scan_service \<Rightarrow> bool \<times> 'b scan_service" where
  "scan_step be health_bytes core_timeout_us t s =
     (let w = plc_sem_wait_timeout SERVICE_WAIT_US (tk_sem t) in
      if w = PLC_ERR_TIMEOUT then
        let idle = tk_now t - sc_last_request s in
        (\<not> idle \<ge> ucast core_timeout_us, s)
      else if w \<noteq> PLC_OK then (False, s)
      else (case plc_spsc_pop (tk_req t) (sc_frame s) PLC_IPC_MAX_FRAME_BYTES of (st, req, f) \<Rightarrow>
        let s = s\<lparr>sc_map := (sc_map s)\<lparr>s_req := req\<rparr>, sc_frame := f\<rparr>;
            s = (if st = PLC_OK then s\<lparr>sc_last_request := tk_now t\<rparr> else s)
        in if st = PLC_ERR_AGAIN then (True, s)
           else if st \<noteq> PLC_OK then (True, scan_status (ss_last_error_update (\<lambda>_. status_u64 st)) s)
           else (True, scan_request be health_bytes t s)))"

text \<open>The loop ends when \<open>g_stop\<close> is set, or by a \<open>break\<close>; the flag tells which.\<close>

fun scan_loop ::
  "'b eip_scanner_backend \<Rightarrow> u32 \<Rightarrow> u32 \<Rightarrow> 'b tick list \<Rightarrow> 'b scan_service \<Rightarrow> (bool \<times> 'b scan_service) option" where
  "scan_loop be health_bytes core_timeout_us [] s = None"
| "scan_loop be health_bytes core_timeout_us (t # ts) s =
     (if tk_stop t then Some (True, s)
      else (case scan_step be health_bytes core_timeout_us t s of
              (True, s) \<Rightarrow> scan_loop be health_bytes core_timeout_us ts s
            | (False, s) \<Rightarrow> Some (False, s)))"

subsection \<open>The process\<close>

record 'b scanner_world =
  sw_getenv :: "string \<Rightarrow> string option"
  sw_fs :: "string \<Rightarrow> file_open"
  sw_alloc :: bool
  sw_args :: "string list"
  sw_attempts :: "scan_attempt list"
  sw_sem_faults :: "os_faults \<times> os_faults"
  sw_thread :: bool
  sw_reply :: "byte list"
  sw_start :: u64
  sw_ticks :: "'b tick list"
  sw_signal :: bool
  sw_join :: "'b \<Rightarrow> 'b"

text \<open>The status a shell reports for a process ended by \<open>abort\<close>; none of its clean-up runs.\<close>

definition EXIT_ABORTED :: int where "EXIT_ABORTED = 134"

text \<open>
  After the doorbells are open: start the backend and its thread, serve, stop. \<open>sw_reply\<close> is what
  the uninitialised reply buffer happens to hold.

  The stack thread polls until \<open>g_stop\<close> is set, which only a signal does, and the clean-up joins
  it first. So when the loop was left by a \<open>break\<close>, the join returns only if a signal still comes
  (\<open>sw_signal\<close>); \<open>sw_join\<close> is what the thread does to the backend until it has ended.
\<close>

definition scan_finish ::
  "'b eip_scanner_backend \<Rightarrow> 'b scanner_world \<Rightarrow> bool \<times> 'b scan_service \<Rightarrow> (int \<times> 'b scan_service) option" where
  "scan_finish be w = (\<lambda>(stopped, s).
     let s = scan_status (ss_adapter_state_update (\<lambda>_. PLC_ADAPTER_CLOSED)) s in
     if stopped \<or> sw_signal w
     then Some (EXIT_SUCCESS, s\<lparr>sc_backend := sb_shutdown be (sw_join w (sc_backend s))\<rparr>)
     else None)"

definition scan_serve ::
  "'b eip_scanner_backend \<Rightarrow> 'b scanner_world \<Rightarrow> config \<Rightarrow> eip_scanner_config \<Rightarrow> eip_scanner_shm \<Rightarrow> 'b
   \<Rightarrow> (int \<times> 'b scan_service) option" where
  "scan_serve be w cfg table m b =
     (let s = \<lparr>sc_map = m, sc_frame = frame_zero, sc_reply = sw_reply w, sc_last_request = 0,
               sc_posts = 0, sc_backend = b\<rparr>;
          s = scan_status (ss_adapter_state_update (\<lambda>_. PLC_ADAPTER_OPENING)) s
      in (case sb_init be table b of None \<Rightarrow> Some (EXIT_ABORTED, s) | Some (st, b) \<Rightarrow>
        if st \<noteq> PLC_OK then
          Some (EXIT_FAILURE, (scan_status (ss_adapter_state_update (\<lambda>_. PLC_ADAPTER_FAULTED)) s)
                 \<lparr>sc_backend := sb_shutdown be b\<rparr>)
        else if \<not> sw_thread w then Some (EXIT_FAILURE, s\<lparr>sc_backend := sb_shutdown be b\<rparr>)
        else
          let s = scan_status (ss_adapter_state_update (\<lambda>_. PLC_ADAPTER_ONLINE)) s;
              core_timeout_us = plc_cfg_u32 (sw_getenv w) cfg ''SOFTPLC_SCANNER_CORE_TIMEOUT_US'' CORE_TIMEOUT_US
          in (case scan_loop be (s_health_bytes m) core_timeout_us (sw_ticks w)
                     (s\<lparr>sc_backend := b, sc_last_request := sw_start w\<rparr>) of
                None \<Rightarrow> None | Some r \<Rightarrow> scan_finish be w r)))"

definition eip_scanner_main ::
  "'b eip_scanner_backend \<Rightarrow> 'b scanner_world \<Rightarrow> 'b \<Rightarrow> config \<times> log_state \<Rightarrow> kern \<Rightarrow> (int \<times> kern) option" where
  "eip_scanner_main be w b cl k =
     (case plc_config_bootstrap (sw_getenv w) (sw_fs w) (sw_alloc w) ''eip-scanner'' cl of (rc, cfg, l) \<Rightarrow>
        if rc \<noteq> 0 then Some (EXIT_FAILURE, k)
        else
          let inst = arg_or (sw_args w) 1
                (the (plc_cfg_str (sw_getenv w) cfg ''SOFTPLC_INSTANCE'' (Some ''default'')));
              table_path = arg_or (sw_args w) 2
                (the (plc_cfg_str (sw_getenv w) cfg ''SOFTPLC_SCANNER_DEVICES''
                       (Some ''/etc/softplc/scanner-devices.conf'')))
          in (case eip_scanner_config_load (sw_fs w) table_path scanner_config_zero of (lst, err, table) \<Rightarrow>
             if lst \<noteq> PLC_OK then Some (EXIT_FAILURE, k)
             else (case scanner_attach inst (sw_attempts w) (shm_zero\<lparr>sh_fd := -1\<rparr>) k of
                None \<Rightarrow> None
              | Some (st, shm, m, k) \<Rightarrow>
                  if st \<noteq> PLC_OK then Some (EXIT_FAILURE, k)
                  else if \<not> table_agrees (the m) table then Some (EXIT_FAILURE, snd (plc_shm_close shm k))
                  else
                    let req_name = eip_scanner_sem_req_name EIP_SCANNER_SHM_NAME_MAX inst;
                        rsp_name = eip_scanner_sem_rsp_name EIP_SCANNER_SHM_NAME_MAX inst in
                    if fst (plc_sem_attach (fst (sw_sem_faults w)) req_name k) \<noteq> PLC_OK
                       \<or> fst (plc_sem_attach (snd (sw_sem_faults w)) rsp_name k) \<noteq> PLC_OK
                    then Some (EXIT_FAILURE,
                           snd (plc_shm_close shm (plc_sem_close None (Some req_name) False k)))
                    else
                      (case scan_serve be w cfg table (the m) b of
                         None \<Rightarrow> None
                       | Some (code, s) \<Rightarrow>
                           if code = EXIT_ABORTED then Some (code, k)
                           else
                           let k = plc_sem_close None (Some req_name) False k;
                               k = plc_sem_close None (Some rsp_name) False k
                           in Some (code, snd (plc_shm_close shm k))))))"


subsection \<open>The contract of an originator stack\<close>

text \<open>
  What the service relies on: a started stack serves the table it was given, and an exchange
  over a health block with one byte per device and room for the whole image writes both blocks
  in place, claims exactly the table's aggregate size, and goes on serving that table.
\<close>

locale originator_stack =
  fixes be :: "'b eip_scanner_backend" and binv :: "'b \<Rightarrow> bool" and table :: "'b \<Rightarrow> eip_scanner_config"
  assumes init_table: "sb_init be cfg b = Some (PLC_OK, b') \<Longrightarrow> scanner_wf cfg \<Longrightarrow> binv b' \<and> table b' = cfg"
    and table_wf: "binv b \<Longrightarrow> scanner_wf (table b)"
    and images_in_place: "binv b \<Longrightarrow> length health = length (c_devices (table b)) \<Longrightarrow>
      unat (c_total_t2o_bytes (table b)) \<le> length t2o \<Longrightarrow>
      sb_exchange_images be o2t health t2o b = (n, h, t, b') \<Longrightarrow>
      n = unat (c_total_t2o_bytes (table b)) \<and> length h = length health \<and> length t = length t2o
      \<and> binv b' \<and> table b' = table b"

definition sc_wf :: "'b scan_service \<Rightarrow> bool" where
  "sc_wf s \<longleftrightarrow> frame_wf (sc_frame s) \<and> length (sc_reply s) = 496"

text \<open>The stack thread keeps the invariant and the table; the rings are memory of the right shape.\<close>

definition scan_tick_wf :: "('b \<Rightarrow> bool) \<Rightarrow> ('b \<Rightarrow> eip_scanner_config) \<Rightarrow> 'b tick \<Rightarrow> bool" where
  "scan_tick_wf binv table t \<longleftrightarrow> ring_wf (tk_req t) \<and> ring_wf (tk_rsp t)
     \<and> (\<forall>i b. binv b \<longrightarrow> binv (tk_net t i b) \<and> table (tk_net t i b) = table b)"

text \<open>The region's health block has one byte per device of the table, and the reply fits a frame.\<close>

definition health_agrees :: "eip_scanner_config \<Rightarrow> u32 \<Rightarrow> bool" where
  "health_agrees tb hb \<longleftrightarrow> unat hb = length (c_devices tb)
     \<and> unat hb + unat (c_total_t2o_bytes tb) \<le> 496"

lemma scan_status_simps [simp]:
  "sc_backend (scan_status f s) = sc_backend s" "sc_frame (scan_status f s) = sc_frame s"
  "sc_reply (scan_status f s) = sc_reply s" "sc_posts (scan_status f s) = sc_posts s"
  "sc_last_request (scan_status f s) = sc_last_request s"
  "sc_map (scan_status f s) = (sc_map s)\<lparr>s_status := f (s_status (sc_map s))\<rparr>"
  by (simp_all add: scan_status_def)

context originator_stack
begin

text \<open>A request is answered by one frame: the health block, then the aggregate image.\<close>

lemma scan_request_reply:
  assumes "sc_wf s" and "scan_tick_wf binv table t" and "binv (sc_backend s)"
    and "health_agrees (table (sc_backend s)) hb"
  obtains h im b1 st rsp where
    "sb_exchange_images be (take (unat (fr_len (sc_frame s))) (fr_data (sc_frame s))) (replicate (unat hb) 0)
       (drop (unat hb) (sc_reply s)) (tk_net t 0 (sc_backend s)) =
       (unat (c_total_t2o_bytes (table (sc_backend s))), h, im, b1)"
    and "length h = unat hb" and "length im = 496 - unat hb"
    and "plc_spsc_push_flagged (tk_rsp t) (fr_seq (sc_frame s)) 0
       (Some (h @ take (unat (c_total_t2o_bytes (table (sc_backend s)))) im))
       (of_nat (unat hb + unat (c_total_t2o_bytes (table (sc_backend s))))) = (st, rsp)"
    and "s_rsp (sc_map (scan_request be hb t s)) = (if st = PLC_OK then rsp else plc_spsc_drain rsp)"
    and "sc_posts (scan_request be hb t s) = sc_posts s + (if st = PLC_OK then 1 else 0)"
    and "sc_wf (scan_request be hb t s)" and "binv (sc_backend (scan_request be hb t s))"
    and "table (sc_backend (scan_request be hb t s)) = table (sc_backend s)"
    and "sc_backend (scan_request be hb t s) = tk_net t 4 (tk_net t 3 (tk_net t 2 (tk_net t 1 b1)))"
proof -
  define tot where "tot = unat (c_total_t2o_bytes (table (sc_backend s)))"
  have net: "binv b \<Longrightarrow> binv (tk_net t i b) \<and> table (tk_net t i b) = table b" for i b
    using assms(2) by (simp add: scan_tick_wf_def)
  have hb: "unat hb = length (c_devices (table (sc_backend s)))" "unat hb + tot \<le> 496"
    using assms(4) by (simp_all add: health_agrees_def tot_def)
  have reply: "length (sc_reply s) = 496" using assms(1) by (simp add: sc_wf_def)
  let ?o = "take (unat (fr_len (sc_frame s))) (fr_data (sc_frame s))"
  obtain n h im b1 where ex: "sb_exchange_images be ?o (replicate (unat hb) 0) (drop (unat hb) (sc_reply s))
      (tk_net t 0 (sc_backend s)) = (n, h, im, b1)" by (metis prod_cases4)
  from images_in_place [OF _ _ _ ex] net [OF assms(3)] hb reply
  have img: "n = tot" "length h = unat hb" "length im = 496 - unat hb" "binv b1" "table b1 = table (sc_backend s)"
    by (auto simp: tot_def)
  have len: "hb + of_nat tot = of_nat (unat hb + tot)" by simp
  have un: "unat (of_nat (unat hb + tot) :: u32) = unat hb + tot" by (rule unat_of_nat_len [OF hb(2)])
  obtain st rsp where push: "plc_spsc_push_flagged (tk_rsp t) (fr_seq (sc_frame s)) 0 (Some (h @ take tot im))
      (of_nat (unat hb + tot)) = (st, rsp)" by force
  have push': "plc_spsc_push (tk_rsp t) (fr_seq (sc_frame s)) (Some (h @ im)) (hb + of_nat tot) = (st, rsp)"
    unfolding plc_spsc_push_def len
    using push push_prefix [of "of_nat (unat hb + tot)" "h @ im"] img hb un by simp
  have blocks: "take (unat hb) (put_slice 0 (replicate (unat hb) 0) (sc_reply s)) = replicate (unat hb) 0"
    "drop (unat hb) (put_slice 0 (replicate (unat hb) 0) (sc_reply s)) = drop (unat hb) (sc_reply s)"
    by (simp_all add: put_slice_def)
  note sr = scan_request_def blocks ex img(1) push' Let_def
  show ?thesis
  proof (rule that [OF ex [unfolded img(1) tot_def] img(2,3) push [unfolded tot_def]])
    show "s_rsp (sc_map (scan_request be hb t s)) = (if st = PLC_OK then rsp else plc_spsc_drain rsp)"
      "sc_posts (scan_request be hb t s) = sc_posts s + (if st = PLC_OK then 1 else 0)"
      by (simp_all add: sr del: One_nat_def)
    show "sc_wf (scan_request be hb t s)"
      using assms(1) img(2,3) hb(2) by (simp add: sr sc_wf_def del: One_nat_def)
    show "binv (sc_backend (scan_request be hb t s))"
      "table (sc_backend (scan_request be hb t s)) = table (sc_backend s)"
      using net img(4,5) by (simp_all add: sr del: One_nat_def)
    show "sc_backend (scan_request be hb t s) = tk_net t 4 (tk_net t 3 (tk_net t 2 (tk_net t 1 b1)))"
      by (simp add: sr del: One_nat_def)
  qed
qed

text \<open>The buffers, the invariant and the table survive every round and hence the whole loop.\<close>

lemma scan_step_wf:
  assumes "sc_wf s" and "scan_tick_wf binv table t" and "binv (sc_backend s)"
    and "health_agrees (table (sc_backend s)) hb" and "scan_step be hb ct t s = (go, s')"
  shows "sc_wf s' \<and> binv (sc_backend s') \<and> table (sc_backend s') = table (sc_backend s)"
proof -
  obtain st req f where pop: "plc_spsc_pop (tk_req t) (sc_frame s) 496 = (st, req, f)" by (metis prod_cases3)
  have "ring_wf (tk_req t)" "frame_wf (sc_frame s)" using assms(1,2) by (simp_all add: scan_tick_wf_def sc_wf_def)
  from pop_outcome [OF this pop] have wf: "frame_wf f" by auto
  let ?s = "s\<lparr>sc_map := (sc_map s)\<lparr>s_req := req\<rparr>, sc_frame := f, sc_last_request := tk_now t\<rparr>"
  have s: "sc_wf ?s" "sc_wf (s\<lparr>sc_map := (sc_map s)\<lparr>s_req := req\<rparr>, sc_frame := f\<rparr>)"
    using assms(1) wf by (simp_all add: sc_wf_def)
  have "sc_wf (scan_request be hb t ?s) \<and> binv (sc_backend (scan_request be hb t ?s))
      \<and> table (sc_backend (scan_request be hb t ?s)) = table (sc_backend s)"
    by (rule scan_request_reply [OF s(1) assms(2), of hb]) (use assms(3,4) in simp_all)
  then show ?thesis
    using assms(1,3,5) s(2) by (auto simp: scan_step_def pop Let_def sc_wf_def split: if_splits)
qed

lemma scan_loop_wf:
  "scan_loop be hb ct ts s = Some (stopped, s') \<Longrightarrow> sc_wf s \<Longrightarrow> list_all (scan_tick_wf binv table) ts \<Longrightarrow>
   binv (sc_backend s) \<Longrightarrow> health_agrees (table (sc_backend s)) hb \<Longrightarrow>
   sc_wf s' \<and> binv (sc_backend s') \<and> table (sc_backend s') = table (sc_backend s)"
proof (induction ts arbitrary: s)
  case (Cons t ts)
  obtain go s1 where step: "scan_step be hb ct t s = (go, s1)" by force
  have "sc_wf s1 \<and> binv (sc_backend s1) \<and> table (sc_backend s1) = table (sc_backend s)"
    by (rule scan_step_wf [OF _ _ _ _ step]) (use Cons.prems in simp_all)
  with Cons.IH [of s1] Cons.prems step show ?case by (cases go) (auto split: if_splits)
qed simp
end

subsection \<open>A silent core\<close>

lemma quiet_scan_loop:
  "list_all quiet ts \<Longrightarrow> scan_loop be hb ct ts s =
     (if list_ex (\<lambda>t. ucast ct \<le> tk_now t - sc_last_request s) ts then Some (False, s) else None)"
  by (induction ts) (auto simp: quiet_def scan_step_def Let_def split: bool.split)

end
