(* ===== verification/Scanner_Mirror.thy ===== *)
theory Scanner_Mirror
  imports Scanner_Service
begin

text \<open>
  \<open>adapters/eip_scanner/eip_scanner_backend_mirror.cpp\<close>: the originator backend without a
  protocol stack, which answers each device's outputs back as its inputs and can force devices
  offline. It is the other implementation of the interface in \<open>Scanner_Service\<close>.
\<close>

unbundle bit_operations_syntax

subsection \<open>The backend\<close>

record scan_mirror =
  mg_cfg :: eip_scanner_config
  mg_mirror :: "byte list"
  mg_forced_down :: u32
  mg_losses :: u64

text \<open>
  \<open>strtoul(v, nullptr, 0)\<close>: the prefix selects the base; \<open>0x\<close> without a digit behind it is the
  number zero.
\<close>

definition digit_value :: "char \<Rightarrow> nat option" where
  "digit_value c =
     (if isdigit c then Some (ord c - 48)
      else if 97 \<le> ord c \<and> ord c \<le> 122 then Some (ord c - 87)
      else if 65 \<le> ord c \<and> ord c \<le> 90 then Some (ord c - 55) else None)"

fun digits_in :: "nat \<Rightarrow> nat \<Rightarrow> string \<Rightarrow> nat" where
  "digits_in base acc [] = acc"
| "digits_in base acc (c # cs) =
     (case digit_value c of
        Some d \<Rightarrow> if d < base then digits_in base (acc * base + d) cs else acc
      | None \<Rightarrow> acc)"

definition strtoul_auto :: "string \<Rightarrow> u64" where
  "strtoul_auto v =
     (let s = dropWhile isspace v;
          neg = (s \<noteq> [] \<and> hd s = CHR ''-'');
          t = (if s \<noteq> [] \<and> (hd s = CHR ''-'' \<or> hd s = CHR ''+'') then tl s else s);
          n = (if take 2 t = ''0x'' \<or> take 2 t = ''0X'' then digits_in 16 0 (drop 2 t)
               else if take 1 t = ''0'' then digits_in 8 0 t else digits_in 10 0 t)
      in if n \<ge> 2 ^ 64 then - 1 else if neg then - of_nat n else of_nat n)"

definition mirror_init ::
  "(string \<Rightarrow> string option) \<Rightarrow> config \<Rightarrow> eip_scanner_config \<Rightarrow> scan_mirror \<Rightarrow> (plc_status \<times> scan_mirror) option" where
  "mirror_init getenv gcfg cfg g =
     (let g = g\<lparr>mg_cfg := cfg, mg_mirror := replicate (unat (c_total_t2o_bytes cfg)) 0, mg_losses := 0,
                mg_forced_down := 0\<rparr>;
          g = (case plc_cfg_str getenv gcfg ''SOFTPLC_SCANNER_MIRROR_DOWN'' None of
                 Some v \<Rightarrow> g\<lparr>mg_forced_down := ucast (strtoul_auto v)\<rparr> | None \<Rightarrow> g)
      in Some (PLC_OK, g))"

text \<open>One device of the exchange; the three blocks are the health bytes, the inputs and the mirror.\<close>

definition mirror_device ::
  "nat \<Rightarrow> u32 \<Rightarrow> byte list \<Rightarrow> nat \<Rightarrow> eip_scanner_device \<Rightarrow> byte list \<times> byte list \<times> byte list
   \<Rightarrow> byte list \<times> byte list \<times> byte list" where
  "mirror_device n forced_down o2t i d = (\<lambda>(health, t2o, mirror).
     let down = (drop_bit i forced_down AND 1 \<noteq> 0);
         t_off = unat (d_t2o_offset d); t_len = unat (d_t2o_bytes d);
         set_health = (\<lambda>v. if i < length health then health[i := v] else health)
     in if unat (d_t2o_offset d + ucast (d_t2o_bytes d)) > n then (health, t2o, mirror)
        else if down then
          let t2o = (if d_failsafe_policy d = PLC_FAILSAFE_CLEAR then put_slice t_off (replicate t_len 0) t2o
                     else put_slice t_off (get_slice t_off t_len mirror) t2o)
          in (set_health EIP_DEVICE_FAILSAFE, t2o, mirror)
        else
          let copy = (if d_o2t_bytes d < d_t2o_bytes d then unat (d_o2t_bytes d) else unat (d_t2o_bytes d));
              t2o = (if unat (d_o2t_offset d) + copy \<le> length o2t \<and> copy \<noteq> 0
                     then put_slice t_off (get_slice (unat (d_o2t_offset d)) copy o2t) t2o else t2o);
              t2o = (if copy < t_len then put_slice (t_off + copy) (replicate (t_len - copy) 0) t2o else t2o);
              mirror = put_slice t_off (get_slice t_off t_len t2o) mirror
          in (set_health EIP_DEVICE_ONLINE, t2o, mirror))"

fun mirror_devices ::
  "nat \<Rightarrow> u32 \<Rightarrow> byte list \<Rightarrow> nat \<Rightarrow> eip_scanner_device list \<Rightarrow> byte list \<times> byte list \<times> byte list
   \<Rightarrow> byte list \<times> byte list \<times> byte list" where
  "mirror_devices n forced_down o2t i [] blocks = blocks"
| "mirror_devices n forced_down o2t i (d # ds) blocks =
     mirror_devices n forced_down o2t (Suc i) ds (mirror_device n forced_down o2t i d blocks)"

definition mirror_exchange ::
  "byte list \<Rightarrow> byte list \<Rightarrow> byte list \<Rightarrow> scan_mirror \<Rightarrow> nat \<times> byte list \<times> byte list \<times> scan_mirror" where
  "mirror_exchange o2t health t2o g =
     (let n = (if unat (c_total_t2o_bytes (mg_cfg g)) < length t2o then unat (c_total_t2o_bytes (mg_cfg g))
               else length t2o);
          (health, t2o, mirror) = mirror_devices n (mg_forced_down g) o2t 0 (c_devices (mg_cfg g))
             (health, t2o, mg_mirror g)
      in (n, health, t2o, g\<lparr>mg_mirror := mirror\<rparr>))"

fun mirror_count :: "u32 \<Rightarrow> nat \<Rightarrow> eip_scanner_device list \<Rightarrow> u32" where
  "mirror_count forced_down i [] = 0"
| "mirror_count forced_down i (d # ds) =
     (if drop_bit i forced_down AND 1 = 0 then 1 else 0) + mirror_count forced_down (Suc i) ds"

definition mirror_online :: "scan_mirror \<Rightarrow> u32" where
  "mirror_online g = mirror_count (mg_forced_down g) 0 (c_devices (mg_cfg g))"

definition kMirror :: "(string \<Rightarrow> string option) \<Rightarrow> config \<Rightarrow> scan_mirror eip_scanner_backend" where
  "kMirror getenv gcfg = \<lparr>sb_name = ''mirror'', sb_init = mirror_init getenv gcfg, sb_shutdown = (\<lambda>g. g),
     sb_exchange_images = mirror_exchange, sb_devices_online = mirror_online,
     sb_forward_opens = (\<lambda>g. of_nat (length (c_devices (mg_cfg g)))), sb_connection_losses = mg_losses,
     sb_out_of_order = (\<lambda>g. 0)\<rparr>"

subsection \<open>It is an originator stack\<close>

lemma length_put_slice_within: "off + length xs \<le> length ys \<Longrightarrow> length (put_slice off xs ys) = length ys"
  by (simp add: put_slice_def)

lemma length_get_slice_within: "off + k \<le> length xs \<Longrightarrow> length (get_slice off k xs) = k"
  by (simp add: get_slice_def)

text \<open>No write of a device leaves the three blocks, whatever the request's length.\<close>

lemma mirror_device_in_place:
  assumes "mirror_device n fd o2t i d (h, t, m) = (h', t', m')" and "n \<le> length t" and "n \<le> length m"
    and "unat (d_t2o_offset d + ucast (d_t2o_bytes d)) = unat (d_t2o_offset d) + unat (d_t2o_bytes d)"
  shows "length h' = length h \<and> length t' = length t \<and> length m' = length m"
  using assms
  by (auto simp: mirror_device_def Let_def word_less_nat_alt length_put_slice_within length_get_slice_within
      split: if_splits)

lemma mirror_devices_in_place:
  "mirror_devices n fd o2t i ds (h, t, m) = (h', t', m') \<Longrightarrow> n \<le> length t \<Longrightarrow> n \<le> length m \<Longrightarrow>
   list_all (\<lambda>d. unat (d_t2o_offset d + ucast (d_t2o_bytes d)) = unat (d_t2o_offset d) + unat (d_t2o_bytes d)) ds \<Longrightarrow>
   length h' = length h \<and> length t' = length t \<and> length m' = length m"
proof (induction ds arbitrary: i h t m)
  case (Cons d ds)
  obtain h1 t1 m1 where d: "mirror_device n fd o2t i d (h, t, m) = (h1, t1, m1)" by (metis prod_cases3)
  have "length h1 = length h \<and> length t1 = length t \<and> length m1 = length m"
    by (rule mirror_device_in_place [OF d]) (use Cons.prems in simp_all)
  with Cons.IH [of "Suc i" h1 t1 m1] Cons.prems d show ?case by simp
qed simp

definition mg_inv :: "scan_mirror \<Rightarrow> bool" where
  "mg_inv g \<longleftrightarrow> scanner_wf (mg_cfg g) \<and> length (mg_mirror g) = unat (c_total_t2o_bytes (mg_cfg g))"

lemma slices_no_wrap:
  assumes "scanner_wf cfg"
  shows "list_all (\<lambda>d. unat (d_t2o_offset d + ucast (d_t2o_bytes d)) = unat (d_t2o_offset d) + unat (d_t2o_bytes d))
    (c_devices cfg)"
  unfolding list_all_length
proof (intro allI impI)
  fix i assume i: "i < length (c_devices cfg)"
  have "unat (d_t2o_offset (c_devices cfg ! i)) \<le> 496"
    using packed_bounds [OF _ i] assms by (fastforce simp: scanner_wf_def)
  then show "unat (d_t2o_offset (c_devices cfg ! i) + ucast (d_t2o_bytes (c_devices cfg ! i))) =
      unat (d_t2o_offset (c_devices cfg ! i)) + unat (d_t2o_bytes (c_devices cfg ! i))"
    by (rule unat_add_u16)
qed

interpretation mirrored: originator_stack "kMirror getenv gcfg" mg_inv mg_cfg
proof
  fix cfg b b' health t2o o2t n h t
  show "mg_inv b' \<and> mg_cfg b' = cfg" if "sb_init (kMirror getenv gcfg) cfg b = Some (PLC_OK, b')" "scanner_wf cfg"
    using that by (auto simp: kMirror_def mirror_init_def mg_inv_def Let_def split: option.splits)
  assume b: "mg_inv b"
  then show "scanner_wf (mg_cfg b)" by (simp add: mg_inv_def)
  assume fits: "unat (c_total_t2o_bytes (mg_cfg b)) \<le> length t2o"
    and ex: "sb_exchange_images (kMirror getenv gcfg) o2t health t2o b = (n, h, t, b')"
  obtain h1 t1 m1 where md: "mirror_devices (unat (c_total_t2o_bytes (mg_cfg b))) (mg_forced_down b) o2t 0
      (c_devices (mg_cfg b)) (health, t2o, mg_mirror b) = (h1, t1, m1)" by (metis prod_cases3)
  have eq: "n = unat (c_total_t2o_bytes (mg_cfg b))" "h = h1" "t = t1" "b' = b\<lparr>mg_mirror := m1\<rparr>"
    using ex fits md by (auto simp: kMirror_def mirror_exchange_def Let_def split: if_splits)
  from mirror_devices_in_place [OF md fits _ slices_no_wrap] b eq
  show "n = unat (c_total_t2o_bytes (mg_cfg b)) \<and> length h = length health \<and> length t = length t2o
      \<and> mg_inv b' \<and> mg_cfg b' = mg_cfg b"
    by (simp add: mg_inv_def)
qed

end
