(* ===== verification/Eipscanner_Backend.thy ===== *)
theory Eipscanner_Backend
  imports Scanner_Service
begin

text \<open>
  \<open>adapters/eip_scanner/eip_scanner_backend_eipscanner.cpp\<close>: the originator built on the
  EIPScanner library. The stack thread polls: it hands each connection its outputs, receives
  frames and losses through call-backs, and reopens what is down. The IPC thread swaps images.

  The library is outside the program: the outcome of a ForwardOpen, which connections are still
  alive and the call-backs of one service call are arguments. A connection is a number, and
  what \<open>setDataToSend\<close> stored in it is part of the state. Every access of the two threads to the
  shared fields happens under one mutex, so an execution is a sequence of the steps below in
  some order. The clock is an integer number of microseconds.
\<close>

subsection \<open>Data\<close>

record io_device =
  dv_cfg :: eip_scanner_device
  dv_session :: bool
  dv_io :: "nat option"
  dv_connected :: bool
  dv_has_data :: bool
  dv_ever_data :: bool
  dv_last_seq :: u16
  dv_have_seq :: bool
  dv_last_good :: "byte list"
  dv_latest :: "byte list"
  dv_to_send :: "byte list"
  dv_next_retry :: int

record scanner_stack =
  gs_cfg :: eip_scanner_config
  gs_devices :: "io_device list"
  gs_cm :: bool
  gs_forward_opens :: u64
  gs_losses :: u64
  gs_out_of_order :: u64
  gs_rejects :: u64
  gs_sending :: "nat \<Rightarrow> byte list"

definition kReconnectInterval :: int where
  "kReconnectInterval = 2000000"

definition upd_device :: "nat \<Rightarrow> (io_device \<Rightarrow> io_device) \<Rightarrow> scanner_stack \<Rightarrow> scanner_stack" where
  "upd_device i f s = s\<lparr>gs_devices := (gs_devices s)[i := f (gs_devices s ! i)]\<rparr>"

subsection \<open>Connection parameters\<close>

text \<open>The three flag words are constants of the library.\<close>

record net_flags =
  nf_P2P :: u32
  nf_SCHEDULED_PRIORITY :: u32
  nf_CLASS1 :: u8

record connection_params =
  cp_connectionPath :: "byte list"
  cp_o2tRealTimeFormat :: bool
  cp_originatorVendorId :: u16
  cp_originatorSerialNumber :: u32
  cp_o2tNetworkConnectionParams :: u32
  cp_t2oNetworkConnectionParams :: u32
  cp_o2tRPI :: u32
  cp_t2oRPI :: u32
  cp_connectionTimeoutMultiplier :: u8
  cp_transportTypeTrigger :: u8

definition make_params :: "net_flags \<Rightarrow> connection_params \<Rightarrow> eip_scanner_device \<Rightarrow> connection_params" where
  "make_params nf p d = p\<lparr>
     cp_connectionPath := [0x20, 0x04, 0x24, ucast (d_config_assembly d), 0x2C, ucast (d_o2t_assembly d),
                           0x2C, ucast (d_t2o_assembly d)],
     cp_o2tRealTimeFormat := True,
     cp_originatorVendorId := 1,
     cp_originatorSerialNumber := 0x534F4654,
     cp_o2tNetworkConnectionParams := cp_o2tNetworkConnectionParams p OR nf_P2P nf
       OR nf_SCHEDULED_PRIORITY nf OR ucast (d_o2t_bytes d),
     cp_t2oNetworkConnectionParams := cp_t2oNetworkConnectionParams p OR nf_P2P nf
       OR nf_SCHEDULED_PRIORITY nf OR ucast (d_t2o_bytes d),
     cp_o2tRPI := d_o2t_rpi_us d,
     cp_t2oRPI := d_t2o_rpi_us d,
     cp_connectionTimeoutMultiplier := d_timeout_multiplier d,
     cp_transportTypeTrigger := cp_transportTypeTrigger p OR nf_CLASS1 nf\<rparr>"

definition forward_open_reasons :: "(u16 \<times> string) list" where
  "forward_open_reasons =
     [(0x0100, ''connection already in use, or a duplicate ForwardOpen''),
      (0x0103, ''transport class or trigger combination not supported''),
      (0x0106, ''ownership conflict - another scanner owns this connection''),
      (0x0107, ''target connection not found''),
      (0x0108, ''invalid network connection parameter''),
      (0x0109, ''invalid connection size''),
      (0x0110, ''target for the connection is not configured''),
      (0x0111, ''RPI not supported''),
      (0x0112, ''RPI outside the range the target accepts''),
      (0x0113, ''no connection slots left on the target''),
      (0x0114, ''vendor id or product code in the key does not match''),
      (0x0115, ''device type in the key does not match''),
      (0x0116, ''revision in the key does not match''),
      (0x0119, ''non-listen-only connection not opened''),
      (0x011A, ''target object is out of connections''),
      (0x0126, ''configuration assembly is the wrong size''),
      (0x0127, ''O->T size does not match the target's consuming assembly''),
      (0x0128, ''T->O size does not match the target's producing assembly''),
      (0x0129, ''configuration assembly instance does not exist on the target''),
      (0x012A, ''consumed (O->T) assembly instance does not exist on the target''),
      (0x012B, ''produced (T->O) assembly instance does not exist on the target''),
      (0x012F, ''the assembly instances requested cannot be used together''),
      (0x0311, ''port not available on the target''),
      (0x0312, ''link address not valid''),
      (0x0315, ''invalid segment in the connection path - the target does not recognise an assembly instance in it''),
      (0x0316, ''the connection path and the connection to close do not match''),
      (0x0317, ''scheduling priority not specified''),
      (0x0318, ''link address to self is not valid'')]"

definition forward_open_reason :: "u16 \<Rightarrow> string option" where
  "forward_open_reason extended = map_of forward_open_reasons extended"

subsection \<open>Opening a connection and its call-backs\<close>

text \<open>
  What the library answers: the session cannot be made, an exception leaves \<open>forwardOpen\<close>, the
  target rejects with an extended status, or a connection is open.
\<close>

datatype open_result = Session_failed | Open_threw | Open_rejected u16 | Opened nat

text \<open>The second component tells whether an exception left the function.\<close>

definition connect_device :: "nat \<Rightarrow> int \<Rightarrow> open_result \<Rightarrow> scanner_stack \<Rightarrow> scanner_stack \<times> bool" where
  "connect_device i now res s =
     (if now < dv_next_retry (gs_devices s ! i) then (s, False)
      else
        let s = upd_device i (dv_next_retry_update (\<lambda>_. now + kReconnectInterval)) s in
        (case res of
           Session_failed \<Rightarrow> (upd_device i (dv_session_update (\<lambda>_. False)) s, False)
         | Open_threw \<Rightarrow> (upd_device i (dv_session_update (\<lambda>_. True)) s, True)
         | Open_rejected ext \<Rightarrow>
             ((upd_device i (dv_session_update (\<lambda>_. False)) s)\<lparr>gs_rejects := gs_rejects s + 1\<rparr>, False)
         | Opened io \<Rightarrow>
             let s = upd_device i (dv_session_update (\<lambda>_. True)) s;
                 s = s\<lparr>gs_sending := (gs_sending s)(io := dv_to_send (gs_devices s ! i))\<rparr>;
                 s = upd_device i (\<lambda>d. d\<lparr>dv_has_data := False, dv_have_seq := False\<rparr>) s;
                 s = upd_device i (\<lambda>d. d\<lparr>dv_io := Some io, dv_connected := True\<rparr>) s
             in (s\<lparr>gs_forward_opens := gs_forward_opens s + 1\<rparr>, False)))"

definition receive_data :: "nat \<Rightarrow> u16 \<Rightarrow> byte list \<Rightarrow> scanner_stack \<Rightarrow> scanner_stack" where
  "receive_data i sequence data s =
     (let d = gs_devices s ! i in
      if dv_have_seq d \<and> sint (sequence - dv_last_seq d) \<le> 0
      then s\<lparr>gs_out_of_order := gs_out_of_order s + 1\<rparr>
      else
        upd_device i (\<lambda>d.
          let d = d\<lparr>dv_last_seq := sequence, dv_have_seq := True\<rparr>;
              n = min (length data) (length (dv_latest d));
              latest = (if n \<noteq> 0 then put_slice 0 (take n data) (dv_latest d) else dv_latest d);
              latest = (if n < length latest then put_slice n (replicate (length latest - n) 0) latest else latest)
          in d\<lparr>dv_latest := latest, dv_last_good := latest, dv_has_data := True, dv_ever_data := True\<rparr>) s)"

definition connection_closed :: "nat \<Rightarrow> int \<Rightarrow> scanner_stack \<Rightarrow> scanner_stack" where
  "connection_closed i now s =
     (upd_device i (\<lambda>d. d\<lparr>dv_connected := False, dv_next_retry := now + kReconnectInterval\<rparr>) s)
       \<lparr>gs_losses := gs_losses s + 1\<rparr>"

datatype io_event = Received nat u16 "byte list" | Closed nat int

fun handle_event :: "io_event \<Rightarrow> scanner_stack \<Rightarrow> scanner_stack" where
  "handle_event (Received i sequence data) s = receive_data i sequence data s"
| "handle_event (Closed i now) s = connection_closed i now s"

subsection \<open>The backend interface\<close>

text \<open>
  Without a configuration there is no call; \<open>device_count == 0\<close> is refused. The devices are
  opened one after the other; an exception ends the process, \<open>None\<close>.
\<close>

definition new_device :: "eip_scanner_device \<Rightarrow> io_device" where
  "new_device c = \<lparr>dv_cfg = c, dv_session = False, dv_io = None, dv_connected = False, dv_has_data = False,
     dv_ever_data = False, dv_last_seq = 0, dv_have_seq = False,
     dv_last_good = replicate (unat (d_t2o_bytes c)) 0, dv_latest = replicate (unat (d_t2o_bytes c)) 0,
     dv_to_send = replicate (unat (d_o2t_bytes c)) 0, dv_next_retry = 0\<rparr>"

fun init_loop :: "nat \<Rightarrow> (nat \<Rightarrow> int \<times> open_result) \<Rightarrow> eip_scanner_device list \<Rightarrow> scanner_stack \<Rightarrow> scanner_stack option" where
  "init_loop i net [] s = Some s"
| "init_loop i net (c # cs) s =
     (let s = s\<lparr>gs_devices := gs_devices s @ [new_device c]\<rparr> in
      (case connect_device i (fst (net i)) (snd (net i)) s of (s, threw) \<Rightarrow>
         if threw then None else init_loop (Suc i) net cs s))"

definition scanner_init ::
  "(nat \<Rightarrow> int \<times> open_result) \<Rightarrow> eip_scanner_config \<Rightarrow> scanner_stack \<Rightarrow> (plc_status \<times> scanner_stack) option" where
  "scanner_init net cfg s =
     (if c_devices cfg = [] then Some (PLC_ERR_INVAL, s)
      else
        (case init_loop 0 net (c_devices cfg) (s\<lparr>gs_cfg := cfg, gs_cm := True, gs_devices := []\<rparr>) of
           None \<Rightarrow> None
         | Some s \<Rightarrow> Some (PLC_OK, s)))"

definition scanner_shutdown :: "scanner_stack \<Rightarrow> scanner_stack" where
  "scanner_shutdown s = s\<lparr>gs_cm := False, gs_devices := []\<rparr>"

text \<open>One \<open>poll\<close>: which connections still exist, the call-backs, and what reconnecting gives.\<close>

record poll_env =
  pe_alive :: "nat \<Rightarrow> bool"
  pe_open :: bool
  pe_events :: "io_event list"
  pe_connects :: "nat \<Rightarrow> int \<times> open_result"

definition push_outputs :: "(nat \<Rightarrow> bool) \<Rightarrow> nat \<Rightarrow> scanner_stack \<Rightarrow> scanner_stack" where
  "push_outputs alive i s =
     (let d = gs_devices s ! i in
      if \<not> dv_connected d then s
      else (case dv_io d of
              Some io \<Rightarrow> if alive io then s\<lparr>gs_sending := (gs_sending s)(io := dv_to_send d)\<rparr>
                         else upd_device i (dv_connected_update (\<lambda>_. False)) s
            | None \<Rightarrow> upd_device i (dv_connected_update (\<lambda>_. False)) s))"

definition reconnect :: "(nat \<Rightarrow> int \<times> open_result) \<Rightarrow> nat \<Rightarrow> scanner_stack \<Rightarrow> scanner_stack" where
  "reconnect net i s =
     (if \<not> dv_connected (gs_devices s ! i) then fst (connect_device i (fst (net i)) (snd (net i)) s) else s)"

definition scanner_poll :: "poll_env \<Rightarrow> scanner_stack \<Rightarrow> scanner_stack" where
  "scanner_poll e s =
     (if \<not> gs_cm s then s
      else
        let s = fold (push_outputs (pe_alive e)) [0..<length (gs_devices s)] s;
            s = (if pe_open e then fold handle_event (pe_events e) s else s)
        in fold (reconnect (pe_connects e)) [0..<length (gs_devices s)] s)"

text \<open>
  The image swap. Staging a device's outputs and writing its inputs touch different fields, so
  the two halves of the loop body are given one after the other. \<open>device_slice\<close> is the per-device
  failsafe, \<open>device_health\<close> the byte a program reads.
\<close>

definition device_slice :: "io_device \<Rightarrow> byte list" where
  "device_slice d =
     (if dv_connected d \<and> dv_has_data d then take (unat (d_t2o_bytes (dv_cfg d))) (dv_latest d)
      else if d_failsafe_policy (dv_cfg d) = PLC_FAILSAFE_CLEAR then replicate (unat (d_t2o_bytes (dv_cfg d))) 0
      else take (unat (d_t2o_bytes (dv_cfg d))) (dv_last_good d))"

definition device_health :: "io_device \<Rightarrow> byte" where
  "device_health d =
     (if dv_connected d \<and> dv_has_data d then EIP_DEVICE_ONLINE
      else if dv_ever_data d then EIP_DEVICE_FAILSAFE else EIP_DEVICE_OFFLINE)"

definition stage_outputs :: "byte list \<Rightarrow> io_device \<Rightarrow> io_device" where
  "stage_outputs o2t d =
     (let c = dv_cfg d in
      if unat (d_o2t_offset c + ucast (d_o2t_bytes c)) \<le> length o2t
      then d\<lparr>dv_to_send := put_slice 0 (get_slice (unat (d_o2t_offset c)) (unat (d_o2t_bytes c)) o2t) (dv_to_send d)\<rparr>
      else d)"

fun exchange_loop ::
  "nat \<Rightarrow> nat \<Rightarrow> io_device list \<Rightarrow> byte list \<Rightarrow> byte list \<Rightarrow> byte list \<times> byte list" where
  "exchange_loop n_total i [] health t2o = (health, t2o)"
| "exchange_loop n_total i (d # ds) health t2o =
     (let c = dv_cfg d in
      if unat (d_t2o_offset c + ucast (d_t2o_bytes c)) > n_total then exchange_loop n_total (Suc i) ds health t2o
      else
        let t2o = put_slice (unat (d_t2o_offset c)) (device_slice d) t2o;
            health = (if i < length health then health[i := device_health d] else health)
        in exchange_loop n_total (Suc i) ds health t2o)"

definition scanner_exchange_images ::
  "byte list \<Rightarrow> byte list \<Rightarrow> byte list \<Rightarrow> scanner_stack \<Rightarrow> nat \<times> byte list \<times> byte list \<times> scanner_stack" where
  "scanner_exchange_images o2t health t2o s =
     (let n_total = min (unat (c_total_t2o_bytes (gs_cfg s))) (length t2o);
          s = s\<lparr>gs_devices := map (stage_outputs o2t) (gs_devices s)\<rparr>;
          (health, t2o) = exchange_loop n_total 0 (gs_devices s) health t2o
      in (n_total, health, t2o, s))"

definition scanner_online :: "scanner_stack \<Rightarrow> u32" where
  "scanner_online s = fold (\<lambda>d n. if dv_connected d \<and> dv_has_data d then n + 1 else n) (gs_devices s) 0"

definition kEipScanner :: "(nat \<Rightarrow> int \<times> open_result) \<Rightarrow> scanner_stack eip_scanner_backend" where
  "kEipScanner net = \<lparr>sb_name = ''eipscanner'',
     sb_init = scanner_init net, sb_shutdown = scanner_shutdown,
     sb_exchange_images = scanner_exchange_images, sb_devices_online = scanner_online,
     sb_forward_opens = gs_forward_opens, sb_connection_losses = gs_losses,
     sb_out_of_order = gs_out_of_order\<rparr>"

subsection \<open>The invariant\<close>

definition device_inv :: "io_device \<Rightarrow> bool" where
  "device_inv d \<longleftrightarrow> length (dv_latest d) = unat (d_t2o_bytes (dv_cfg d))
     \<and> length (dv_last_good d) = unat (d_t2o_bytes (dv_cfg d))
     \<and> length (dv_to_send d) = unat (d_o2t_bytes (dv_cfg d))
     \<and> (dv_has_data d \<longrightarrow> dv_ever_data d \<and> dv_have_seq d \<and> dv_last_good d = dv_latest d)
     \<and> (\<not> dv_ever_data d \<longrightarrow> dv_last_good d = replicate (unat (d_t2o_bytes (dv_cfg d))) 0)"

definition stack_inv :: "scanner_stack \<Rightarrow> bool" where
  "stack_inv s \<longleftrightarrow> scanner_wf (gs_cfg s) \<and> map dv_cfg (gs_devices s) = c_devices (gs_cfg s)
     \<and> list_all device_inv (gs_devices s)"

definition keeps_device :: "(io_device \<Rightarrow> io_device) \<Rightarrow> bool" where
  "keeps_device f \<longleftrightarrow> (\<forall>d. dv_cfg (f d) = dv_cfg d \<and> (device_inv d \<longrightarrow> device_inv (f d)))"

lemma upd_device_fields [simp]:
  "gs_cfg (upd_device i f s) = gs_cfg s" "length (gs_devices (upd_device i f s)) = length (gs_devices s)"
  "gs_cm (upd_device i f s) = gs_cm s" "gs_forward_opens (upd_device i f s) = gs_forward_opens s"
  "gs_losses (upd_device i f s) = gs_losses s" "gs_out_of_order (upd_device i f s) = gs_out_of_order s"
  "gs_rejects (upd_device i f s) = gs_rejects s" "gs_sending (upd_device i f s) = gs_sending s"
  by (simp_all add: upd_device_def)

lemma upd_device_nth:
  "j < length (gs_devices s) \<Longrightarrow>
   gs_devices (upd_device i f s) ! j = (if j = i then f (gs_devices s ! i) else gs_devices s ! j)"
  by (simp add: upd_device_def)

lemma keep_configs: "map dv_cfg (xs[i := f (xs ! i)]) = map dv_cfg xs" if "\<And>d. dv_cfg (f d) = dv_cfg d"
  by (cases "i < length xs") (auto intro!: nth_equalityI simp: nth_list_update that)

lemma upd_device_inv: "stack_inv s \<Longrightarrow> keeps_device f \<Longrightarrow> stack_inv (upd_device i f s)"
  unfolding stack_inv_def keeps_device_def
  by (cases "i < length (gs_devices s)")
     (auto simp: upd_device_def keep_configs list_all_length nth_list_update)

lemma stack_inv_other [simp]:
  "stack_inv (s\<lparr>gs_sending := x\<rparr>) = stack_inv s" "stack_inv (s\<lparr>gs_forward_opens := n\<rparr>) = stack_inv s"
  "stack_inv (s\<lparr>gs_losses := n\<rparr>) = stack_inv s" "stack_inv (s\<lparr>gs_out_of_order := n\<rparr>) = stack_inv s"
  "stack_inv (s\<lparr>gs_rejects := n\<rparr>) = stack_inv s" "stack_inv (s\<lparr>gs_cm := c\<rparr>) = stack_inv s"
  by (simp_all add: stack_inv_def)

text \<open>What a received frame leaves in the image: cut or zero-extended.\<close>

definition store_frame :: "u16 \<Rightarrow> byte list \<Rightarrow> io_device \<Rightarrow> io_device" where
  "store_frame sequence data d = d\<lparr>dv_last_seq := sequence, dv_have_seq := True,
     dv_latest := fit (length (dv_latest d)) data, dv_last_good := fit (length (dv_latest d)) data,
     dv_has_data := True, dv_ever_data := True\<rparr>"

lemma receive_buffer:
  assumes "n = min (length data) (length xs)"
    and "ys = (if n \<noteq> 0 then put_slice 0 (take n data) xs else xs)"
  shows "(if n < length ys then put_slice n (replicate (length ys - n) 0) ys else ys) = fit (length xs) data"
  using assms by (auto simp: put_slice_def fit_def min_def)

lemma receive_data_eq:
  "receive_data i sequence data s =
    (if dv_have_seq (gs_devices s ! i) \<and> sint (sequence - dv_last_seq (gs_devices s ! i)) \<le> 0
     then s\<lparr>gs_out_of_order := gs_out_of_order s + 1\<rparr>
     else upd_device i (store_frame sequence data) s)"
  unfolding receive_data_def Let_def receive_buffer [OF refl refl] store_frame_def by simp

lemma keeps_device_updates:
  "keeps_device (store_frame sequence data)"
  "keeps_device (dv_next_retry_update g)" "keeps_device (dv_session_update h)"
  "keeps_device (\<lambda>d. d\<lparr>dv_has_data := False, dv_have_seq := False\<rparr>)"
  "keeps_device (\<lambda>d. d\<lparr>dv_io := io, dv_connected := c\<rparr>)"
  "keeps_device (\<lambda>d. d\<lparr>dv_connected := c, dv_next_retry := r\<rparr>)"
  "keeps_device (dv_connected_update k)"
  by (simp_all add: keeps_device_def device_inv_def store_frame_def)

lemma connect_device_inv: "stack_inv s \<Longrightarrow> stack_inv (fst (connect_device i now res s))"
  by (cases res) (simp_all add: connect_device_def Let_def upd_device_inv keeps_device_updates)

lemma handle_event_inv: "stack_inv s \<Longrightarrow> stack_inv (handle_event ev s)"
  by (cases ev) (simp_all add: receive_data_eq connection_closed_def upd_device_inv keeps_device_updates)

lemma push_outputs_inv: "stack_inv s \<Longrightarrow> stack_inv (push_outputs alive i s)"
  by (simp add: push_outputs_def Let_def upd_device_inv keeps_device_updates split: option.split)

lemma reconnect_inv: "stack_inv s \<Longrightarrow> stack_inv (reconnect net i s)"
  by (simp add: reconnect_def connect_device_inv)

lemma fold_inv: "(\<And>x s. P s \<Longrightarrow> P (f x s)) \<Longrightarrow> P s \<Longrightarrow> P (fold f xs s)"
  by (induction xs arbitrary: s) simp_all

lemma scanner_poll_inv: "stack_inv s \<Longrightarrow> stack_inv (scanner_poll e s)"
  by (simp add: scanner_poll_def Let_def fold_inv [where P = stack_inv] push_outputs_inv handle_event_inv
      reconnect_inv)

lemma stage_outputs_inv:
  assumes "device_inv d" and "unat (d_o2t_offset (dv_cfg d)) \<le> 496"
  shows "device_inv (stage_outputs o2t d)"
proof -
  have "unat (d_o2t_offset (dv_cfg d) + ucast (d_o2t_bytes (dv_cfg d))) =
      unat (d_o2t_offset (dv_cfg d)) + unat (d_o2t_bytes (dv_cfg d))"
    by (rule unat_add_u16 [OF assms(2)])
  then show ?thesis
    using assms(1) by (auto simp: stage_outputs_def device_inv_def Let_def put_slice_def get_slice_def)
qed

lemma stage_outputs_cfg [simp]: "dv_cfg (stage_outputs o2t d) = dv_cfg d"
  by (simp add: stage_outputs_def Let_def)

subsection \<open>The image swap\<close>

lemma device_slice_length: "device_inv d \<Longrightarrow> length (device_slice d) = unat (d_t2o_bytes (dv_cfg d))"
  by (simp add: device_slice_def device_inv_def)

lemma concat_slices_length:
  "list_all device_inv ds \<Longrightarrow> length (concat (map device_slice ds)) = t2o_sum (map dv_cfg ds)"
  by (induction ds) (simp_all add: device_slice_length)

lemma put_slice_end: "length acc = k \<Longrightarrow> put_slice k xs (acc @ rest) = acc @ xs @ drop (length xs) rest"
  by (simp add: put_slice_def)

lemma exchange_loop_tiles:
  assumes "packed (map dv_cfg (ds0 @ ds))" and "t2o_sum (map dv_cfg (ds0 @ ds)) \<le> 496"
    and "t2o_sum (map dv_cfg (ds0 @ ds)) \<le> n" and "list_all device_inv ds"
    and "length acc = t2o_sum (map dv_cfg ds0)" and "length hs = length ds0" and "length hrest = length ds"
  shows "exchange_loop n (length ds0) ds (hs @ hrest) (acc @ rest) =
    (hs @ map device_health ds, acc @ concat (map device_slice ds) @ drop (t2o_sum (map dv_cfg ds)) rest)"
  using assms
proof (induction ds arbitrary: ds0 acc hs hrest rest)
  case Nil
  then show ?case by simp
next
  case (Cons d ds)
  obtain h hr where h: "hrest = h # hr" using Cons.prems(7) by (cases hrest) auto
  have len: "length (device_slice d) = unat (d_t2o_bytes (dv_cfg d))"
    using Cons.prems(4) by (simp add: device_slice_length)
  have "unat (d_t2o_offset (map dv_cfg (ds0 @ d # ds) ! length ds0)) =
      t2o_sum (take (length ds0) (map dv_cfg (ds0 @ d # ds)))"
    using Cons.prems(1) unfolding packed_def by simp
  then have off: "unat (d_t2o_offset (dv_cfg d)) = length acc" using Cons.prems(5) by (simp add: nth_append)
  have "unat (d_t2o_offset (dv_cfg d) + ucast (d_t2o_bytes (dv_cfg d))) =
      length acc + unat (d_t2o_bytes (dv_cfg d))"
    using Cons.prems(2,5) off unat_add_u16 [of "d_t2o_offset (dv_cfg d)" "d_t2o_bytes (dv_cfg d)"] by simp
  then have fits: "\<not> unat (d_t2o_offset (dv_cfg d) + ucast (d_t2o_bytes (dv_cfg d))) > n"
    using Cons.prems(3,5) by simp
  have IH: "exchange_loop n (length (ds0 @ [d])) ds ((hs @ [device_health d]) @ hr)
      ((acc @ device_slice d) @ drop (length (device_slice d)) rest) =
    ((hs @ [device_health d]) @ map device_health ds, (acc @ device_slice d) @ concat (map device_slice ds)
      @ drop (t2o_sum (map dv_cfg ds)) (drop (length (device_slice d)) rest))"
    by (rule Cons.IH) (use Cons.prems h len in simp_all)
  have "(hs @ h # hr)[length ds0 := x] = hs @ x # hr" for x
    using Cons.prems(6) by (metis list_update_length)
  with IH fits off len Cons.prems(6) h show ?case by (simp add: Let_def put_slice_end add.commute)
qed

lemma stage_all_inv:
  assumes "stack_inv s"
  shows "stack_inv (s\<lparr>gs_devices := map (stage_outputs o2t) (gs_devices s)\<rparr>)"
proof -
  have "device_inv (stage_outputs o2t d)" if "d \<in> set (gs_devices s)" for d
  proof -
    have "dv_cfg d \<in> set (map dv_cfg (gs_devices s))" using that by simp
    then have "dv_cfg d \<in> set (c_devices (gs_cfg s))" using assms unfolding stack_inv_def by metis
    then obtain i where "i < length (c_devices (gs_cfg s))" "dv_cfg d = c_devices (gs_cfg s) ! i"
      by (auto simp: in_set_conv_nth)
    then have "unat (d_o2t_offset (dv_cfg d)) \<le> 496"
      using packed_bounds(2) [of "c_devices (gs_cfg s)" i] assms by (simp add: stack_inv_def scanner_wf_def)
    then show ?thesis using that assms by (auto simp: stack_inv_def list_all_iff intro: stage_outputs_inv)
  qed
  then show ?thesis using assms by (simp add: stack_inv_def comp_def list_all_iff)
qed

lemma exchange_images_eq:
  assumes "stack_inv s" and "length health = length (gs_devices s)"
    and "unat (c_total_t2o_bytes (gs_cfg s)) \<le> length t2o"
  shows "scanner_exchange_images o2t health t2o s =
    (unat (c_total_t2o_bytes (gs_cfg s)), map device_health (gs_devices s),
     concat (map device_slice (gs_devices s)) @ drop (unat (c_total_t2o_bytes (gs_cfg s))) t2o,
     s\<lparr>gs_devices := map (stage_outputs o2t) (gs_devices s)\<rparr>)"
proof -
  let ?ds = "map (stage_outputs o2t) (gs_devices s)"
  have cfgs: "map dv_cfg ?ds = c_devices (gs_cfg s)" using assms(1) by (simp add: stack_inv_def comp_def)
  have wf: "scanner_wf (gs_cfg s)" using assms(1) by (simp add: stack_inv_def)
  have same: "device_slice (stage_outputs o2t d) = device_slice d"
    "device_health (stage_outputs o2t d) = device_health d" for d
    by (auto simp: stage_outputs_def device_slice_def device_health_def Let_def)
  have inv: "list_all device_inv ?ds"
    using stage_all_inv [OF assms(1)] by (simp add: stack_inv_def)
  have "exchange_loop (unat (c_total_t2o_bytes (gs_cfg s))) (length ([] :: io_device list)) ?ds ([] @ health) ([] @ t2o) =
    ([] @ map device_health ?ds, [] @ concat (map device_slice ?ds) @ drop (t2o_sum (map dv_cfg ?ds)) t2o)"
    by (rule exchange_loop_tiles) (use wf assms(2) inv cfgs in \<open>simp_all add: scanner_wf_def\<close>)
  then show ?thesis
    using assms(3) wf cfgs
    by (simp add: scanner_exchange_images_def Let_def same comp_def min_absorb1 scanner_wf_def)
qed

lemma stage_same [simp]:
  "device_slice (stage_outputs o2t d) = device_slice d" "device_health (stage_outputs o2t d) = device_health d"
  "dv_connected (stage_outputs o2t d) = dv_connected d" "dv_has_data (stage_outputs o2t d) = dv_has_data d"
  by (auto simp: stage_outputs_def device_slice_def device_health_def Let_def)

lemma health_online: "device_health d = EIP_DEVICE_ONLINE \<longleftrightarrow> dv_connected d \<and> dv_has_data d"
  by (simp add: device_health_def)

lemma online_count:
  "fold (\<lambda>d n. if dv_connected d \<and> dv_has_data d then n + 1 else n) ds n =
    n + of_nat (length (filter (\<lambda>h. h = EIP_DEVICE_ONLINE) (map device_health ds)))"
  for n :: u32
  by (induction ds arbitrary: n) (simp_all add: health_online)

lemma scanner_online_count:
  assumes "stack_inv s"
  shows "unat (scanner_online s) = length (filter (\<lambda>h. h = EIP_DEVICE_ONLINE) (map device_health (gs_devices s)))"
proof -
  have "length (gs_devices s) \<le> 16"
    using assms by (metis length_map scanner_wf_def stack_inv_def)
  then have "length (map device_health (gs_devices s)) < 2 ^ 32" by simp
  with length_filter_le [of "\<lambda>h. h = EIP_DEVICE_ONLINE" "map device_health (gs_devices s)"]
  have "length (filter (\<lambda>h. h = EIP_DEVICE_ONLINE) (map device_health (gs_devices s))) < 2 ^ 32"
    by (rule le_less_trans)
  then show ?thesis
    by (simp only: scanner_online_def online_count add_0 unat_of_nat) (simp add: take_bit_nat_eq_self)
qed

lemma get_slice_concat:
  assumes "i < length xss"
  shows "get_slice (length (concat (take i xss))) (length (xss ! i)) (concat xss @ rest) = xss ! i"
proof -
  have "concat xss = concat (take i xss) @ xss ! i @ concat (drop (Suc i) xss)"
    using id_take_nth_drop [OF assms] by (metis concat.simps(2) concat_append)
  then show ?thesis by (simp add: get_slice_def)
qed

lemma slice_position:
  assumes "stack_inv s" and "i < length (gs_devices s)"
  shows "get_slice (unat (d_t2o_offset (dv_cfg (gs_devices s ! i)))) (unat (d_t2o_bytes (dv_cfg (gs_devices s ! i))))
    (concat (map device_slice (gs_devices s)) @ rest) = device_slice (gs_devices s ! i)"
proof -
  let ?ds = "gs_devices s"
  have cs: "map dv_cfg ?ds = c_devices (gs_cfg s)" and inv: "list_all device_inv ?ds"
    and p: "packed (c_devices (gs_cfg s))" using assms(1) by (simp_all add: stack_inv_def scanner_wf_def)
  have nth: "c_devices (gs_cfg s) ! i = dv_cfg (?ds ! i)" "length (c_devices (gs_cfg s)) = length ?ds"
    using assms(2) by (simp_all flip: cs)
  have "unat (d_t2o_offset (c_devices (gs_cfg s) ! i)) = t2o_sum (take i (c_devices (gs_cfg s)))"
    using p assms(2) nth(2) unfolding packed_def by simp
  then have "unat (d_t2o_offset (dv_cfg (?ds ! i))) = t2o_sum (take i (map dv_cfg ?ds))"
    unfolding nth(1) cs .
  also have "\<dots> = length (concat (map device_slice (take i ?ds)))"
  proof -
    have "list_all device_inv (take i ?ds)" using inv by (auto simp: list_all_iff dest: in_set_takeD)
    then show ?thesis using concat_slices_length [of "take i ?ds"] by (simp add: take_map)
  qed
  finally have off: "unat (d_t2o_offset (dv_cfg (?ds ! i))) = length (concat (take i (map device_slice ?ds)))"
    by (simp add: take_map)
  have len: "unat (d_t2o_bytes (dv_cfg (?ds ! i))) = length (map device_slice ?ds ! i)"
    using inv assms(2) by (simp add: device_slice_length list_all_length)
  show ?thesis unfolding off len using get_slice_concat [of i "map device_slice ?ds" rest] assms(2) by simp
qed

lemma staged_slice:
  assumes "stack_inv s" and "d \<in> set (gs_devices s)" and "unat (c_total_o2t_bytes (gs_cfg s)) \<le> length o2t"
  shows "dv_to_send (stage_outputs o2t d) =
    get_slice (unat (d_o2t_offset (dv_cfg d))) (unat (d_o2t_bytes (dv_cfg d))) o2t"
proof -
  let ?c = "dv_cfg d"
  have wf: "scanner_wf (gs_cfg s)" and "map dv_cfg (gs_devices s) = c_devices (gs_cfg s)"
    using assms(1) by (simp_all add: stack_inv_def)
  then have "?c \<in> set (c_devices (gs_cfg s))" using assms(2) by (metis image_eqI list.set_map)
  then obtain i where "i < length (c_devices (gs_cfg s))" "?c = c_devices (gs_cfg s) ! i"
    by (auto simp: in_set_conv_nth)
  then have le: "unat (d_o2t_offset ?c) + unat (d_o2t_bytes ?c) \<le> o2t_sum (c_devices (gs_cfg s))"
    using packed_bounds(2) wf by (simp add: scanner_wf_def)
  then have "unat (d_o2t_offset ?c + ucast (d_o2t_bytes ?c)) = unat (d_o2t_offset ?c) + unat (d_o2t_bytes ?c)"
    using wf by (intro unat_add_u16) (simp add: scanner_wf_def)
  moreover have "length (dv_to_send d) = unat (d_o2t_bytes ?c)"
    using assms(1,2) by (simp add: stack_inv_def list_all_iff device_inv_def)
  ultimately show ?thesis
    using le wf assms(3) by (simp add: stage_outputs_def Let_def scanner_wf_def put_slice_def get_slice_def)
qed

text \<open>
  C8: The scanner's image swap treats every device by itself. Whatever the reply buffer held,
  each device's slice of the input block is the newest frame of a device that is connected and
  has delivered data on this connection, and otherwise zeroes or the last good bytes under that
  device's own policy; its health byte says which: online, failsafe (there was data once) or
  offline. What each device will be sent is its own slice of the output image. So losing one
  device changes no other device's bytes. The number of devices reported online is the number
  of health bytes that say so.
\<close>

theorem scanner_images_per_device:
  assumes "stack_inv s" and "length health = length (gs_devices s)"
    and "unat (c_total_t2o_bytes (gs_cfg s)) \<le> length t2o"
    and "unat (c_total_o2t_bytes (gs_cfg s)) \<le> length o2t"
  shows "\<exists>h t s'. scanner_exchange_images o2t health t2o s = (unat (c_total_t2o_bytes (gs_cfg s)), h, t, s')
    \<and> length h = length (gs_devices s) \<and> length (gs_devices s') = length (gs_devices s) \<and> stack_inv s'
    \<and> (\<forall>i < length (gs_devices s). \<forall>d. d = gs_devices s ! i \<longrightarrow>
         h ! i = (if dv_connected d \<and> dv_has_data d then 1 else if dv_ever_data d then 2 else 0)
         \<and> get_slice (unat (d_t2o_offset (dv_cfg d))) (unat (d_t2o_bytes (dv_cfg d))) t =
             (if dv_connected d \<and> dv_has_data d then dv_latest d
              else if d_failsafe_policy (dv_cfg d) = PLC_FAILSAFE_CLEAR
              then replicate (unat (d_t2o_bytes (dv_cfg d))) 0 else dv_last_good d)
         \<and> dv_to_send (gs_devices s' ! i) =
             get_slice (unat (d_o2t_offset (dv_cfg d))) (unat (d_o2t_bytes (dv_cfg d))) o2t)
    \<and> unat (scanner_online s') = length (filter (\<lambda>x. x = 1) h)"
proof -
  let ?s = "s\<lparr>gs_devices := map (stage_outputs o2t) (gs_devices s)\<rparr>"
  let ?t = "concat (map device_slice (gs_devices s)) @ drop (unat (c_total_t2o_bytes (gs_cfg s))) t2o"
  have inv: "list_all device_inv (gs_devices s)" using assms(1) by (simp add: stack_inv_def)
  have "device_slice d = (if dv_connected d \<and> dv_has_data d then dv_latest d
      else if d_failsafe_policy (dv_cfg d) = PLC_FAILSAFE_CLEAR
      then replicate (unat (d_t2o_bytes (dv_cfg d))) 0 else dv_last_good d)" if "d \<in> set (gs_devices s)" for d
    using inv that by (auto simp: device_slice_def list_all_iff device_inv_def)
  then show ?thesis
    unfolding exchange_images_eq [OF assms(1-3)]
    using stage_all_inv [OF assms(1), of o2t] scanner_online_count [OF stage_all_inv [OF assms(1), of o2t]]
      slice_position [OF assms(1)] staged_slice [OF assms(1) _ assms(4)]
    by (intro exI [of _ "map device_health (gs_devices s)"] exI [of _ ?t] exI [of _ ?s])
       (simp add: comp_def device_health_def)
qed

subsection \<open>Sequence counts\<close>

text \<open>
  Frames carry the true count of the producer modulo $2^{16}$. \<open>newest\<close> is the frame with the
  largest count (the first of several); a list of frames is in the window when each count is
  less than $2^{15}$ away from the largest one before it.
\<close>

fun newest :: "nat \<times> byte list \<Rightarrow> (nat \<times> byte list) list \<Rightarrow> nat \<times> byte list" where
  "newest b [] = b"
| "newest b (f # fs) = newest (if fst b < fst f then f else b) fs"

fun in_window :: "nat \<Rightarrow> (nat \<times> byte list) list \<Rightarrow> bool" where
  "in_window m [] \<longleftrightarrow> True"
| "in_window m (f # fs) \<longleftrightarrow> \<bar>int (fst f) - int m\<bar> < 2 ^ 15 \<and> in_window (max m (fst f)) fs"

definition receive_all :: "nat \<Rightarrow> (nat \<times> byte list) list \<Rightarrow> scanner_stack \<Rightarrow> scanner_stack" where
  "receive_all i fs s = fold (\<lambda>f. receive_data i (of_nat (fst f)) (snd f)) fs s"

lemma sint_count_diff:
  assumes "\<bar>int c - int m\<bar> < 2 ^ 15"
  shows "sint (of_nat c - of_nat m :: u16) = int c - int m"
proof -
  have "(of_nat c - of_nat m :: u16) = word_of_int (int c - int m)" by simp
  moreover have "signed_take_bit 15 (int c - int m) = int c - int m"
    using assms by (intro signed_take_bit_int_eq_self) auto
  ultimately show ?thesis by (simp only: sint_sbintrunc') simp
qed

lemma receive_all_newest:
  assumes "i < length (gs_devices s)" and "dv_have_seq (gs_devices s ! i)"
    and "dv_last_seq (gs_devices s ! i) = of_nat (fst b)"
    and "dv_latest (gs_devices s ! i) = fit n (snd b)" and "in_window (fst b) fs"
  shows "dv_latest (gs_devices (receive_all i fs s) ! i) = fit n (snd (newest b fs))
    \<and> dv_last_seq (gs_devices (receive_all i fs s) ! i) = of_nat (fst (newest b fs))
    \<and> (\<forall>j < length (gs_devices s). j \<noteq> i \<longrightarrow> gs_devices (receive_all i fs s) ! j = gs_devices s ! j)"
  using assms
proof (induction fs arbitrary: s b)
  case Nil
  then show ?case by (simp add: receive_all_def)
next
  case (Cons f fs)
  let ?s = "receive_data i (of_nat (fst f)) (snd f) s"
  have diff: "sint (of_nat (fst f) - of_nat (fst b) :: u16) = int (fst f) - int (fst b)"
    using Cons.prems(5) by (intro sint_count_diff) simp
  have step: "receive_all i (f # fs) s = receive_all i fs ?s" by (simp add: receive_all_def)
  show ?case
  proof (cases "fst b < fst f")
    case True
    then have s: "?s = upd_device i (store_frame (of_nat (fst f)) (snd f)) s"
      using diff Cons.prems(3) by (simp add: receive_data_eq)
    have "dv_latest (gs_devices s ! i) = fit n (snd b)" by (rule Cons.prems(4))
    then have d: "dv_have_seq (gs_devices ?s ! i)" "dv_last_seq (gs_devices ?s ! i) = of_nat (fst f)"
      "dv_latest (gs_devices ?s ! i) = fit n (snd f)"
      using Cons.prems(1) by (simp_all add: s upd_device_nth store_frame_def)
    have "in_window (fst f) fs" using Cons.prems(5) True by (simp add: max_def)
    from Cons.IH [OF _ d this] Cons.prems(1) True show ?thesis
      unfolding step by (simp add: s upd_device_nth)
  next
    case False
    then have s: "?s = s\<lparr>gs_out_of_order := gs_out_of_order s + 1\<rparr>"
      using diff Cons.prems(2,3) by (simp add: receive_data_eq)
    have "in_window (fst b) fs" using Cons.prems(5) False by (simp add: max_def)
    with Cons.IH [of ?s b] Cons.prems False show ?thesis unfolding step by (simp add: s)
  qed
qed

text \<open>
  C9: A network that delays, repeats or reorders frames never makes the image step back. Take a
  connection that was just opened and any frames arriving on it, numbered by the producer's true
  count, of which only the low 16 bits are on the wire. As long as no frame is $2^{15}$ or more
  counts away from the newest one before it, the image is the payload of the frame with the
  largest count among all that arrived, also across the wrap-around of the 16-bit count, and no
  other device's image is touched.
\<close>

theorem scanner_never_steps_back:
  assumes "i < length (gs_devices s)" and "\<not> dv_have_seq (gs_devices s ! i)" and "in_window (fst f) fs"
    and "s' = receive_all i (f # fs) s"
  shows "dv_latest (gs_devices s' ! i) = fit (length (dv_latest (gs_devices s ! i))) (snd (newest f fs))
    \<and> (\<forall>j < length (gs_devices s). j \<noteq> i \<longrightarrow> gs_devices s' ! j = gs_devices s ! j)"
proof -
  let ?s = "upd_device i (store_frame (of_nat (fst f)) (snd f)) s"
  have first: "s' = receive_all i fs ?s" using assms(2,4) by (simp add: receive_all_def receive_data_eq)
  show ?thesis
    using receive_all_newest [of i ?s f "length (dv_latest (gs_devices s ! i))" fs] assms(1,3)
    unfolding first by (simp add: upd_device_nth store_frame_def)
qed

subsection \<open>Starting\<close>

lemma upd_device_keeps:
  assumes "keeps_device f"
  shows "map dv_cfg (gs_devices (upd_device i f s)) = map dv_cfg (gs_devices s)"
    and "list_all device_inv (gs_devices s) \<Longrightarrow> list_all device_inv (gs_devices (upd_device i f s))"
  using assms unfolding keeps_device_def upd_device_def
  by (simp_all add: keep_configs) (cases "i < length (gs_devices s)"; auto simp: list_all_length nth_list_update)

lemma connect_device_keeps:
  assumes "connect_device i now res s = (s', threw)"
  shows "map dv_cfg (gs_devices s') = map dv_cfg (gs_devices s) \<and> gs_cfg s' = gs_cfg s
    \<and> (list_all device_inv (gs_devices s) \<longrightarrow> list_all device_inv (gs_devices s'))"
  using assms
  by (cases res) (auto simp: connect_device_def Let_def upd_device_keeps keeps_device_updates split: if_splits)

lemma new_device_inv: "device_inv (new_device c)" "dv_cfg (new_device c) = c"
  by (simp_all add: device_inv_def new_device_def)

lemma init_loop_inv:
  "init_loop i net cs s = Some s' \<Longrightarrow> list_all device_inv (gs_devices s) \<Longrightarrow>
   map dv_cfg (gs_devices s') = map dv_cfg (gs_devices s) @ cs \<and> gs_cfg s' = gs_cfg s
   \<and> list_all device_inv (gs_devices s')"
proof (induction cs arbitrary: i s)
  case (Cons c cs)
  let ?s = "s\<lparr>gs_devices := gs_devices s @ [new_device c]\<rparr>"
  obtain s1 threw where c: "connect_device i (fst (net i)) (snd (net i)) ?s = (s1, threw)" by force
  note k = connect_device_keeps [OF c]
  have "init_loop (Suc i) net cs s1 = Some s'" using Cons.prems(1) c by (simp split: if_splits)
  from Cons.IH [OF this] k Cons.prems(2) show ?case by (simp add: new_device_inv)
qed simp

lemma scanner_init_inv:
  "scanner_init net cfg s = Some (PLC_OK, s') \<Longrightarrow> scanner_wf cfg \<Longrightarrow> stack_inv s' \<and> gs_cfg s' = cfg"
  by (auto simp: scanner_init_def stack_inv_def dest: init_loop_inv split: if_splits option.splits)

interpretation eipscan: originator_stack "kEipScanner net" stack_inv gs_cfg
proof
  fix cfg b b' health t2o o2t n h t
  show "stack_inv b' \<and> gs_cfg b' = cfg" if "sb_init (kEipScanner net) cfg b = Some (PLC_OK, b')" "scanner_wf cfg"
    using that scanner_init_inv by (simp add: kEipScanner_def)
  assume b: "stack_inv b"
  then show "scanner_wf (gs_cfg b)" by (simp add: stack_inv_def)
  have len: "length (c_devices (gs_cfg b)) = length (gs_devices b)"
    using b unfolding stack_inv_def by (metis length_map)
  have sum: "length (concat (map device_slice (gs_devices b))) = unat (c_total_t2o_bytes (gs_cfg b))"
    using b concat_slices_length [of "gs_devices b"] by (simp add: stack_inv_def scanner_wf_def)
  assume *: "length health = length (c_devices (gs_cfg b))" "unat (c_total_t2o_bytes (gs_cfg b)) \<le> length t2o"
    "sb_exchange_images (kEipScanner net) o2t health t2o b = (n, h, t, b')"
  with exchange_images_eq [OF b, of health t2o o2t] len sum stage_all_inv [OF b, of o2t]
  show "n = unat (c_total_t2o_bytes (gs_cfg b)) \<and> length h = length health \<and> length t = length t2o
      \<and> stack_inv b' \<and> gs_cfg b' = gs_cfg b"
    by (auto simp: kEipScanner_def)
qed

lemma init_loop_no_data:
  "init_loop i net cs s = Some s' \<Longrightarrow> length (gs_devices s) = i \<Longrightarrow> list_all (\<lambda>d. \<not> dv_has_data d) (gs_devices s) \<Longrightarrow>
   list_all (\<lambda>d. \<not> dv_has_data d) (gs_devices s')"
proof (induction cs arbitrary: i s)
  case (Cons c cs)
  let ?s = "s\<lparr>gs_devices := gs_devices s @ [new_device c]\<rparr>"
  obtain s1 threw where c: "connect_device i (fst (net i)) (snd (net i)) ?s = (s1, threw)" by force
  have "list_all (\<lambda>d. \<not> dv_has_data d) (gs_devices s1) \<and> length (gs_devices s1) = Suc i"
    using c Cons.prems(2,3)
    by (cases "snd (net i)")
       (auto simp: connect_device_def Let_def upd_device_def new_device_def split: if_splits)
  with Cons.IH [of "Suc i" s1] Cons.prems(1) c show ?case by (simp split: if_splits)
qed simp

subsection \<open>Every interleaving of the two threads\<close>

text \<open>The steps that take the mutex: the stack thread's three kinds, and the IPC thread's swap.\<close>

datatype act =
    Push "nat \<Rightarrow> bool" nat
  | Event io_event
  | Reconnect "nat \<Rightarrow> int \<times> open_result" nat
  | Swap "byte list" "byte list" "byte list"

fun do_act :: "act \<Rightarrow> scanner_stack \<Rightarrow> scanner_stack" where
  "do_act (Push alive i) s = push_outputs alive i s"
| "do_act (Event ev) s = handle_event ev s"
| "do_act (Reconnect net i) s = reconnect net i s"
| "do_act (Swap o2t health t2o) s = snd (snd (snd (scanner_exchange_images o2t health t2o s)))"

text \<open>Whether a step opens a new connection for device \<open>i\<close>.\<close>

definition opens :: "nat \<Rightarrow> act \<Rightarrow> scanner_stack \<Rightarrow> bool" where
  "opens i a s \<longleftrightarrow> (case a of
     Reconnect net j \<Rightarrow> j = i \<and> \<not> dv_connected (gs_devices s ! i) \<and> dv_next_retry (gs_devices s ! i) \<le> fst (net i)
       \<and> (\<exists>io. snd (net i) = Opened io)
   | _ \<Rightarrow> False)"

text \<open>The payloads that arrived for device \<open>i\<close> since its connection was last opened.\<close>

fun heard :: "nat \<Rightarrow> act list \<Rightarrow> scanner_stack \<Rightarrow> byte list set \<Rightarrow> byte list set" where
  "heard i [] s h = h"
| "heard i (a # as) s h = heard i as (do_act a s)
     (if opens i a s then {}
      else (case a of Event (Received j q data) \<Rightarrow> if j = i then insert data h else h | _ \<Rightarrow> h))"

lemma swap_state:
  "snd (snd (snd (scanner_exchange_images o2t health t2o s))) =
    s\<lparr>gs_devices := map (stage_outputs o2t) (gs_devices s)\<rparr>"
  by (simp add: scanner_exchange_images_def Let_def split: prod.split)

lemma do_act_inv: "stack_inv s \<Longrightarrow> stack_inv (do_act a s)"
  by (cases a) (simp_all add: push_outputs_inv handle_event_inv reconnect_inv swap_state stage_all_inv)

definition fresh_from :: "nat \<Rightarrow> scanner_stack \<Rightarrow> byte list set \<Rightarrow> bool" where
  "fresh_from i s h \<longleftrightarrow> (dv_has_data (gs_devices s ! i) \<longrightarrow>
     (\<exists>data \<in> h. dv_latest (gs_devices s ! i) = fit (length (dv_latest (gs_devices s ! i))) data))"

lemma do_act_devices: "length (gs_devices (do_act a s)) = length (gs_devices s)"
proof (cases a)
  case (Push alive i)
  then show ?thesis by (simp add: push_outputs_def Let_def split: option.split)
next
  case (Event ev)
  then show ?thesis by (cases ev) (simp_all add: receive_data_eq connection_closed_def)
next
  case (Reconnect net i)
  then show ?thesis
    by (cases "snd (net i)") (simp_all add: reconnect_def connect_device_def Let_def)
next
  case (Swap o2t health t2o)
  then show ?thesis by (simp add: swap_state)
qed

lemma do_act_cfg: "gs_cfg (do_act a s) = gs_cfg s"
proof (cases a)
  case (Push alive i)
  then show ?thesis by (simp add: push_outputs_def Let_def split: option.split)
next
  case (Event ev)
  then show ?thesis by (cases ev) (simp_all add: receive_data_eq connection_closed_def)
next
  case (Reconnect net i)
  then show ?thesis
    by (cases "snd (net i)") (simp_all add: reconnect_def connect_device_def Let_def)
next
  case (Swap o2t health t2o)
  then show ?thesis by (simp add: swap_state)
qed

lemma run_inv:
  "stack_inv s \<Longrightarrow> stack_inv (fold do_act as s) \<and> gs_cfg (fold do_act as s) = gs_cfg s
     \<and> length (gs_devices (fold do_act as s)) = length (gs_devices s)"
  by (induction as arbitrary: s) (simp_all add: do_act_inv do_act_cfg do_act_devices)

lemma connect_device_fresh:
  assumes "i < length (gs_devices s)"
  shows "gs_devices (fst (connect_device j now res s)) ! i =
    (if j \<noteq> i \<or> now < dv_next_retry (gs_devices s ! i) then gs_devices s ! i
     else (case res of
        Opened io \<Rightarrow> (gs_devices s ! i)\<lparr>dv_next_retry := now + kReconnectInterval, dv_session := True,
          dv_has_data := False, dv_have_seq := False, dv_io := Some io, dv_connected := True\<rparr>
      | Open_threw \<Rightarrow> (gs_devices s ! i)\<lparr>dv_next_retry := now + kReconnectInterval, dv_session := True\<rparr>
      | _ \<Rightarrow> (gs_devices s ! i)\<lparr>dv_next_retry := now + kReconnectInterval, dv_session := False\<rparr>))"
  using assms by (cases res) (auto simp: connect_device_def Let_def upd_device_nth)

lemma fresh_step:
  assumes "fresh_from i s h" and "i < length (gs_devices s)"
  shows "fresh_from i (do_act a s)
    (if opens i a s then {}
     else (case a of Event (Received j q data) \<Rightarrow> if j = i then insert data h else h | _ \<Rightarrow> h))"
proof (cases a)
  case (Push alive j)
  then show ?thesis
    using assms by (auto simp: push_outputs_def Let_def fresh_from_def opens_def upd_device_nth split: option.split)
next
  case (Event ev)
  then show ?thesis
    using assms
    by (cases ev) (auto simp: receive_data_eq connection_closed_def fresh_from_def opens_def upd_device_nth
        store_frame_def)
next
  case (Reconnect net j)
  then show ?thesis
    using assms
    by (auto simp: reconnect_def connect_device_fresh fresh_from_def opens_def split: open_result.splits)
next
  case (Swap o2t health t2o)
  have "dv_latest (stage_outputs o2t d) = dv_latest d" for d by (simp add: stage_outputs_def Let_def)
  then show ?thesis using assms Swap by (simp add: swap_state fresh_from_def opens_def)
qed

lemma fresh_run:
  "fresh_from i s h \<Longrightarrow> i < length (gs_devices s) \<Longrightarrow> fresh_from i (fold do_act as s) (heard i as s h)"
proof (induction as arbitrary: s h)
  case (Cons a as)
  show ?case using Cons.IH [OF fresh_step [OF Cons.prems]] Cons.prems(2) by (simp add: do_act_devices)
qed simp


subsection \<open>Examples and two consequences of the code\<close>

definition idle_stack :: scanner_stack where
  "idle_stack = \<lparr>gs_cfg = scanner_config_zero, gs_devices = [], gs_cm = False, gs_forward_opens = 0,
     gs_losses = 0, gs_out_of_order = 0, gs_rejects = 0, gs_sending = (\<lambda>_. [])\<rparr>"

text \<open>The first of the two drives connects, the second rejects the connection size.\<close>

definition demo_net :: "nat \<Rightarrow> int \<times> open_result" where
  "demo_net i = (1000, if i = 0 then Opened 7 else Open_rejected 0x109)"

definition demo_stack :: scanner_stack where
  "demo_stack = snd (the (scanner_init demo_net (placed demo_table) idle_stack))"

lemma demo_stack_starts: "scanner_init demo_net (placed demo_table) idle_stack = Some (PLC_OK, demo_stack)"
proof -
  have "fst (the (scanner_init demo_net (placed demo_table) idle_stack)) = PLC_OK"
    "scanner_init demo_net (placed demo_table) idle_stack \<noteq> None"
    by (simp_all add: scanner_init_def placed_def demo_table_def connect_device_def demo_net_def
        new_device_def Let_def)
  then show ?thesis by (auto simp: demo_stack_def)
qed

lemma demo_stack_inv: "stack_inv demo_stack" "gs_cfg demo_stack = placed demo_table"
  using scanner_init_inv [OF demo_stack_starts demo_table_wf] by simp_all

lemma demo_stack_devices: "length (gs_devices demo_stack) = 2"
proof -
  have "length (map dv_cfg (gs_devices demo_stack)) = length demo_table"
    using demo_stack_inv unfolding stack_inv_def by (simp add: placed_def del: length_map)
  then show ?thesis by (simp add: demo_table_def)
qed

theorem scanner_images_per_device_witness:
  "\<exists>h t s'. scanner_exchange_images [1, 2, 3] [9, 9] (replicate 494 9) demo_stack = (5, h, t, s')
    \<and> h ! 0 = 0 \<and> get_slice 0 3 t = [0, 0, 0] \<and> dv_to_send (gs_devices s' ! 0) = [1, 2]"
proof -
  have n: "unat (c_total_t2o_bytes (gs_cfg demo_stack)) = 5" "unat (c_total_o2t_bytes (gs_cfg demo_stack)) = 3"
    by (simp_all add: demo_stack_inv(2) placed_def demo_table_def)
  have hyps: "length [9, 9 :: byte] = length (gs_devices demo_stack)"
    "unat (c_total_t2o_bytes (gs_cfg demo_stack)) \<le> length (replicate 494 (9 :: byte))"
    "unat (c_total_o2t_bytes (gs_cfg demo_stack)) \<le> length [1, 2, 3 :: byte]"
    by (simp_all add: n demo_stack_devices)
  have d: "0 < length (gs_devices demo_stack)" by (simp add: demo_stack_devices)
  from scanner_images_per_device [OF demo_stack_inv(1) hyps] obtain h t s' where
    ex: "scanner_exchange_images [1, 2, 3] [9, 9] (replicate 494 9) demo_stack = (5, h, t, s')"
    and dev: "\<forall>i < length (gs_devices demo_stack). \<forall>d. d = gs_devices demo_stack ! i \<longrightarrow>
         h ! i = (if dv_connected d \<and> dv_has_data d then 1 else if dv_ever_data d then 2 else 0)
         \<and> get_slice (unat (d_t2o_offset (dv_cfg d))) (unat (d_t2o_bytes (dv_cfg d))) t =
             (if dv_connected d \<and> dv_has_data d then dv_latest d
              else if d_failsafe_policy (dv_cfg d) = PLC_FAILSAFE_CLEAR
              then replicate (unat (d_t2o_bytes (dv_cfg d))) 0 else dv_last_good d)
         \<and> dv_to_send (gs_devices s' ! i) =
             get_slice (unat (d_o2t_offset (dv_cfg d))) (unat (d_o2t_bytes (dv_cfg d))) [1, 2, 3]"
    unfolding n(1) by auto
  have "dv_cfg (gs_devices demo_stack ! 0) = demo_table ! 0" "\<not> dv_has_data (gs_devices demo_stack ! 0)"
    "\<not> dv_ever_data (gs_devices demo_stack ! 0)" "dv_last_good (gs_devices demo_stack ! 0) = replicate 3 0"
    by (simp_all add: demo_stack_def scanner_init_def placed_def demo_table_def connect_device_def demo_net_def
        new_device_def Let_def upd_device_def)
  moreover have "replicate 3 (0 :: byte) = [0, 0, 0]" by (simp add: numeral_3_eq_3)
  ultimately have "h ! 0 = 0 \<and> get_slice 0 3 t = [0, 0, 0] \<and> dv_to_send (gs_devices s' ! 0) = [1, 2]"
    using dev [rule_format, OF d refl] by (simp add: demo_table_def get_slice_def)
  with ex show ?thesis by blast
qed

lemma demo_device:
  "dv_connected (gs_devices demo_stack ! 0)" "\<not> dv_have_seq (gs_devices demo_stack ! 0)"
  "length (dv_latest (gs_devices demo_stack ! 0)) = 3"
  by (simp_all add: demo_stack_def scanner_init_def placed_def demo_table_def connect_device_def demo_net_def
      new_device_def Let_def upd_device_def)

text \<open>Counts 65535, 65537 and 65536 arrive in this order: on the wire 0xFFFF, 1 and 0.\<close>

theorem scanner_never_steps_back_witness:
  "\<exists>s'. s' = receive_all 0 [(65535, [1, 1, 1]), (65537, [3, 3, 3]), (65536, [2])] demo_stack
    \<and> dv_latest (gs_devices s' ! 0) = [3, 3, 3] \<and> gs_devices s' ! 1 = gs_devices demo_stack ! 1"
proof -
  have "in_window (fst (65535, [1, 1, 1])) [(65537, [3, 3, 3]), (65536, [2])]" by simp
  from scanner_never_steps_back [OF _ demo_device(2) this refl] demo_stack_devices demo_device(3) show ?thesis
    by (simp add: fit_def)
qed


text \<open>
  The table admits assembly instances up to 65535, but the connection path carries one byte of
  each: instances that differ by 256 open the same path.
\<close>

lemma assembly_instance_truncated:
  "cp_connectionPath (make_params nf p (d\<lparr>d_t2o_assembly := 356\<rparr>)) =
   cp_connectionPath (make_params nf p (d\<lparr>d_t2o_assembly := 100\<rparr>))"
  by (simp add: make_params_def)

text \<open>
  An exception of \<open>forwardOpen\<close> during \<open>poll\<close> is caught and the device is retried; the same
  exception during \<open>init\<close> leaves the backend, which ends the process.
\<close>

lemma open_exception_in_init: "net 0 = (now, Open_threw) \<Longrightarrow> now \<ge> 0 \<Longrightarrow> c_devices cfg \<noteq> [] \<Longrightarrow>
  scanner_init net cfg s = None"
  by (cases "c_devices cfg") (simp_all add: scanner_init_def connect_device_def new_device_def Let_def)

end
