(* ===== verification/Scanner_System.thy ===== *)
theory Scanner_System
  imports Scanner_Mirror Eipscanner_Backend
begin

text \<open>
  The core's scanner proxy, the scanner process and the EIPScanner backend together: one cycle
  from the core's output image to the devices and back, and what becomes of the devices when
  the core falls silent.
\<close>

subsection \<open>A reply in time is taken\<close>

lemma scanner_finds_reply:
  assumes "scanner_good a" and "scanner_env_ok e" and "valid_frames e"
    and "unat ol \<le> unat (output_bytes (sx_caps (impl a)))"
    and "unat il \<le> unat (input_bytes (sx_caps (impl a)))" and "out_fits ol out" and "length b = unat il"
    and "count (ev_req e) < 4" and "ev_wakes e = [\<lparr>wk_now = now, wk_sem = [Posted], wk_rings = [r]\<rparr>]"
    and "now - ev_start e < ucast (exchange_timeout_us (sx_caps (impl a)))"
    and "front_ok r" and "fr_seq (ring_slot r 0) = sx_next_seq (impl a)"
  shows "\<exists>p'. plc_adapter_exchange a out ol (Some b) il e =
      (PLC_OK, a\<lparr>impl := p'\<rparr>, Some (reply_image (ring_slot r 0) (unat il)))
    \<and> sx_state p' = reply_state (ev_online e)"
proof -
  let ?a = "\<lparr>vtbl = Some kEipVtbl, impl = as_eip (impl a)\<rparr>" and ?e = "eip_env.truncate e"
  have inv: "sx_inv (impl a)" using assms(1) by (simp add: scanner_good_def)
  have good: "eip_good ?a" using inv by (simp add: eip_good_def sx_inv_def)
  have flags: "fr_flags (ring_slot r 0) AND 1 = 0" using assms(3,9) by (simp add: valid_frames_def)
  have "\<exists>p'. plc_adapter_exchange ?a out ol (Some b) il ?e =
      (PLC_OK, ?a\<lparr>impl := p'\<rparr>, Some (reply_image (ring_slot r 0) (unat il)))
      \<and> px_state p' = PLC_ADAPTER_ONLINE \<and> px_inv p'"
    by (rule exchange_finds_reply [OF good, of ?e ol il out b "\<lparr>wk_now = now, wk_sem = [Posted], wk_rings = [r]\<rparr>"
          "[]" 0 "[]" "[]" r "[]"])
      (use assms flags in \<open>simp_all add: scanner_env_ok_def eip_env.defs\<close>)
  then obtain p1 where p1: "proxy_exchange (as_eip (impl a)) out ol (Some b) il ?e =
      (PLC_OK, p1, Some (reply_image (ring_slot r 0) (unat il)))"
    by (auto simp: eip_wrapper [OF good assms(6)] split: prod.splits)
  from exchange_pair [OF inv assms(2-5), of out "Some b"] p1 obtain q where
    q: "scanner_exchange (impl a) out ol (Some b) il e = (PLC_OK, q, Some (reply_image (ring_slot r 0) (unat il)))"
      "as_eip q = p1\<lparr>px_state := reply_state (ev_online e)\<rparr>" by auto
  then have "sx_state q = reply_state (ev_online e)" by (metis as_eip_fields(3) eip_proxy.select_convs(3) eip_proxy.surjective eip_proxy.update_convs(3))
  with q(1) show ?thesis by (auto simp: scanner_wrapper [OF assms(1,6)])
qed

subsection \<open>One round of the service\<close>

text \<open>The request the core leaves in an empty ring.\<close>

lemma push_first:
  assumes "ring_ok r" and "count r = 0" and "unat ol \<le> 496" and "unat ol \<le> length outs"
  shows "\<exists>r1. plc_spsc_push r seq (Some outs) (ucast (ol :: size_t)) = (PLC_OK, r1) \<and> front_ok r1
    \<and> frame_msg (ring_slot r1 0) = (seq, 0, take (unat ol) outs)"
proof -
  let ?data = "take (unat ol) outs"
  have len: "length ?data = unat ol" "length ?data \<le> 496" using assms(3,4) by simp_all
  have cast: "(ucast ol :: u32) = of_nat (length ?data)"
    unfolding len(1) using assms(3) by (simp add: word_unat_eq_iff unsigned_ucast_eq unat_of_nat)
  have ucl: "unat (ucast ol :: u32) = unat ol" using assms(3) by (simp add: unsigned_ucast_eq take_bit_nat_eq_self)
  from push_on_empty [OF assms(1,2) len(2), of seq 0] obtain r1 where
    r1: "plc_spsc_push_flagged r seq 0 (Some ?data) (of_nat (length ?data)) = (PLC_OK, r1)"
      "front_ok r1" "frame_msg (ring_slot r1 0) = (seq, 0, ?data)" by blast
  have "plc_spsc_push_flagged r seq 0 (Some outs) (ucast ol) = (PLC_OK, r1)"
    using push_prefix [of "ucast ol :: u32" outs r seq 0] r1(1) [folded cast] assms(4) by (simp add: ucl)
  with r1 show ?thesis by (simp add: plc_spsc_push_def)
qed

text \<open>The reply of the EIPScanner backend: one health byte per device, then their slices.\<close>

definition stack_image :: "scanner_stack \<Rightarrow> byte list" where
  "stack_image s = map device_health (gs_devices s) @ concat (map device_slice (gs_devices s))"

definition stack_staged :: "byte list \<Rightarrow> scanner_stack \<Rightarrow> scanner_stack" where
  "stack_staged o2t s = s\<lparr>gs_devices := map (stage_outputs o2t) (gs_devices s)\<rparr>"

lemma stack_devices_length: "stack_inv s \<Longrightarrow> length (c_devices (gs_cfg s)) = length (gs_devices s)"
  unfolding stack_inv_def by (metis length_map)

lemma staged_outputs:
  assumes "stack_inv g" and "length o2t = unat (c_total_o2t_bytes (gs_cfg g))" and "i < length (gs_devices g)"
  shows "dv_to_send (gs_devices (stack_staged o2t g) ! i) = get_slice (unat (d_o2t_offset (dv_cfg (gs_devices g ! i))))
    (unat (d_o2t_bytes (dv_cfg (gs_devices g ! i)))) o2t"
  using staged_slice [OF assms(1), of "gs_devices g ! i" o2t] assms(2,3) by (simp add: stack_staged_def)

lemma scan_one:
  assumes "sc_wf s" and "scan_tick_wf stack_inv gs_cfg t" and "stack_inv (sc_backend s)"
    and "health_agrees (gs_cfg (sc_backend s)) hb" and "tk_sem t = Posted # reports"
    and "front_ok (tk_req t)" and "frame_msg (ring_slot (tk_req t) 0) = (seq, fl, data)"
    and "ring_ok (tk_rsp t)" and "count (tk_rsp t) = 0"
  obtains s' where "scan_step (kEipScanner net) hb ct t s = (True, s')"
    and "front_ok (s_rsp (sc_map s'))" and "sc_posts s' = sc_posts s + 1"
    and "frame_msg (ring_slot (s_rsp (sc_map s')) 0) = (seq, 0, stack_image (tk_net t 0 (sc_backend s)))"
    and "sc_backend s' = tk_net t 4 (tk_net t 3 (tk_net t 2 (tk_net t 1 (stack_staged data (tk_net t 0 (sc_backend s))))))"
proof -
  let ?be = "kEipScanner net" and ?b = "tk_net t 0 (sc_backend s)"
  have b: "stack_inv ?b" "gs_cfg ?b = gs_cfg (sc_backend s)" using assms(2,3) by (simp_all add: scan_tick_wf_def)
  have "frame_wf (sc_frame s)" using assms(1) by (simp add: sc_wf_def)
  from pop_front [OF assms(6) this] obtain f where
    f: "plc_spsc_pop (tk_req t) (sc_frame s) 496 = (PLC_OK, (tk_req t)\<lparr>tail := tail (tk_req t) + 1\<rparr>, f)"
      "frame_wf f" "frame_msg f = (seq, fl, data)" using assms(7) by metis
  let ?s = "s\<lparr>sc_map := (sc_map s)\<lparr>s_req := (tk_req t)\<lparr>tail := tail (tk_req t) + 1\<rparr>\<rparr>, sc_frame := f,
      sc_last_request := tk_now t\<rparr>"
  have step: "scan_step ?be hb ct t s = (True, scan_request ?be hb t ?s)"
    by (simp add: scan_step_def f(1) plc_sem_wait_timeout_def assms(5) clockwait_eintr Let_def)
  have s: "sc_wf ?s" using assms(1) f(2) by (simp add: sc_wf_def)
  have seq: "fr_seq f = seq" using f(3) by (simp add: frame_msg_def)
  define tot where "tot = unat (c_total_t2o_bytes (gs_cfg (sc_backend s)))"
  have hb: "unat hb = length (gs_devices ?b)" "unat hb + tot \<le> 496"
    using assms(4) stack_devices_length [OF b(1)] b(2) by (simp_all add: health_agrees_def tot_def)
  have sum: "length (concat (map device_slice (gs_devices ?b))) = tot"
    using b concat_slices_length [of "gs_devices ?b"] by (simp add: stack_inv_def scanner_wf_def tot_def)
  obtain h im b1 st rsp where sr:
    "sb_exchange_images ?be (take (unat (fr_len f)) (fr_data f)) (replicate (unat hb) 0) (drop (unat hb) (sc_reply s)) ?b =
       (tot, h, im, b1)"
    "plc_spsc_push_flagged (tk_rsp t) seq 0 (Some (h @ take tot im)) (of_nat (unat hb + tot)) = (st, rsp)"
    "s_rsp (sc_map (scan_request ?be hb t ?s)) = (if st = PLC_OK then rsp else plc_spsc_drain rsp)"
    "sc_posts (scan_request ?be hb t ?s) = sc_posts s + (if st = PLC_OK then 1 else 0)"
    "sc_backend (scan_request ?be hb t ?s) = tk_net t 4 (tk_net t 3 (tk_net t 2 (tk_net t 1 b1)))"
    by (rule eipscan.scan_request_reply [OF s assms(2), of hb net])
      (use assms(3,4) seq in \<open>auto simp: tot_def\<close>)
  have "length (sc_reply s) = 496" using assms(1) by (simp add: sc_wf_def)
  with sr(1) exchange_images_eq [OF b(1), of "replicate (unat hb) 0" "drop (unat hb) (sc_reply s)"
      "take (unat (fr_len f)) (fr_data f)"] hb sum
  have img: "h @ take tot im = stack_image ?b" "b1 = stack_staged data ?b"
    using f(3) by (auto simp: kEipScanner_def stack_image_def stack_staged_def frame_msg_def b(2) simp flip: tot_def)
  have len: "length (stack_image ?b) = unat hb + tot" using hb sum by (simp add: stack_image_def)
  with img(1) have push: "plc_spsc_push_flagged (tk_rsp t) seq 0 (Some (stack_image ?b))
      (of_nat (length (stack_image ?b))) = (st, rsp)" using sr(2) by simp
  have "length (stack_image ?b) \<le> 496" using len hb(2) by simp
  from push_on_empty [OF assms(8,9) this, of seq 0] push obtain r1 where
    "st = PLC_OK" "rsp = r1" "front_ok r1" "frame_msg (ring_slot r1 0) = (seq, 0, stack_image ?b)"
    by (metis prod.inject)
  with that [OF step] sr(3-5) img(2) show ?thesis by simp
qed

subsection \<open>A whole cycle\<close>

text \<open>
  C4: One cycle of the scanner, from the core's outputs to the devices and back. Let the core send
  its whole output image while both rings follow the protocol and no older request is queued; let
  the scanner process, with the EIPScanner backend and its stack thread running beside it, take
  exactly the ring the core left and answer into the ring the core drained; and let the core find
  that ring when the doorbell rings within the budget. Then the exchange succeeds, the input image
  is one health byte per device followed by the devices' slices, as the stack had them when the
  request was served, and every device has been given its own slice of the core's outputs to send.
\<close>

theorem scanner_end_to_end:
  assumes "scanner_good a" and "unat ol \<le> unat (output_bytes (sx_caps (impl a)))"
    and "unat il \<le> unat (input_bytes (sx_caps (impl a)))" and "unat ol \<le> length outs" and "length b = unat il"
    and "ring_ok (ev_req e)" and "count (ev_req e) = 0" and "ring_ok (ev_rsp e)"
    and "tk_req t = snd (plc_spsc_push (ev_req e) (sx_next_seq (impl a)) (Some outs) (ucast ol))"
    and "tk_rsp t = plc_spsc_drain (ev_rsp e)" and "tk_sem t = Posted # reports"
    and "\<forall>i g. stack_inv g \<longrightarrow> stack_inv (tk_net t i g) \<and> gs_cfg (tk_net t i g) = gs_cfg g"
    and "sc_wf s" and "stack_inv (sc_backend s)" and "health_agrees (gs_cfg (sc_backend s)) hb"
    and "ol = ucast (c_total_o2t_bytes (gs_cfg (sc_backend s)))"
    and "scan_step (kEipScanner net) hb ct t s = (go, s')"
    and "ev_wakes e = [\<lparr>wk_now = now, wk_sem = [Posted], wk_rings = [s_rsp (sc_map s')]\<rparr>]"
    and "now - ev_start e < ucast (exchange_timeout_us (sx_caps (impl a)))"
    and "g = tk_net t 0 (sc_backend s)"
  shows "(\<exists>p'. plc_adapter_exchange a (Some outs) ol (Some b) il e = (PLC_OK, a\<lparr>impl := p'\<rparr>,
      Some (fit (unat il) (map device_health (gs_devices g) @ concat (map device_slice (gs_devices g)))))
      \<and> sx_state p' = reply_state (ev_online e))
    \<and> (\<exists>g1. sc_backend s' = tk_net t 4 (tk_net t 3 (tk_net t 2 (tk_net t 1 g1)))
      \<and> length (gs_devices g1) = length (gs_devices g)
      \<and> (\<forall>i < length (gs_devices g). \<forall>d. d = dv_cfg (gs_devices g ! i) \<longrightarrow> dv_to_send (gs_devices g1 ! i) =
           get_slice (unat (d_o2t_offset d)) (unat (d_o2t_bytes d)) (take (unat ol) outs)))"
proof -
  define seq data where "seq = sx_next_seq (impl a)" and "data = take (unat ol) outs"
  have ol: "unat ol \<le> 496" using assms(1,2) by (simp add: scanner_good_def sx_inv_def px_inv_def)
  have len: "length data = unat ol" using assms(4) by (simp add: data_def)
  note rsp = drain_empty [OF assms(8)]
  obtain r1 where r1: "tk_req t = r1" "front_ok r1" "frame_msg (ring_slot r1 0) = (seq, 0, data)"
    using push_first [OF assms(6,7) ol assms(4), of seq] assms(9) by (auto simp: seq_def data_def)
  have tw: "scan_tick_wf stack_inv gs_cfg t"
    using r1(2) rsp assms(12) by (simp add: scan_tick_wf_def assms(10) r1(1) front_ok_def ring_ok_def)
  have h: "front_ok (tk_req t)" "frame_msg (ring_slot (tk_req t) 0) = (seq, 0, data)" "ring_ok (tk_rsp t)"
    "count (tk_rsp t) = 0" using r1 rsp unfolding assms(10) by simp_all
  have s': "front_ok (s_rsp (sc_map s'))" "frame_msg (ring_slot (s_rsp (sc_map s')) 0) = (seq, 0, stack_image g)"
    "sc_backend s' = tk_net t 4 (tk_net t 3 (tk_net t 2 (tk_net t 1 (stack_staged data g))))"
    by (rule scan_one [OF assms(13) tw assms(14,15,11) h, of net ct], simp add: assms(17,20))+
  have env: "scanner_env_ok e" "valid_frames e"
    using assms(6,8) s'(1,2) by (simp_all add: scanner_env_ok_def eip_env_ok_def valid_frames_def eip_env.defs
        assms(18) wake_ok_def ring_ok_def front_ok_def frame_msg_def)
  have img: "reply_image (ring_slot (s_rsp (sc_map s')) 0) n = fit n (stack_image g)" for n
    using s'(2) unfolding frame_msg_def reply_image_def by simp
  have "\<exists>p'. plc_adapter_exchange a (Some outs) ol (Some b) il e =
      (PLC_OK, a\<lparr>impl := p'\<rparr>, Some (reply_image (ring_slot (s_rsp (sc_map s')) 0) (unat il)))
      \<and> sx_state p' = reply_state (ev_online e)"
    by (rule scanner_finds_reply [OF assms(1) env assms(2,3) _ assms(5) _ assms(18,19) s'(1)])
      (use assms(4,7) s'(2) in \<open>simp_all add: out_fits_def frame_msg_def seq_def\<close>)
  moreover have "\<forall>i < length (gs_devices g). \<forall>d. d = dv_cfg (gs_devices g ! i) \<longrightarrow>
      dv_to_send (gs_devices (stack_staged data g) ! i) = get_slice (unat (d_o2t_offset d)) (unat (d_o2t_bytes d)) (take (unat ol) outs)"
    using staged_outputs [of g data] assms(12,14,16,20) len by (simp add: data_def)
  ultimately show ?thesis
    unfolding img stack_image_def using s'(3) by (force simp: stack_staged_def)
qed

text \<open>The two drives of the example table, the first connected but yet without data.\<close>

definition system_proxy :: "(scanner_proxy, scanner_env) plc_protocol_adapter" where
  "system_proxy = \<lparr>vtbl = Some kScannerVtbl,
     impl = demo_scanner\<lparr>sx_caps := (sx_caps demo_scanner)\<lparr>input_bytes := 7, output_bytes := 3\<rparr>\<rparr>\<rparr>"

definition system_service :: "scanner_stack scan_service" where
  "system_service = \<lparr>sc_map = eip_scanner_shm_zero, sc_frame = frame_zero, sc_reply = replicate 496 9,
     sc_last_request = 0, sc_posts = 0, sc_backend = demo_stack\<rparr>"

definition system_tick :: "scanner_stack tick" where
  "system_tick = \<lparr>tk_stop = False, tk_sem = [Posted], tk_now = 2500,
     tk_req = snd (plc_spsc_push ring_zero 0 (Some [1, 2, 3]) (ucast (3 :: size_t))),
     tk_rsp = plc_spsc_drain ring_zero, tk_net = (\<lambda>_ b. b)\<rparr>"

definition system_env :: scanner_env where
  "system_env = eip_env.extend ((silent_env 4000)\<lparr>ev_wakes := [\<lparr>wk_now = 3000, wk_sem = [Posted],
     wk_rings = [s_rsp (sc_map (snd (scan_step (kEipScanner demo_net) 2 2000000 system_tick system_service)))]\<rparr>]\<rparr>)
     (scanner_env.fields (\<lambda>_. Fopen_fails True []) 0)"

lemma system_facts:
  "scanner_good system_proxy" "sx_next_seq (impl system_proxy) = 0"
  "output_bytes (sx_caps (impl system_proxy)) = 3" "input_bytes (sx_caps (impl system_proxy)) = 7"
  "exchange_timeout_us (sx_caps (impl system_proxy)) = 5000"
  "sc_wf system_service" "sc_backend system_service = demo_stack"
  by (simp_all add: system_proxy_def scanner_good_def demo_scanner_def scanner_create_def sx_inv_def px_inv_def
      frame_wf_def frame_zero_def system_service_def sc_wf_def)

lemma system_env_facts:
  "ev_req system_env = ring_zero" "ev_rsp system_env = ring_zero" "ev_start system_env = 2000"
  "ev_online system_env = 0"
  "ev_wakes system_env = [\<lparr>wk_now = 3000, wk_sem = [Posted],
     wk_rings = [s_rsp (sc_map (snd (scan_step (kEipScanner demo_net) 2 2000000 system_tick system_service)))]\<rparr>]"
  by (simp_all add: system_env_def silent_env_def eip_env.defs scanner_env.defs)

lemma system_tick_facts:
  "tk_req system_tick = snd (plc_spsc_push ring_zero 0 (Some [1, 2, 3]) (ucast (3 :: size_t)))"
  "tk_rsp system_tick = plc_spsc_drain ring_zero" "tk_sem system_tick = [Posted]" "tk_net system_tick = (\<lambda>_ b. b)"
  by (simp_all add: system_tick_def)

lemma system_stack:
  "c_total_o2t_bytes (gs_cfg demo_stack) = 3" "health_agrees (gs_cfg demo_stack) 2"
  "fit 7 (map device_health (gs_devices demo_stack) @ concat (map device_slice (gs_devices demo_stack))) =
     [0, 0, 0, 0, 0, 0, 0]"
proof -
  show "c_total_o2t_bytes (gs_cfg demo_stack) = 3" "health_agrees (gs_cfg demo_stack) 2"
    by (simp_all add: demo_stack_inv(2) placed_def demo_table_def health_agrees_def)
  show "fit 7 (map device_health (gs_devices demo_stack) @ concat (map device_slice (gs_devices demo_stack))) =
     [0, 0, 0, 0, 0, 0, 0]"
    by (simp add: demo_stack_def scanner_init_def placed_def demo_table_def connect_device_def demo_net_def
        new_device_def Let_def upd_device_def device_health_def device_slice_def fit_def)
      (simp add: numeral_eq_Suc)
qed

theorem scanner_end_to_end_witness:
  "\<exists>p'. plc_adapter_exchange system_proxy (Some [1, 2, 3]) 3 (Some [9, 9, 9, 9, 9, 9, 9]) 7 system_env =
     (PLC_OK, system_proxy\<lparr>impl := p'\<rparr>, Some [0, 0, 0, 0, 0, 0, 0])"
proof -
  obtain go s' where step: "scan_step (kEipScanner demo_net) 2 2000000 system_tick system_service = (go, s')" by force
  have "\<exists>p'. plc_adapter_exchange system_proxy (Some [1, 2, 3]) 3 (Some [9, 9, 9, 9, 9, 9, 9]) 7 system_env =
      (PLC_OK, system_proxy\<lparr>impl := p'\<rparr>, Some (fit (unat (7 :: size_t)) (map device_health (gs_devices demo_stack)
        @ concat (map device_slice (gs_devices demo_stack))))) \<and> sx_state p' = reply_state (ev_online system_env)"
    by (rule conjunct1 [OF scanner_end_to_end [OF system_facts(1), where t = system_tick and s = system_service
          and hb = 2 and net = demo_net and ct = 2000000 and s' = s' and go = go and now = 3000 and reports = "[]"]])
      (use step ring_zero_ok demo_stack_inv(1) system_stack in
        \<open>simp_all add: system_facts system_env_facts system_tick_facts\<close>)
  then show ?thesis using system_stack(3) by auto
qed

subsection \<open>A silent core\<close>

text \<open>Every device is connected, each over a connection of its own.\<close>

definition all_connected :: "scanner_stack \<Rightarrow> bool" where
  "all_connected g \<longleftrightarrow> gs_cm g \<and> list_all (\<lambda>d. dv_connected d \<and> dv_io d \<noteq> None) (gs_devices g)
     \<and> distinct (map dv_io (gs_devices g))"

text \<open>A poll in which no connection is lost and nothing arrives.\<close>

definition calm :: "scanner_stack \<Rightarrow> poll_env \<Rightarrow> bool" where
  "calm g e \<longleftrightarrow> pe_events e = [] \<and> list_all (\<lambda>d. pe_alive e (the (dv_io d))) (gs_devices g)"

lemma push_calm:
  assumes "all_connected g" and "calm g e" and "n \<le> length (gs_devices g)"
  shows "\<exists>f. fold (push_outputs (pe_alive e)) [0..<n] g = g\<lparr>gs_sending := f\<rparr>
    \<and> (\<forall>i < n. f (the (dv_io (gs_devices g ! i))) = dv_to_send (gs_devices g ! i))"
  using assms(3)
proof (induction n)
  case 0
  show ?case by (intro exI [of _ "gs_sending g"]) simp
next
  case (Suc n)
  then obtain f where f: "fold (push_outputs (pe_alive e)) [0..<n] g = g\<lparr>gs_sending := f\<rparr>"
    "\<forall>i < n. f (the (dv_io (gs_devices g ! i))) = dv_to_send (gs_devices g ! i)" by auto
  let ?d = "gs_devices g ! n"
  have d: "dv_connected ?d" "dv_io ?d \<noteq> None" "pe_alive e (the (dv_io ?d))"
    using assms(1,2) Suc.prems by (auto simp: all_connected_def calm_def list_all_length)
  have other: "the (dv_io (gs_devices g ! i)) \<noteq> the (dv_io ?d)" if "i < n" for i
  proof -
    have "map dv_io (gs_devices g) ! i \<noteq> map dv_io (gs_devices g) ! n"
      using assms(1) that Suc.prems by (auto simp: all_connected_def nth_eq_iff_index_eq simp del: nth_map)
    moreover have "dv_io (gs_devices g ! i) \<noteq> None"
      using assms(1) that Suc.prems by (auto simp: all_connected_def list_all_length)
    ultimately show ?thesis using d(2) that Suc.prems by auto
  qed
  define h where "h = f(the (dv_io ?d) := dv_to_send ?d)"
  have "push_outputs (pe_alive e) n (g\<lparr>gs_sending := f\<rparr>) = g\<lparr>gs_sending := h\<rparr>"
    using d by (auto simp: push_outputs_def Let_def h_def)
  then have "fold (push_outputs (pe_alive e)) [0..<Suc n] g = g\<lparr>gs_sending := h\<rparr>" using f(1) by simp
  moreover have "\<forall>i < Suc n. h (the (dv_io (gs_devices g ! i))) = dv_to_send (gs_devices g ! i)"
    using f(2) other by (auto simp: h_def less_Suc_eq)
  ultimately show ?case by blast
qed

lemma calm_poll:
  assumes "all_connected g" and "calm g e"
  shows "\<exists>f. scanner_poll e g = g\<lparr>gs_sending := f\<rparr>
    \<and> (\<forall>i < length (gs_devices g). f (the (dv_io (gs_devices g ! i))) = dv_to_send (gs_devices g ! i))"
proof -
  obtain f where f: "fold (push_outputs (pe_alive e)) [0..<length (gs_devices g)] g = g\<lparr>gs_sending := f\<rparr>"
    "\<forall>i < length (gs_devices g). f (the (dv_io (gs_devices g ! i))) = dv_to_send (gs_devices g ! i)"
    using push_calm [OF assms order_refl] by blast
  have "reconnect net i (g\<lparr>gs_sending := f\<rparr>) = g\<lparr>gs_sending := f\<rparr>" if "i < length (gs_devices g)" for net i
    using assms(1) that by (auto simp: reconnect_def all_connected_def list_all_length)
  then have "fold (reconnect net) [0..<n] (g\<lparr>gs_sending := f\<rparr>) = g\<lparr>gs_sending := f\<rparr>"
    if "n \<le> length (gs_devices g)" for net n using that by (induction n) simp_all
  with f assms show ?thesis by (auto simp: scanner_poll_def Let_def all_connected_def calm_def)
qed

lemma calm_polls:
  assumes "all_connected g" and "list_all (calm g) es" and "es \<noteq> []"
  shows "\<exists>f. fold scanner_poll es g = g\<lparr>gs_sending := f\<rparr>
    \<and> (\<forall>i < length (gs_devices g). f (the (dv_io (gs_devices g ! i))) = dv_to_send (gs_devices g ! i))"
  using assms
proof (induction es arbitrary: g)
  case (Cons e es)
  from calm_poll [of g e] Cons.prems obtain f where f: "scanner_poll e g = g\<lparr>gs_sending := f\<rparr>"
    "\<forall>i < length (gs_devices g). f (the (dv_io (gs_devices g ! i))) = dv_to_send (gs_devices g ! i)" by auto
  show ?case
  proof (cases "es = []")
    case True
    with f show ?thesis by auto
  next
    case False
    have "all_connected (g\<lparr>gs_sending := f\<rparr>)" "list_all (calm (g\<lparr>gs_sending := f\<rparr>)) es"
      using Cons.prems(1,2) by (simp_all add: all_connected_def list_all_iff calm_def)
    from Cons.IH [OF this False] f(1) show ?thesis by auto
  qed
qed simp


definition silent_scanner_world :: "scanner_stack scanner_world" where
  "silent_scanner_world = \<lparr>sw_getenv = \<lambda>_. None, sw_fs = \<lambda>_. Fopen_fails True [], sw_alloc = True, sw_args = [],
     sw_attempts = [], sw_sem_faults = (no_faults, no_faults), sw_thread = True, sw_reply = replicate 496 0,
     sw_start = 1000, sw_ticks = [system_tick\<lparr>tk_sem := [], tk_now := 501000\<rparr>,
       system_tick\<lparr>tk_sem := [Eintr], tk_now := 2001000\<rparr>], sw_signal = False, sw_join = (\<lambda>g. g)\<rparr>"

text \<open>Both drives connected; the core had last sent 1, 2 to the first and 3 to the second.\<close>

definition driven_stack :: scanner_stack where
  "driven_stack = stack_staged [1, 2, 3]
     (snd (the (scanner_init (\<lambda>i. (1000, Opened i)) (placed demo_table) idle_stack)))"

lemma driven_stack_facts:
  "all_connected driven_stack"
  "calm driven_stack \<lparr>pe_alive = (\<lambda>_. True), pe_open = True, pe_events = [], pe_connects = demo_net\<rparr>"
  "gs_devices driven_stack \<noteq> []"
  "dv_io (hd (gs_devices driven_stack)) = Some 0" "dv_to_send (hd (gs_devices driven_stack)) = [1, 2]"
  by (simp_all add: driven_stack_def stack_staged_def stage_outputs_def scanner_init_def placed_def demo_table_def
      connect_device_def new_device_def Let_def upd_device_def all_connected_def calm_def get_slice_def put_slice_def)


end
