(* ===== verification/Demo_Program.thy ===== *)
theory Demo_Program
  imports Std_FB Plc_Runtime
begin

text \<open>
  \<open>examples/demo_program.c\<close>: the conveyor interlock that the application installs as its
  program. It is a POU of the runtime: it reads three input bits, runs six function blocks on
  the state its \<open>user\<close> pointer names, and writes two output bits and a count. The memory the
  program reaches is a map from addresses to \<open>demo_state\<close>; an address outside it is NULL.
\<close>


subsection \<open>The program\<close>

record demo_state =
  start_delay :: plc_ton
  start_edge :: plc_r_trig
  lamp_pulse :: plc_tp
  part_edge :: plc_r_trig
  part_counter :: plc_ctu
  running :: plc_rs

type_synonym demo_mem = "nat \<Rightarrow> demo_state option"

definition PLC_TIME_MS :: "plc_time \<Rightarrow> plc_time" where
  "PLC_TIME_MS v = v * 1000000"

definition demo_blocks :: "bool \<Rightarrow> bool \<Rightarrow> bool \<Rightarrow> plc_time \<Rightarrow> demo_state \<Rightarrow> demo_state" where
  "demo_blocks start stop_pressed part_sense dt st =
     (let st = st\<lparr>start_delay := plc_ton_run
            ((start_delay st)\<lparr>ton_IN := start, ton_PT := PLC_TIME_MS 500\<rparr>) dt\<rparr>;
          st = st\<lparr>start_edge := plc_r_trig_run
            ((start_edge st)\<lparr>rt_CLK := ton_Q (start_delay st)\<rparr>)\<rparr>;
          st = st\<lparr>running := plc_rs_run
            ((running st)\<lparr>rs_S := rt_Q (start_edge st), rs_R1 := stop_pressed\<rparr>)\<rparr>;
          st = st\<lparr>part_edge := plc_r_trig_run ((part_edge st)\<lparr>rt_CLK := part_sense\<rparr>)\<rparr>;
          st = st\<lparr>lamp_pulse := plc_tp_run
            ((lamp_pulse st)\<lparr>tp_IN := rt_Q (part_edge st), tp_PT := PLC_TIME_MS 200\<rparr>) dt\<rparr>
      in st\<lparr>part_counter := plc_ctu_run
            ((part_counter st)\<lparr>ctu_CU := rt_Q (part_edge st), ctu_R := stop_pressed,
              ctu_PV := 1000\<rparr>)\<rparr>)"

definition demo_program :: "demo_mem plc_pou_fn" where
  "demo_program ctx = (\<lambda>(pi, mem).
     case mem (ctx_user ctx) of
       None \<Rightarrow> (pi, mem)
     | Some st \<Rightarrow>
         let start = plc_pi_get_bit pi PLC_AREA_I 0 0;
             stop_nc = plc_pi_get_bit pi PLC_AREA_I 0 1;
             part_sense = plc_pi_get_bit pi PLC_AREA_I 0 2;
             stop_pressed = (\<not> stop_nc);
             st = demo_blocks start stop_pressed part_sense (ctx_dt ctx) st;
             pi = plc_pi_set_bit pi PLC_AREA_Q 0 0 (rs_Q1 (running st));
             pi = plc_pi_set_bit pi PLC_AREA_Q 0 1 (tp_Q (lamp_pulse st));
             pi = plc_pi_set_word pi PLC_AREA_Q 2 (ctu_CV (part_counter st))
         in (pi, mem(ctx_user ctx \<mapsto> st)))"

text \<open>A zero-initialised state, and the memory after a run of scans, each on its own image.\<close>

definition demo_zero :: demo_state where
  "demo_zero = \<lparr>
     start_delay = \<lparr>ton_IN = False, ton_Q = False, ton_PT = 0, ton_ET = 0\<rparr>,
     start_edge = \<lparr>rt_CLK = False, rt_Q = False, rt_m_prev = False\<rparr>,
     lamp_pulse = \<lparr>tp_IN = False, tp_Q = False, tp_PT = 0, tp_ET = 0, tp_m_prev = False\<rparr>,
     part_edge = \<lparr>rt_CLK = False, rt_Q = False, rt_m_prev = False\<rparr>,
     part_counter = \<lparr>ctu_CU = False, ctu_R = False, ctu_Q = False, ctu_PV = 0, ctu_CV = 0,
       ctu_m_prev = False\<rparr>,
     running = \<lparr>rs_S = False, rs_R1 = False, rs_Q1 = False\<rparr>\<rparr>"

type_synonym demo_scan = "plc_pou_ctx \<times> plc_process_image"

definition demo_run :: "demo_mem \<Rightarrow> demo_scan list \<Rightarrow> demo_mem" where
  "demo_run = foldl (\<lambda>mem (ctx, pi). snd (demo_program ctx (pi, mem)))"

text \<open>What the operator and the plant do in a scan.\<close>

definition START :: "demo_scan \<Rightarrow> bool \<times> plc_time" where
  "START x = (plc_pi_get_bit (snd x) PLC_AREA_I 0 0, ctx_dt (fst x))"

definition STOP :: "demo_scan \<Rightarrow> bool" where
  "STOP x \<longleftrightarrow> \<not> plc_pi_get_bit (snd x) PLC_AREA_I 0 1"

definition PART :: "demo_scan \<Rightarrow> bool \<times> bool" where
  "PART x = (plc_pi_get_bit (snd x) PLC_AREA_I 0 2, STOP x)"

text \<open>
  START has just been held for 500 ms at the end of the run: it had not been one scan before.
\<close>

definition start_done :: "demo_scan list \<Rightarrow> bool" where
  "start_done xs \<longleftrightarrow> on_time (map START xs) \<ge> 500000000"

definition motor_commanded :: "demo_scan list \<Rightarrow> bool" where
  "motor_commanded xs \<longleftrightarrow> (\<exists>ys x zs. xs = ys @ x # zs \<and> start_done (ys @ [x]) \<and> \<not> start_done ys
     \<and> list_all (\<lambda>y. \<not> STOP y) (x # zs))"


subsection \<open>The blocks over a run\<close>

lemma time_consts [simp]:
  "sint (PLC_TIME_MS 500) = 500000000" "sint (PLC_TIME_MS 200) = 200000000"
  by (simp_all add: PLC_TIME_MS_def)

lemma motor_commanded_snoc:
  "motor_commanded (xs @ [x]) \<longleftrightarrow>
     \<not> STOP x \<and> (start_done (xs @ [x]) \<and> \<not> start_done xs \<or> motor_commanded xs)"
proof
  assume "motor_commanded (xs @ [x])"
  then obtain ys y zs where *: "xs @ [x] = ys @ y # zs" "start_done (ys @ [y])" "\<not> start_done ys"
      "list_all (\<lambda>y. \<not> STOP y) (y # zs)" unfolding motor_commanded_def by blast
  show "\<not> STOP x \<and> (start_done (xs @ [x]) \<and> \<not> start_done xs \<or> motor_commanded xs)"
  proof (cases zs rule: rev_cases)
    case Nil
    with * show ?thesis by auto
  next
    case (snoc zs' z)
    with * have "xs = ys @ y # zs'" "\<not> STOP x" "list_all (\<lambda>y. \<not> STOP y) (y # zs')" by auto
    with * show ?thesis unfolding motor_commanded_def by blast
  qed
next
  assume a: "\<not> STOP x \<and> (start_done (xs @ [x]) \<and> \<not> start_done xs \<or> motor_commanded xs)"
  then consider "start_done (xs @ [x])" "\<not> start_done xs" | "motor_commanded xs" by blast
  then show "motor_commanded (xs @ [x])"
  proof cases
    case 1
    with a show ?thesis unfolding motor_commanded_def
      by (intro exI [of _ xs] exI [of _ x] exI [of _ "[]"]) simp
  next
    case 2
    then obtain ys y zs where "xs = ys @ y # zs" "start_done (ys @ [y])"
      "\<not> start_done ys" "list_all (\<lambda>y. \<not> STOP y) (y # zs)"
      unfolding motor_commanded_def by auto
    with a show ?thesis unfolding motor_commanded_def
      by (intro exI [of _ ys] exI [of _ y] exI [of _ "zs @ [x]"]) simp
  qed
qed

text \<open>The state of the six blocks as a function of the run.\<close>

definition demo_inv :: "demo_scan list \<Rightarrow> demo_state \<Rightarrow> bool" where
  "demo_inv xs st \<longleftrightarrow>
     sint (ton_ET (start_delay st)) = min 500000000 (on_time (map START xs))
     \<and> rt_m_prev (start_edge st) = start_done xs
     \<and> rs_Q1 (running st) = motor_commanded xs
     \<and> rt_m_prev (part_edge st) = (xs \<noteq> [] \<and> fst (PART (last xs)))
     \<and> (ctu_m_prev (part_counter st) \<longrightarrow> rt_m_prev (part_edge st))
     \<and> sint (ctu_CV (part_counter st)) =
         min 32767 (int (edges_since_reset False (map PART xs)))"

definition demo_step :: "demo_scan \<Rightarrow> demo_state \<Rightarrow> demo_state" where
  "demo_step x st = demo_blocks (fst (START x)) (STOP x) (fst (PART x)) (snd (START x)) st"

text \<open>The program sets the inputs of a block together with its preset.\<close>

lemma PT_IN: "fb\<lparr>ton_IN := i, ton_PT := t\<rparr> = fb\<lparr>ton_PT := t, ton_IN := i\<rparr>"
  by (cases fb) simp

lemma PV_CU: "fb\<lparr>ctu_CU := c, ctu_R := r, ctu_PV := v\<rparr> = fb\<lparr>ctu_PV := v, ctu_CU := c, ctu_R := r\<rparr>"
  by (cases fb) simp

lemma demo_step_fields:
  "start_delay (demo_step x st) = ton_scan ((start_delay st)\<lparr>ton_PT := PLC_TIME_MS 500\<rparr>) (START x)"
  "start_edge (demo_step x st) = r_trig_scan (start_edge st) (ton_Q (start_delay (demo_step x st)))"
  "running (demo_step x st) = rs_scan (running st) (rt_Q (start_edge (demo_step x st)), STOP x)"
  "part_edge (demo_step x st) = r_trig_scan (part_edge st) (fst (PART x))"
  "part_counter (demo_step x st) =
     ctu_scan ((part_counter st)\<lparr>ctu_PV := 1000\<rparr>) (rt_Q (part_edge (demo_step x st)), STOP x)"
  by (simp_all add: demo_step_def demo_blocks_def Let_def ton_scan_def r_trig_scan_def rs_scan_def
      ctu_scan_def PT_IN PV_CU)

lemma edges_fst: "fst (foldl ctu_spec (False, 0) (map PART xs)) = (xs \<noteq> [] \<and> fst (PART (last xs)))"
  by (cases xs rule: rev_cases) (auto simp: ctu_spec_def split: prod.split)

lemma edges_snoc:
  "edges_since_reset False (map PART (xs @ [x])) =
     (if STOP x then 0
      else if fst (PART x) \<and> \<not> (xs \<noteq> [] \<and> fst (PART (last xs)))
      then Suc (edges_since_reset False (map PART xs)) else edges_since_reset False (map PART xs))"
proof -
  obtain p n where pn: "foldl ctu_spec (False, 0) (map PART xs) = (p, n)" by fastforce
  with edges_fst [of xs] show ?thesis
    by (simp add: edges_since_reset_def ctu_spec_def [symmetric])
      (auto simp: ctu_spec_def PART_def)
qed

text \<open>One scan keeps the account of the run, whatever the blocks held besides.\<close>

lemma demo_inv_start:
  assumes "demo_inv xs st" and "sint (snd (START x)) < 2 ^ 63 - 500000000"
  shows "sint (ton_ET (start_delay (demo_step x st))) = min 500000000 (on_time (map START (xs @ [x])))"
    and "ton_Q (start_delay (demo_step x st)) = start_done (xs @ [x])"
proof -
  let ?fb = "(start_delay st)\<lparr>ton_PT := PLC_TIME_MS 500\<rparr>"
  have et: "sint (ton_ET (ton_scan ?fb (START x))) = min 500000000 (on_time (map START (xs @ [x])))"
    using assms on_time_nonneg [of "map START xs"]
    by (auto simp: ton_scan_fields(2) demo_inv_def sint_accumulate dt_pos_def)
  then show "sint (ton_ET (start_delay (demo_step x st))) = min 500000000 (on_time (map START (xs @ [x])))"
    by (simp add: demo_step_fields)
  from et show "ton_Q (start_delay (demo_step x st)) = start_done (xs @ [x])"
    by (auto simp: demo_step_fields ton_scan_fields(3) start_done_def)
qed

lemma r_trig_scan_fields:
  "rt_Q (r_trig_scan fb b) = (b \<and> \<not> rt_m_prev fb)" "rt_m_prev (r_trig_scan fb b) = b"
  by (simp_all add: r_trig_scan_def plc_r_trig_run_def Let_def)

lemma demo_inv_step:
  assumes inv: "demo_inv xs st" and "sint (snd (START x)) < 2 ^ 63 - 500000000"
  shows "demo_inv (xs @ [x]) (demo_step x st)"
proof -
  note start = demo_inv_start [OF assms]
  have "rs_Q1 (running (demo_step x st)) = motor_commanded (xs @ [x])"
    using inv start(2)
    by (simp add: demo_step_fields(2,3) rs_scan_Q r_trig_scan_fields motor_commanded_snoc demo_inv_def)
  moreover have "sint (ctu_CV (part_counter (demo_step x st))) =
      min 32767 (int (edges_since_reset False (map PART (xs @ [x]))))"
    using inv unfolding edges_snoc
    by (auto simp: demo_step_fields(4,5) ctu_scan_fields r_trig_scan_fields demo_inv_def sint_succ16)
  moreover have "rt_m_prev (start_edge (demo_step x st)) = start_done (xs @ [x])"
    using start(2) by (simp add: demo_step_fields(2) r_trig_scan_fields)
  ultimately show ?thesis
    using start(1)
    by (simp add: demo_inv_def demo_step_fields(4,5) r_trig_scan_fields ctu_scan_fields)
qed

lemma demo_program_step:
  assumes "mem (ctx_user (fst x)) = Some st"
  shows "snd (demo_program (fst x) (snd x, mem)) = mem(ctx_user (fst x) \<mapsto> demo_step x st)"
  using assms by (simp add: demo_program_def demo_step_def START_def STOP_def PART_def Let_def)

text \<open>The scan times can be added to the preset without overflowing \<open>PLC_TIME\<close>.\<close>

definition scans_ok :: "nat \<Rightarrow> demo_scan list \<Rightarrow> bool" where
  "scans_ok u xs \<longleftrightarrow>
     list_all (\<lambda>x. ctx_user (fst x) = u \<and> sint (ctx_dt (fst x)) < 2 ^ 63 - 500000000) xs"

lemma demo_inv_run:
  assumes "mem u = Some demo_zero" and "scans_ok u xs"
  shows "\<exists>st. demo_run mem xs u = Some st \<and> demo_inv xs st"
  using assms(2)
proof (induction xs rule: rev_induct)
  case Nil
  show ?case
    using assms(1) by (simp add: demo_run_def demo_inv_def demo_zero_def start_done_def
        motor_commanded_def edges_since_reset_def)
next
  case (snoc x xs)
  then obtain st where st: "demo_run mem xs u = Some st" "demo_inv xs st"
    by (auto simp: scans_ok_def)
  from snoc.prems have x: "ctx_user (fst x) = u" "sint (snd (START x)) < 2 ^ 63 - 500000000"
    by (simp_all add: scans_ok_def START_def)
  have "demo_run mem (xs @ [x]) = snd (demo_program (fst x) (snd x, demo_run mem xs))"
    by (simp add: demo_run_def split: prod.split)
  with st x demo_inv_step [OF st(2) x(2)] show ?case
    by (simp add: demo_program_step [where st = st])
qed


subsection \<open>The outputs\<close>

lemma set_bit_simps [simp]:
  "pi_size (plc_pi_set_bit pi a byt b v) = pi_size pi"
  "slot (plc_pi_set_bit pi a byt b v) c off len = slot pi c off len"
  by (auto simp: plc_pi_set_bit_def slot_SomeD(1) split: option.split)

lemma set_bit_wf: "pi_wf pi \<Longrightarrow> pi_wf (plc_pi_set_bit pi a byt b v)"
  by (auto simp: plc_pi_set_bit_def poke_wf split: option.split)

lemma get_bit_bit:
  assumes "pi_wf pi" and "in_range a" and "unat byt < unat (pi_size pi a)" and "b \<le> 7"
  shows "plc_pi_get_bit pi a byt b = bit (base pi a ! unat byt) (unat b)"
proof -
  have "slot pi a byt 1 = Some (unat byt)" using assms by (simp add: slot_eq pi_wf_area_ok Suc_le_eq)
  then show ?thesis using assms(4)
    by (auto simp: plc_pi_get_bit_def not_less [symmetric] bit_iff_odd_drop_bit and_one_eq odd_iff_mod_2_eq_one)
qed

lemma set_word_wf: "pi_wf pi \<Longrightarrow> pi_wf (plc_pi_set_word pi a off v)"
  by (auto simp: plc_pi_set_word_def poke_wf split: option.split)

lemma set_word_size [simp]: "pi_size (plc_pi_set_word pi a off v) = pi_size pi"
  by (auto simp: plc_pi_set_word_def slot_SomeD(1) split: option.split)

lemma set_word_byte_below:
  assumes "pi_wf pi" and "in_range c" and "i < length (base pi c)" and "i < unat off"
  shows "base (plc_pi_set_word pi a off v) c ! i = base pi c ! i"
proof (cases "slot pi a off 2")
  case (Some p)
  with assms slot_SomeD [OF Some] show ?thesis
    by (simp add: plc_pi_set_word_def nth_poke)
qed (simp add: plc_pi_set_word_def)

text \<open>What a reader of the output image finds after the three stores of the program.\<close>

lemma demo_outputs:
  fixes m l :: bool and w :: u16
  assumes wf: "pi_wf pi" and q: "4 \<le> unat (pi_size pi PLC_AREA_Q)"
  defines "pi' \<equiv> plc_pi_set_word (plc_pi_set_bit (plc_pi_set_bit pi PLC_AREA_Q 0 0 m)
      PLC_AREA_Q 0 1 l) PLC_AREA_Q 2 w"
  shows "plc_pi_get_bit pi' PLC_AREA_Q 0 0 = m" and "plc_pi_get_bit pi' PLC_AREA_Q 0 1 = l"
    and "plc_pi_get_word pi' PLC_AREA_Q 2 = w"
proof -
  let ?p1 = "plc_pi_set_bit pi PLC_AREA_Q 0 0 m"
  let ?p2 = "plc_pi_set_bit ?p1 PLC_AREA_Q 0 1 l"
  have wf': "pi_wf ?p1" "pi_wf ?p2" "pi_wf pi'" using wf
    by (simp_all add: pi'_def set_bit_wf set_word_wf)
  have r: "in_range PLC_AREA_Q" by (simp add: in_range_cases)
  have len: "0 < length (base pi PLC_AREA_Q)" "0 < length (base ?p1 PLC_AREA_Q)"
    "0 < length (base ?p2 PLC_AREA_Q)"
    using wf wf' r q by (simp_all add: pi_wf_length_base)
  have byte: "base pi' PLC_AREA_Q ! 0 = base ?p2 PLC_AREA_Q ! 0"
    using wf' r len unfolding pi'_def by (intro set_word_byte_below) simp_all
  have bits: "bit (base ?p2 PLC_AREA_Q ! 0) 0 = m" "bit (base ?p2 PLC_AREA_Q ! 0) 1 = l"
    using set_bit_exact [OF wf' (1) r len(2), of 0 PLC_AREA_Q 0 1 l]
      set_bit_exact [OF wf' (1) r len(2), of 1 PLC_AREA_Q 0 1 l]
      set_bit_exact [OF wf r len(1), of 0 PLC_AREA_Q 0 0 m] q by simp_all
  have size: "0 < unat (pi_size pi' PLC_AREA_Q)" using q by (simp add: pi'_def)
  show "plc_pi_get_bit pi' PLC_AREA_Q 0 0 = m" "plc_pi_get_bit pi' PLC_AREA_Q 0 1 = l"
    using bits byte size r wf' by (simp_all add: get_bit_bit)
  have "slot pi PLC_AREA_Q 2 2 \<noteq> None" using wf r q by (simp add: slot_eq pi_wf_area_ok)
  then have "slot ?p2 PLC_AREA_Q 2 2 \<noteq> None" by simp
  then show "plc_pi_get_word pi' PLC_AREA_Q 2 = w"
    unfolding pi'_def using wf'(2) by (intro word_cell.get_set) simp_all
qed


subsection \<open>Properties\<close>

text \<open>
  C12: The interlock is exact at the outputs. Started from a zeroed state, after any run of scans
  the motor bit of the output image is on just when START came to have been held for 500 ms at
  some scan and STOP was not pressed in that scan or any later one (a broken STOP wire counts as
  pressed), and the count word holds the number of rising edges of the part sensor since the last
  scan with STOP pressed, stopping at the largest \<open>PLC_INT\<close>.
\<close>

theorem demo_interlock_exact:
  assumes "mem u = Some demo_zero" and "scans_ok u (xs @ [x])"
    and "pi_wf (snd x)" and "4 \<le> unat (pi_size (snd x) PLC_AREA_Q)"
  defines "pi \<equiv> fst (demo_program (fst x) (snd x, demo_run mem xs))"
  shows "plc_pi_get_bit pi PLC_AREA_Q 0 0 = motor_commanded (xs @ [x])
    \<and> sint (plc_pi_get_word pi PLC_AREA_Q 2) =
        min 32767 (int (edges_since_reset False (map PART (xs @ [x]))))"
proof -
  from assms(2) have ok: "scans_ok u xs" and x: "ctx_user (fst x) = u"
    "sint (snd (START x)) < 2 ^ 63 - 500000000" by (simp_all add: scans_ok_def START_def)
  obtain st where st: "demo_run mem xs u = Some st" "demo_inv xs st"
    using demo_inv_run [of mem u, OF assms(1) ok] by blast
  have "pi = plc_pi_set_word (plc_pi_set_bit (plc_pi_set_bit (snd x) PLC_AREA_Q 0 0
      (rs_Q1 (running (demo_step x st)))) PLC_AREA_Q 0 1 (tp_Q (lamp_pulse (demo_step x st))))
      PLC_AREA_Q 2 (ctu_CV (part_counter (demo_step x st)))"
    using st(1) x(1)
    by (simp add: pi_def demo_program_def demo_step_def START_def STOP_def PART_def Let_def)
  with demo_inv_step [OF st(2) x(2)] show ?thesis
    by (simp add: demo_outputs [OF assms(3,4)] demo_inv_def)
qed

definition demo_ctx :: "plc_time \<Rightarrow> plc_pou_ctx" where
  "demo_ctx dt = \<lparr>ctx_now = 0, ctx_dt = dt, ctx_scan = 0, ctx_first = False, ctx_user = 7\<rparr>"

text \<open>An image whose input byte is \<open>b\<close>.\<close>

definition demo_pi :: "byte \<Rightarrow> plc_process_image" where
  "demo_pi b =
     \<lparr>area = (\<lambda>_. None)(0 := Some [b], 1 := Some [0, 0, 0, 0], 2 := Some [0]),
      pi_size = (\<lambda>_. 0)(0 := 1, 1 := 4), owns_memory = True\<rparr>"

lemma demo_pi_wf: "pi_wf (demo_pi b)"
  by (simp add: pi_wf_def demo_pi_def)

lemma demo_pi_input: "n < 8 \<Longrightarrow> plc_pi_get_bit (demo_pi b) PLC_AREA_I 0 (of_nat n) = bit b n"
  by (subst get_bit_bit)
    (simp_all add: demo_pi_wf in_range_cases, simp_all add: demo_pi_def base_def word_le_nat_alt unat_of_nat)

lemmas demo_pi_bits = demo_pi_input [of 0, simplified] demo_pi_input [of 1, simplified]
  demo_pi_input [of 2, simplified]

theorem demo_interlock_exact_witness:
  "plc_pi_get_bit (fst (demo_program (demo_ctx 100000000) (demo_pi 6,
     demo_run [7 \<mapsto> demo_zero] [(demo_ctx 300000000, demo_pi 3), (demo_ctx 200000000, demo_pi 7)])))
     PLC_AREA_Q 0 0"
proof -
  let ?a = "(demo_ctx 300000000, demo_pi 3)" and ?b = "(demo_ctx 200000000, demo_pi 7)"
    and ?c = "(demo_ctx 100000000, demo_pi 6)"
  have "motor_commanded [?a, ?b, ?c]"
    unfolding motor_commanded_def
    by (intro exI [of _ "[?a]"] exI [of _ ?b] exI [of _ "[?c]"])
      (simp add: start_done_def START_def STOP_def demo_pi_bits demo_ctx_def on_time_def dt_pos_def)
  moreover have "scans_ok 7 [?a, ?b, ?c]" by (simp add: scans_ok_def demo_ctx_def)
  ultimately show ?thesis
    using demo_interlock_exact [of "[7 \<mapsto> demo_zero]" 7 "[?a, ?b]" ?c] demo_pi_wf [of 6]
    by (simp add: demo_pi_def)
qed

text \<open>
  The set of the latch is an edge, yet it is not tied to an actuation after the stop: with the
  motor running, START pressed for 300 ms, then STOP pressed and released while START stays
  held, the delay completes after the stop and the motor runs again.
\<close>

lemma restart_without_actuation:
  "map (\<lambda>n. rs_Q1 (running (foldl (\<lambda>st (start, stop_pressed, dt).
       demo_blocks start stop_pressed False dt st) demo_zero
     (take n [(True, False, 500000000), (False, False, 100000000), (True, False, 300000000),
       (True, True, 100000000), (True, False, 100000000)])))) [1, 2, 3, 4, 5] =
   [True, True, True, False, True]"
  by (simp add: demo_blocks_def demo_zero_def plc_ton_run_def plc_r_trig_run_def plc_rs_run_def
      accumulate_def PLC_TIME_MS_def Let_def)

end
