(* ===== verification/Softplc_Status.thy ===== *)
theory Softplc_Status
  imports Scanner_Proxy Eip_Service
begin

text \<open>
  \<open>app/softplc_status.c\<close>: \<open>softplc --status\<close>, which maps the region an instance publishes, prints
  one line of JSON and answers with an exit status. The regions' contents are what the running
  processes hold in them when they are read; the build options are arguments.
\<close>

subsection \<open>Reading a region\<close>

abbreviation (input) STATUS_OK :: int where "STATUS_OK \<equiv> 0"
abbreviation (input) STATUS_NOT_READY :: int where "STATUS_NOT_READY \<equiv> 3"
abbreviation (input) STATUS_ABSENT :: int where "STATUS_ABSENT \<equiv> 4"

text \<open>The address of the mapping, or \<open>None\<close> for NULL.\<close>

definition map_ro :: "os_faults \<Rightarrow> string \<Rightarrow> nat \<Rightarrow> kern \<Rightarrow> nat option \<times> kern" where
  "map_ro f name want k =
     (if f_open f then (None, k)
      else (case shm_names k name of
              None \<Rightarrow> (None, k)
            | Some ob \<Rightarrow>
                (case k_open ob k of (fd, k) \<Rightarrow>
                   if f_fstat f \<or> length (obj_bytes (shm_objs k ob)) < want then (None, k_close (int fd) k)
                   else if f_mmap f then (None, k_close (int fd) k)
                   else (case k_mmap fd k of (p, k) \<Rightarrow> (Some p, k_close (int fd) k)))))"

subsection \<open>The printed object\<close>

definition quoted :: "string \<Rightarrow> string" where
  "quoted s = CHR 0x22 # s @ [CHR 0x22]"

text \<open>The members of an object, in order; a value is already in its printed form.\<close>

fun members :: "(string \<times> string) list \<Rightarrow> string" where
  "members [] = []"
| "members [(key, val)] = quoted key @ '':'' @ val"
| "members ((key, val) # kvs) = quoted key @ '':'' @ val @ '','' @ members kvs"

definition json_object :: "(string \<times> string) list \<Rightarrow> string" where
  "json_object kvs = ''{'' @ members kvs @ ''}''"

definition json_bool :: "bool \<Rightarrow> string" where
  "json_bool b = (if b then ''true'' else ''false'')"

definition json_u32 :: "u32 \<Rightarrow> string" where
  "json_u32 v = dec (unat v)"

definition json_u64 :: "u64 \<Rightarrow> string" where
  "json_u64 v = dec (unat v)"

definition print_adapter :: "os_faults \<Rightarrow> eip_shm \<Rightarrow> string \<Rightarrow> kern \<Rightarrow> int \<times> string list \<times> kern" where
  "print_adapter f m inst k =
     (let name = eip_shm_name EIP_SHM_NAME_MAX inst in
      (case map_ro f name eip_shm_bytes k of
         (None, k) \<Rightarrow> (STATUS_ABSENT, [], k)
       | (Some p, k) \<Rightarrow>
           let ready = (m_magic m = EIP_SHM_MAGIC);
               state = (if ready then st_adapter_state (m_status m) else PLC_ADAPTER_CLOSED);
               conns = (if ready then st_io_connections (m_status m) else 0);
               cycles = (if ready then st_cycles (m_status m) else 0);
               writes = (if ready then st_assembly_writes (m_status m) else 0);
               lasterr = (if ready then st_last_error (m_status m) else 0);
               k = k_munmap p k;
               line = json_object
                 [(''instance'', quoted inst), (''role'', quoted ''adapter''), (''region'', quoted name),
                  (''ready'', json_bool ready), (''abi_version'', json_u32 (m_abi_version m)),
                  (''layout_bytes'', json_u32 (m_layout_bytes m)),
                  (''state'', quoted (plc_adapter_state_name state)), (''io_connections'', json_u32 conns),
                  (''input_bytes'', json_u32 (m_input_bytes m)), (''output_bytes'', json_u32 (m_output_bytes m)),
                  (''produced_assembly'', json_u32 (m_produced_assembly m)),
                  (''consumed_assembly'', json_u32 (m_consumed_assembly m)),
                  (''cycles'', json_u64 cycles), (''assembly_writes'', json_u64 writes),
                  (''last_error'', json_u64 lasterr)]
           in (if ready \<and> state = PLC_ADAPTER_ONLINE \<and> conns > 0 then STATUS_OK else STATUS_NOT_READY, [line], k)))"

definition print_scanner :: "os_faults \<Rightarrow> eip_scanner_shm \<Rightarrow> string \<Rightarrow> kern \<Rightarrow> int \<times> string list \<times> kern" where
  "print_scanner f m inst k =
     (let name = eip_scanner_shm_name EIP_SCANNER_SHM_NAME_MAX inst in
      (case map_ro f name eip_scanner_shm_bytes k of
         (None, k) \<Rightarrow> (STATUS_ABSENT, [], k)
       | (Some p, k) \<Rightarrow>
           let ready = (s_magic m = EIP_SCANNER_SHM_MAGIC);
               state = (if ready then ss_adapter_state (s_status m) else PLC_ADAPTER_CLOSED);
               online = (if ready then ss_devices_online (s_status m) else 0);
               devices = s_device_count m;
               cycles = (if ready then ss_cycles (s_status m) else 0);
               fopens = (if ready then ss_forward_opens (s_status m) else 0);
               losses = (if ready then ss_connection_losses (s_status m) else 0);
               ooo = (if ready then ss_out_of_order (s_status m) else 0);
               lasterr = (if ready then ss_last_error (s_status m) else 0);
               k = k_munmap p k;
               line = json_object
                 [(''instance'', quoted inst), (''role'', quoted ''scanner''), (''region'', quoted name),
                  (''ready'', json_bool ready), (''abi_version'', json_u32 (s_abi_version m)),
                  (''layout_bytes'', json_u32 (s_layout_bytes m)),
                  (''state'', quoted (plc_adapter_state_name state)),
                  (''devices'', json_object [(''online'', json_u32 online), (''total'', json_u32 devices)]),
                  (''input_bytes'', json_u32 (s_input_bytes m)), (''output_bytes'', json_u32 (s_o2t_total_bytes m)),
                  (''cycles'', json_u64 cycles), (''forward_opens'', json_u64 fopens),
                  (''connection_losses'', json_u64 losses), (''out_of_order'', json_u64 ooo),
                  (''last_error'', json_u64 lasterr)];
               all_up = (ready \<and> devices \<noteq> 0 \<and> online = devices)
           in (if all_up \<and> state = PLC_ADAPTER_ONLINE then STATUS_OK else STATUS_NOT_READY, [line], k)))"

text \<open>\<open>f\<close> are the faults of the first and of the second look.\<close>

definition softplc_print_status ::
  "bool \<Rightarrow> bool \<Rightarrow> os_faults \<times> os_faults \<Rightarrow> eip_shm \<Rightarrow> eip_scanner_shm \<Rightarrow> string \<Rightarrow> kern
   \<Rightarrow> int \<times> string list \<times> kern" where
  "softplc_print_status with_eip with_scanner f m s inst k =
     (case (if with_eip then print_adapter (fst f) m inst k else (STATUS_ABSENT, [], k)) of (rc, out, k) \<Rightarrow>
        if rc \<noteq> STATUS_ABSENT then (rc, out, k)
        else (case (if with_scanner then print_scanner (snd f) s inst k else (STATUS_ABSENT, [], k)) of (rc, out, k) \<Rightarrow>
          if rc \<noteq> STATUS_ABSENT then (rc, out, k)
          else (STATUS_ABSENT,
            [json_object [(''instance'', quoted inst), (''role'', ''null''), (''ready'', ''false''),
               (''error'', quoted ''no published region for this instance'')]], k)))"

subsection \<open>The probe leaves no trace\<close>

text \<open>Everything a process can observe of the kernel, which leaves out the next free number.\<close>

definition same_world :: "kern \<Rightarrow> kern \<Rightarrow> bool" where
  "same_world k k' \<longleftrightarrow> shm_names k' = shm_names k \<and> shm_objs k' = shm_objs k \<and> open_fds k' = open_fds k
     \<and> mapped k' = mapped k \<and> sem_names k' = sem_names k \<and> sem_vals k' = sem_vals k"

definition region_published :: "string \<Rightarrow> nat \<Rightarrow> kern \<Rightarrow> bool" where
  "region_published name want k \<longleftrightarrow>
     (case shm_names k name of None \<Rightarrow> False | Some ob \<Rightarrow> want \<le> length (obj_bytes (shm_objs k ob)))"

lemma close_fresh:
  assumes "kern_ok k" and "k_open ob k = (fd, k1)"
  shows "fd = next_id k" and "same_world k (k_close (int fd) k1)" and "kern_ok (k_close (int fd) k1)"
    and "shm_objs k1 = shm_objs k"
proof -
  have unlocked: "obj_lock (shm_objs k x) \<noteq> Some (next_id k)" for x
    using assms(1) by (force simp: kern_ok_def)
  have fresh: "open_fds k (next_id k) = None" using assms(1) by (simp add: kern_ok_def)
  then have undone: "(open_fds k)(next_id k := None) = open_fds k" by auto
  from assms(2) show fd: "fd = next_id k" and "shm_objs k1 = shm_objs k" by (auto simp: k_open_def)
  show "same_world k (k_close (int fd) k1)" "kern_ok (k_close (int fd) k1)"
    using assms unlocked undone by (auto simp: k_open_def k_close_def same_world_def kern_ok_def)
qed

lemma map_ro_world:
  assumes "kern_ok k" and "map_ro f name want k = (r, k1)"
  shows "(r = None \<longrightarrow> same_world k k1 \<and> kern_ok k1) \<and> (\<forall>p. r = Some p \<longrightarrow> same_world k (k_munmap p k1))
    \<and> (f = no_faults \<longrightarrow> (r \<noteq> None \<longleftrightarrow> region_published name want k))
    \<and> (r \<noteq> None \<longrightarrow> region_published name want k)"
proof (cases "f_open f \<or> shm_names k name = None")
  case True
  with assms show ?thesis
    by (auto simp: map_ro_def region_published_def no_faults_def same_world_def split: if_splits option.splits)
next
  case False
  then obtain ob where ob: "shm_names k name = Some ob" by blast
  obtain fd k0 where op: "k_open ob k = (fd, k0)" by force
  note cl = close_fresh [OF assms(1) op]
  have fresh: "open_fds k (next_id k) = None" "mapped k (Suc (next_id k)) = None" using assms(1) by (simp_all add: kern_ok_def)
  have unlocked: "obj_lock (shm_objs k x) \<noteq> Some (next_id k)" for x using assms(1) by (force simp: kern_ok_def)
  have undone: "(open_fds k)(next_id k := None) = open_fds k" "(mapped k)(Suc (next_id k) := None) = mapped k"
    using fresh by auto
  have world: "same_world k (k_munmap p (k_close (int fd) k2))" if "k_mmap fd k0 = (p, k2)" for p k2
    using that op unlocked undone
    by (auto simp: k_open_def k_mmap_def k_close_def k_munmap_def same_world_def)
  show ?thesis
  proof (cases "f_fstat f \<or> length (obj_bytes (shm_objs k ob)) < want \<or> f_mmap f")
    case True
    then have "r = None" "k1 = k_close (int fd) k0"
      using assms(2) False ob op cl(4) by (auto simp: map_ro_def split: if_splits prod.splits)
    with True cl(2,3) ob show ?thesis by (auto simp: region_published_def no_faults_def)
  next
    case ok: False
    obtain p k2 where mm: "k_mmap fd k0 = (p, k2)" by force
    have "r = Some p" "k1 = k_close (int fd) k2"
      using assms(2) False ok ob op mm cl(4) by (auto simp: map_ro_def)
    with world [OF mm] ok ob show ?thesis by (auto simp: region_published_def)
  qed
qed

text \<open>
  C40: The health probe reports exactly and disturbs nothing. Whatever system calls fail under
  it, after it every name, object, lock, descriptor, mapping and semaphore is as before. When none
  fails, the exit status is 4 just when neither role's region is published under the name at its
  full size; otherwise the adapter's region decides if it is there, else the scanner's. It is 0
  just when that region is completely set up, says ONLINE, and is connected: to at least one
  controller for an adapter, to every one of its devices, and at least one, for a scanner; and
  3 in every other case. One line is printed in every case.
\<close>

theorem status_probe_exact:
  assumes "kern_ok k" and "softplc_print_status True True f m s inst k = (rc, out, k')"
  shows "same_world k k' \<and> length out = 1
    \<and> (f = (no_faults, no_faults) \<longrightarrow>
        rc = (if region_published (eip_shm_name EIP_SHM_NAME_MAX inst) eip_shm_bytes k
              then if m_magic m = EIP_SHM_MAGIC \<and> st_adapter_state (m_status m) = PLC_ADAPTER_ONLINE
                      \<and> st_io_connections (m_status m) \<noteq> 0 then 0 else 3
              else if region_published (eip_scanner_shm_name EIP_SCANNER_SHM_NAME_MAX inst) eip_scanner_shm_bytes k
              then if s_magic s = EIP_SCANNER_SHM_MAGIC \<and> ss_adapter_state (s_status s) = PLC_ADAPTER_ONLINE
                      \<and> s_device_count s \<noteq> 0 \<and> ss_devices_online (s_status s) = s_device_count s then 0 else 3
              else 4))"
proof -
  let ?n = "eip_shm_name EIP_SHM_NAME_MAX inst" and ?n' = "eip_scanner_shm_name EIP_SCANNER_SHM_NAME_MAX inst"
  obtain r k1 where m1: "map_ro (fst f) ?n eip_shm_bytes k = (r, k1)" by force
  note w1 = map_ro_world [OF assms(1) m1]
  show ?thesis
  proof (cases r)
    case (Some p)
    with assms(2) m1 w1 show ?thesis
      by (auto simp: softplc_print_status_def print_adapter_def Let_def word_gt_0 split: if_splits)
  next
    case None
    with w1 have k1: "same_world k k1" "kern_ok k1" by simp_all
    obtain r' k2 where m2: "map_ro (snd f) ?n' eip_scanner_shm_bytes k1 = (r', k2)" by force
    note w2 = map_ro_world [OF k1(2) m2]
    have same: "region_published name want k1 = region_published name want k" for name want
      using k1(1) by (auto simp: region_published_def same_world_def split: option.split)
    have trans: "same_world k x" if "same_world k1 x" for x using that k1(1) by (simp add: same_world_def)
    show ?thesis
    proof (cases r')
      case (Some p)
      with assms(2) m1 m2 w1 w2 None same trans show ?thesis
        by (auto simp: softplc_print_status_def print_adapter_def print_scanner_def Let_def split: if_splits)
    next
      case none: None
      with assms(2) m1 m2 w1 w2 None same trans show ?thesis
        by (auto simp: softplc_print_status_def print_adapter_def print_scanner_def Let_def split: if_splits)
    qed
  qed
qed

definition probed_kern :: kern where
  "probed_kern = kern_empty\<lparr>shm_names := [eip_shm_name 128 ''line1'' \<mapsto> 0],
     shm_objs := (\<lambda>_. \<lparr>obj_bytes = replicate eip_shm_bytes 0, obj_lock = None\<rparr>), next_id := 1\<rparr>"

definition probed_region :: eip_shm where
  "probed_region = eip_shm_zero\<lparr>m_magic := EIP_SHM_MAGIC,
     m_status := (m_status eip_shm_zero)\<lparr>st_adapter_state := PLC_ADAPTER_ONLINE, st_io_connections := 1\<rparr>\<rparr>"

theorem status_probe_exact_witness:
  "\<exists>out k'. softplc_print_status True True (no_faults, no_faults) probed_region eip_scanner_shm_zero ''line1''
      probed_kern = (0, out, k') \<and> same_world probed_kern k'"
proof -
  obtain rc out k' where st: "softplc_print_status True True (no_faults, no_faults) probed_region
      eip_scanner_shm_zero ''line1'' probed_kern = (rc, out, k')" by (metis prod_cases3)
  have ok: "kern_ok probed_kern" by (auto simp: probed_kern_def kern_empty_def kern_ok_def)
  have "region_published (eip_shm_name 128 ''line1'') eip_shm_bytes probed_kern"
    by (simp add: region_published_def probed_kern_def)
  with status_probe_exact [OF ok st] st show ?thesis by (auto simp: probed_region_def)
qed

end
