(* ===== verification/Softplc_Main.thy ===== *)
theory Softplc_Main
  imports Demo_Program Adapter_Registry Plc_Config Softplc_Status Loopback_Adapter
begin

text \<open>
  \<open>app/softplc_main.c\<close>: the PLC core process. It resolves the role, answers the informative
  options, or builds a runtime, opens and binds the configured adapters back to back, installs
  the demo program, scans until it is stopped, and cleans up.

  A factory's constructor is a function from the address of the new object, \<open>None\<close> when there is
  no memory. Objects are numbered in the order of their creation; \<open>ap_created\<close> and
  \<open>ap_destroyed\<close> record the calls of the factories. The lines printed to standard output are
  part of the result, those logged to standard error are not.
\<close>

subsection \<open>Informative options\<close>

text \<open>The conversion \<open>%-<n>s\<close>.\<close>

definition pad :: "nat \<Rightarrow> string \<Rightarrow> string" where
  "pad n s = s @ replicate (n - length s) CHR '' ''"

definition list_adapters :: "'c registry \<Rightarrow> string list" where
  "list_adapters g = ''available protocol adapters:'' #
     map (\<lambda>f. ''  '' @ pad 14 (the (fa_protocol f)) @ '' '' @ fa_description f) g"

definition list_roles :: "bool \<Rightarrow> bool \<Rightarrow> string list" where
  "list_roles we ws = ''available roles:'' #
     map (\<lambda>i. let role = the (plc_adapter_role_at we ws i) in
            ''  '' @ pad 10 role @ '' '' @ the (plc_adapter_role_adapters we ws (Some role)))
       [0..<length (kRoles we ws)]"

definition setting_line :: "string \<Rightarrow> string \<Rightarrow> string \<Rightarrow> string" where
  "setting_line key v remark = ''  '' @ pad 32 key @ '' = '' @ v @ remark"

definition show_config :: "bool \<Rightarrow> bool \<Rightarrow> (string \<Rightarrow> string option) \<Rightarrow> config \<Rightarrow> string list" where
  "show_config we ws getenv cfg =
     (if plc_config_count cfg \<noteq> 0
      then (''config file: '' @ plc_config_path cfg) #
        map (\<lambda>i. let (key, v) = the (snd (plc_config_entry_at cfg i));
                     effective = the (plc_cfg_str getenv cfg key (Some v))
                 in setting_line key v (if effective = v then [] else ''   (overridden by the environment)''))
          [0..<plc_config_count cfg]
      else [''config file: none ('' @ PLC_CONFIG_DEFAULT_PATH @ '' absent and SOFTPLC_CONFIG unset)''])
     @ (let role = the (plc_cfg_str getenv cfg ''SOFTPLC_ROLE'' (Some ''none''));
            from_role = plc_adapter_role_adapters we ws (Some role)
        in [''resolved:'',
            setting_line ''SOFTPLC_ROLE'' role (if from_role \<noteq> None then [] else ''   *** unknown role ***''),
            setting_line ''SOFTPLC_ADAPTERS'' (the (plc_cfg_str getenv cfg ''SOFTPLC_ADAPTERS''
              (Some (case from_role of Some a \<Rightarrow> a | None \<Rightarrow> ''?'')))) [],
            setting_line ''SOFTPLC_INSTANCE'' (the (plc_cfg_str getenv cfg ''SOFTPLC_INSTANCE'' (Some ''default''))) [],
            setting_line ''SOFTPLC_CYCLE_US'' (dec (unat (plc_cfg_u32 getenv cfg ''SOFTPLC_CYCLE_US'' 10000))) [],
            setting_line ''SOFTPLC_FAILSAFE'' (the (plc_cfg_str getenv cfg ''SOFTPLC_FAILSAFE'' (Some ''hold''))) []])"

subsection \<open>Opening and binding the adapters\<close>

type_synonym ('i, 'e) adapter_maker = "nat \<Rightarrow> ('i, 'e) plc_protocol_adapter option"

record ('i, 'e) app =
  ap_rt :: "demo_mem plc_runtime"
  ap_ads :: "('i, 'e) adapters"
  ap_opened :: "nat list"
  ap_created :: "nat list"
  ap_destroyed :: "nat list"
  ap_i_offset :: size_t
  ap_q_offset :: size_t

abbreviation (input) MAX_ADAPTERS :: nat where "MAX_ADAPTERS \<equiv> PLC_MAX_BINDINGS"

definition bind_next :: "nat \<Rightarrow> ('i, 'e) app \<Rightarrow> bool \<times> ('i, 'e) app" where
  "bind_next a s =
     (case plc_runtime_bind_adapter (ap_ads s) (ap_rt s) (Some a) (ap_i_offset s) (ap_q_offset s) of (st, rt) \<Rightarrow>
        if st \<noteq> PLC_OK then (False, s\<lparr>ap_rt := rt\<rparr>)
        else
          let caps = the (snd (plc_adapter_get_caps (ap_ads s a)))
          in (True, s\<lparr>ap_rt := rt, ap_i_offset := ap_i_offset s + ucast (input_bytes caps),
                      ap_q_offset := ap_q_offset s + ucast (output_bytes caps)\<rparr>))"

text \<open>One adapter of the list; \<open>False\<close> is the jump to \<open>fail\<close>, with the lines printed before it.\<close>

definition open_adapter ::
  "('i, 'e) adapter_maker registry \<Rightarrow> (nat \<Rightarrow> 'e) \<Rightarrow> string \<Rightarrow> plc_failsafe_policy \<Rightarrow> string
   \<Rightarrow> ('i, 'e) app \<Rightarrow> bool \<times> string list \<times> ('i, 'e) app" where
  "open_adapter reg env inst policy tok s =
     (case plc_adapter_registry_find reg (Some tok) of
        None \<Rightarrow> (False, list_adapters reg, s)
      | Some f \<Rightarrow>
          let a = length (ap_created s) in
          (case the (fa_create f) a of
             None \<Rightarrow> (False, [], s)
           | Some obj \<Rightarrow>
               let ac = plc_adapter_config_init\<lparr>cfg_name := Some tok, cfg_endpoint := Some inst,
                          cfg_failsafe_policy := policy\<rparr>
               in (case plc_adapter_open obj (Some ac) (env a) of (st, obj) \<Rightarrow>
                     let s = s\<lparr>ap_created := ap_created s @ [a], ap_ads := (ap_ads s)(a := obj)\<rparr> in
                     if st \<noteq> PLC_OK then (False, [], s\<lparr>ap_destroyed := ap_destroyed s @ [a]\<rparr>)
                     else (case bind_next a (s\<lparr>ap_opened := ap_opened s @ [a]\<rparr>) of (ok, s) \<Rightarrow> (ok, [], s)))))"

fun adapter_loop ::
  "('i, 'e) adapter_maker registry \<Rightarrow> (nat \<Rightarrow> 'e) \<Rightarrow> string \<Rightarrow> plc_failsafe_policy \<Rightarrow> string list
   \<Rightarrow> ('i, 'e) app \<Rightarrow> bool \<times> string list \<times> ('i, 'e) app" where
  "adapter_loop reg env inst policy [] s = (True, [], s)"
| "adapter_loop reg env inst policy (tok # toks) s =
     (if length (ap_opened s) \<ge> MAX_ADAPTERS then (True, [], s)
      else
        let tok = dropWhile (\<lambda>c. c = CHR '' '') tok in
        if tok = [] then adapter_loop reg env inst policy toks s
        else (case open_adapter reg env inst policy tok s of
                (True, out, s) \<Rightarrow> adapter_loop reg env inst policy toks s
              | (False, out, s) \<Rightarrow> (False, out, s)))"

definition adapter_tokens :: "string \<Rightarrow> string list" where
  "adapter_tokens spec = strtok (\<lambda>c. c = CHR '','') (snprintf_s 256 spec)"

subsection \<open>The process\<close>

text \<open>
  What the process finds: environment, files, arguments, which allocations succeed, the build
  options and the three constructors, what happens in each open and in each iteration of the
  task, what memory holds before an object is created there, and what \<open>--status\<close> looks at.
\<close>

record ('i, 'e) app_world =
  mw_getenv :: "string \<Rightarrow> string option"
  mw_fs :: "string \<Rightarrow> file_open"
  mw_alloc :: bool
  mw_args :: "string list"
  mw_rt_alloc :: "bool \<times> (plc_area \<Rightarrow> bool) \<times> bool"
  mw_with_eip :: bool
  mw_with_scanner :: bool
  mw_makers :: "('i, 'e) adapter_maker \<times> ('i, 'e) adapter_maker \<times> ('i, 'e) adapter_maker"
  mw_open_env :: "nat \<Rightarrow> 'e"
  mw_start :: rt_time
  mw_iterations :: "'e iteration list"
  mw_store :: "('i, 'e) adapters"
  mw_probe_faults :: "os_faults \<times> os_faults"
  mw_regions :: "eip_shm \<times> eip_scanner_shm"
  mw_kern :: kern

text \<open>How the process ended: exit code, printed lines, live heap blocks, the factories' calls.\<close>

record app_end =
  en_code :: int
  en_out :: "string list"
  en_heap :: nat
  en_created :: "nat list"
  en_destroyed :: "nat list"

text \<open>The common end of both ways out: destroy what is open, destroy the runtime.\<close>

definition app_finish :: "int \<Rightarrow> string list \<Rightarrow> nat \<Rightarrow> ('i, 'e) app \<Rightarrow> app_end" where
  "app_finish code out h s = \<lparr>en_code = code, en_out = out, en_heap = plc_runtime_destroy h (ap_rt s),
     en_created = ap_created s, en_destroyed = ap_destroyed s @ ap_opened s\<rparr>"

definition app_exit :: "int \<Rightarrow> string list \<Rightarrow> nat \<Rightarrow> app_end" where
  "app_exit code out h = \<lparr>en_code = code, en_out = out, en_heap = h, en_created = [], en_destroyed = []\<rparr>"

text \<open>The address of the static \<open>demo\<close>.\<close>

abbreviation (input) demo_address :: nat where "demo_address \<equiv> 1"

text \<open>From the installation of the program to the end.\<close>

definition app_scan ::
  "('i, 'e) app_world \<Rightarrow> config \<Rightarrow> string list \<Rightarrow> nat \<Rightarrow> ('i, 'e) app \<Rightarrow> app_end option" where
  "app_scan w cfg out h s =
     (case plc_runtime_add_program (ap_rt s) (Some ''demo'') (Some demo_program) demo_address of (st, rt) \<Rightarrow>
        let s = s\<lparr>ap_rt := rt\<rparr> in
        if st \<noteq> PLC_OK then Some (app_finish EXIT_FAILURE out h s)
        else
          let max_scans = ucast (plc_cfg_u32 (mw_getenv w) cfg ''SOFTPLC_MAX_SCANS'' 0) in
          (case plc_runtime_run max_scans (mw_start w) (mw_iterations w)
                  (ap_rt s, ap_ads s, [demo_address \<mapsto> demo_zero]) of
             None \<Rightarrow> None
           | Some (run_st, (rt, ads, mem), trace) \<Rightarrow>
               Some (app_finish (if run_st = PLC_OK then EXIT_SUCCESS else EXIT_FAILURE) out h
                       (s\<lparr>ap_rt := rt, ap_ads := ads\<rparr>))))"

definition app_run ::
  "('i, 'e) app_world \<Rightarrow> config \<Rightarrow> ('i, 'e) adapter_maker registry \<Rightarrow> string \<Rightarrow> nat \<Rightarrow> demo_mem plc_runtime
   \<Rightarrow> app_end option" where
  "app_run w cfg reg role_adapters h rt =
     (let inst = the (plc_cfg_str (mw_getenv w) cfg ''SOFTPLC_INSTANCE'' (Some ''default''));
          failsafe = the (plc_cfg_str (mw_getenv w) cfg ''SOFTPLC_FAILSAFE'' (Some ''hold''));
          policy = (if failsafe = ''clear'' then PLC_FAILSAFE_CLEAR else PLC_FAILSAFE_HOLD);
          spec = (case plc_cfg_str (mw_getenv w) cfg ''SOFTPLC_ADAPTERS'' None of
                    Some explicit_list \<Rightarrow> explicit_list | None \<Rightarrow> role_adapters);
          s = \<lparr>ap_rt = rt, ap_ads = mw_store w, ap_opened = [], ap_created = [], ap_destroyed = [],
               ap_i_offset = 0, ap_q_offset = 0\<rparr>
      in (case adapter_loop reg (mw_open_env w) inst policy (adapter_tokens spec) s of
            (False, out, s) \<Rightarrow> Some (app_finish EXIT_FAILURE out h s)
          | (True, out, s) \<Rightarrow> app_scan w cfg out h s))"

definition app_options ::
  "('i, 'e) app_world \<Rightarrow> config \<Rightarrow> ('i, 'e) adapter_maker registry \<Rightarrow> string \<Rightarrow> string option \<Rightarrow> (int \<times> string list) option" where
  "app_options w cfg reg role role_adapters =
     (if length (mw_args w) > 1 then
        let opt = mw_args w ! 1 in
        if opt = ''--list-adapters'' then Some (EXIT_SUCCESS, list_adapters reg)
        else if opt = ''--list-roles'' then Some (EXIT_SUCCESS, list_roles (mw_with_eip w) (mw_with_scanner w))
        else if opt = ''--status'' then
          (case softplc_print_status (mw_with_eip w) (mw_with_scanner w) (mw_probe_faults w)
                  (fst (mw_regions w)) (snd (mw_regions w))
                  (arg_or (mw_args w) 2 (the (plc_cfg_str (mw_getenv w) cfg ''SOFTPLC_INSTANCE'' (Some ''default''))))
                  (mw_kern w) of
             (rc, out, k) \<Rightarrow> Some (rc, out))
        else if opt = ''--show-config'' then
          Some (EXIT_SUCCESS, show_config (mw_with_eip w) (mw_with_scanner w) (mw_getenv w) cfg)
        else if opt = ''--print-config'' then
          if length (mw_args w) < 3 then Some (EXIT_FAILURE, [])
          else Some (EXIT_SUCCESS, [the (plc_cfg_str (mw_getenv w) cfg (mw_args w ! 2) (Some []))])
        else if opt = ''--role'' then
          if role_adapters = None then Some (EXIT_FAILURE, list_roles (mw_with_eip w) (mw_with_scanner w))
          else Some (EXIT_SUCCESS, [role])
        else None
      else None)"

definition softplc_main :: "('i, 'e) app_world \<Rightarrow> config \<times> log_state \<Rightarrow> nat \<Rightarrow> app_end option" where
  "softplc_main w cl h =
     (case plc_config_bootstrap (mw_getenv w) (mw_fs w) (mw_alloc w) ''softplc'' cl of (rc, cfg, l) \<Rightarrow>
        if rc \<noteq> 0 then Some (app_exit EXIT_FAILURE [] h)
        else
          let we = mw_with_eip w; ws = mw_with_scanner w;
              reg = (case mw_makers w of (lb, eip, scn) \<Rightarrow> plc_adapter_register_builtins we ws lb eip scn []);
              role = the (plc_cfg_str (mw_getenv w) cfg ''SOFTPLC_ROLE'' (Some ''none''));
              role_adapters = plc_adapter_role_adapters we ws (Some role)
          in (case app_options w cfg reg role role_adapters of
                Some (code, out) \<Rightarrow> Some (app_exit code out h)
              | None \<Rightarrow>
                  (case role_adapters of
                     None \<Rightarrow> Some (app_exit EXIT_FAILURE (list_roles we ws) h)
                   | Some adapters \<Rightarrow>
                       let rc = plc_runtime_config_init;
                           rc = rc\<lparr>cycle_us := plc_cfg_u32 (mw_getenv w) cfg ''SOFTPLC_CYCLE_US'' (cycle_us rc)\<rparr>
                       in (case mw_rt_alloc w of (alloc_rt, alloc_area, alloc_shadow) \<Rightarrow>
                             (case plc_runtime_create alloc_rt alloc_area alloc_shadow h rc of
                                (h, None) \<Rightarrow> Some (app_exit EXIT_FAILURE [] h)
                              | (h, Some rt) \<Rightarrow> app_run w cfg reg adapters h rt)))))"

subsection \<open>Nothing is left behind\<close>

definition image_owned :: "plc_process_image \<Rightarrow> bool" where
  "image_owned pi \<longleftrightarrow> owns_memory pi \<and> area pi 0 \<noteq> None \<and> area pi 1 \<noteq> None \<and> area pi 2 \<noteq> None"

lemma image_owned_poke [simp]: "image_owned pi \<Longrightarrow> image_owned (poke pi a p bs)"
  by (auto simp: image_owned_def poke_def)

lemma image_owned_stores [simp]:
  "image_owned pi \<Longrightarrow> image_owned (plc_pi_set_bit pi a byt b v)"
  "image_owned pi \<Longrightarrow> image_owned (plc_pi_set_word pi a off x)"
  by (auto simp: plc_pi_set_bit_def plc_pi_set_word_def split: option.split)

lemma destroy_owned: "image_owned (rt_pi rt) \<Longrightarrow> plc_runtime_destroy (h + 5) rt = h"
  by (simp add: plc_runtime_destroy_def plc_pi_free_def image_owned_def)

lemma create_owned:
  "plc_runtime_create a b c h cfg = (h', r) \<Longrightarrow>
   (case r of None \<Rightarrow> h' = h
    | Some rt \<Rightarrow> h' = h + 5 \<and> image_owned (rt_pi rt) \<and> programs rt = [])"
  by (auto simp: plc_runtime_create_def plc_pi_init_def pi_zero_def plc_pi_free_def image_owned_def Let_def
      split: if_splits)

lemma demo_owned: "image_owned pi \<Longrightarrow> image_owned (fst (demo_program ctx (pi, mem)))"
  by (auto simp: demo_program_def Let_def split: option.split)

text \<open>The runtime of the application: its image is its own, its one program is the demo.\<close>

definition demo_rt :: "demo_mem plc_runtime \<Rightarrow> bool" where
  "demo_rt rt \<longleftrightarrow> image_owned (rt_pi rt) \<and> (\<forall>p \<in> set (programs rt). prog_fn p = demo_program)"

lemma scan_io_loop_owned:
  "scan_io_loop shadow len env i bs worst pi ads = (st, pi', ads') \<Longrightarrow> image_owned pi \<Longrightarrow> image_owned pi'"
proof (induction bs arbitrary: i worst pi ads)
  case (Cons b bs)
  show ?case
  proof (cases "plc_pi_area pi PLC_AREA_I")
    case None
    with Cons.prems show ?thesis by (auto simp: scan_io_loop.simps)
  next
    case (Some ib)
    with Cons.prems show ?thesis
      by (auto simp: scan_io_loop.simps Let_def split: prod.splits option.splits elim!: Cons.IH)
  qed
qed (simp add: scan_io_loop.simps)

lemma run_programs_owned:
  "\<forall>p \<in> set ps. prog_fn p = demo_program \<Longrightarrow> image_owned pi \<Longrightarrow> image_owned (fst (run_programs ctx ps (pi, u)))"
proof (induction ps arbitrary: pi u)
  case (Cons p ps)
  obtain pi' u' where d: "demo_program (ctx\<lparr>ctx_user := prog_user p\<rparr>) (pi, u) = (pi', u')" by force
  with demo_owned [OF Cons.prems(2)] have "image_owned pi'" by (metis fst_conv)
  with Cons.IH [of pi' u'] Cons.prems d show ?case by (simp add: run_programs_def)
qed (simp add: run_programs_def)

lemma scan_once_owned:
  assumes "plc_runtime_scan_once env (rt, ads, u) = (st, rt', ads', u')" and "demo_rt rt"
  shows "demo_rt rt'"
proof -
  have io: "image_owned pi" if "scan_io_loop (q_shadow rt) (q_shadow_len rt) (env_exchange env) 0 (bindings rt)
      PLC_OK (rt_pi rt) ads = (io, pi, ads1)" for io pi ads1
    by (rule scan_io_loop_owned [OF that]) (use assms(2) in \<open>simp add: demo_rt_def\<close>)
  have progs: "image_owned pi'" if "run_programs ctx (programs rt) (pi, u) = (pi', v)" "image_owned pi" for ctx pi pi' v
    using run_programs_owned [OF _ that(2), of "programs rt" ctx u] that(1) assms(2) by (simp add: demo_rt_def)
  have fields: "q_shadow (scan_begin t rt) = q_shadow rt" "q_shadow_len (scan_begin t rt) = q_shadow_len rt"
    "bindings (scan_begin t rt) = bindings rt" "rt_pi (scan_begin t rt) = rt_pi rt"
    "programs (scan_begin t rt) = programs rt" for t by (simp_all add: scan_begin_def)
  have kept: "rt_pi (count_io_fault x r) = rt_pi r" "programs (count_io_fault x r) = programs r"
    "rt_pi (account t0 t1 r) = rt_pi r" "programs (account t0 t1 r) = programs r"
    "rt_pi (latch_outputs r) = rt_pi r" "programs (latch_outputs r) = programs r"
    for x t0 t1 and r :: "demo_mem plc_runtime"
    by (simp_all add: count_io_fault_def account_def latch_outputs_def Let_def split: option.split)
  show ?thesis
    using assms
    by (auto simp: plc_runtime_scan_once_def scan_io_def demo_rt_def fields kept Let_def
        split: if_splits prod.splits dest: io progs)
qed

lemma run_loop_owned:
  "run_loop ms period its deadline tr (rt, ads, u) = Some (st, (rt', ads', u'), tr') \<Longrightarrow> demo_rt rt \<Longrightarrow> demo_rt rt'"
proof (induction its arbitrary: deadline tr rt ads u)
  case (Cons it its)
  obtain st1 rt1 ads1 u1 where sc: "plc_runtime_scan_once (it_scan it) (rt, ads, u) = (st1, rt1, ads1, u1)"
    by (metis prod_cases4)
  have "demo_rt rt1" by (rule scan_once_owned [OF sc Cons.prems(2)])
  with Cons.IH Cons.prems sc show ?case by (auto simp: Let_def split: if_splits)
qed simp

lemma run_owned:
  "plc_runtime_run ms start its (rt, ads, u) = Some (st, (rt', ads', u'), tr) \<Longrightarrow> demo_rt rt \<Longrightarrow> demo_rt rt'"
  by (auto simp: plc_runtime_run_def Let_def demo_rt_def [of "rt\<lparr>stop := False\<rparr>"] demo_rt_def [of rt]
      dest!: run_loop_owned)

text \<open>While adapters are being opened: the objects made are 0, 1, ..., each is open or destroyed.\<close>

definition app_inv :: "('i, 'e) app \<Rightarrow> bool" where
  "app_inv s \<longleftrightarrow> ap_created s = [0..<length (ap_created s)]
     \<and> distinct (ap_destroyed s @ ap_opened s) \<and> set (ap_destroyed s @ ap_opened s) = set (ap_created s)
     \<and> image_owned (rt_pi (ap_rt s)) \<and> programs (ap_rt s) = []"

lemma bind_fields:
  "plc_runtime_bind_adapter ads rt a i q = (st, rt') \<Longrightarrow> rt_pi rt' = rt_pi rt \<and> programs rt' = programs rt"
  by (auto simp: plc_runtime_bind_adapter_def Let_def split: if_splits option.splits prod.splits)

lemma bind_next_fields:
  "bind_next a s = (ok, s') \<Longrightarrow> ap_created s' = ap_created s \<and> ap_destroyed s' = ap_destroyed s
    \<and> ap_opened s' = ap_opened s \<and> ap_ads s' = ap_ads s \<and> rt_pi (ap_rt s') = rt_pi (ap_rt s)
    \<and> programs (ap_rt s') = programs (ap_rt s)"
  by (auto simp: bind_next_def Let_def split: if_splits prod.splits dest!: bind_fields)

lemma open_adapter_inv:
  assumes "open_adapter reg env inst policy tok s = (ok, out, s')" and "app_inv s"
  shows "app_inv s'"
proof -
  have new: "length (ap_created s) \<notin> set (ap_created s)"
    using assms(2) unfolding app_inv_def by (metis atLeastLessThan_iff less_irrefl set_upt)
  have upt: "ap_created s @ [length (ap_created s)] = [0..<Suc (length (ap_created s))]"
    using assms(2) by (simp add: app_inv_def)
  show ?thesis
    using assms new upt
    by (auto simp: open_adapter_def Let_def app_inv_def split: option.splits prod.splits if_splits
        dest!: bind_next_fields)
qed

lemma adapter_loop_inv:
  "adapter_loop reg env inst policy toks s = (ok, out, s') \<Longrightarrow> app_inv s \<Longrightarrow> app_inv s'"
proof (induction toks arbitrary: s)
  case (Cons tok toks)
  obtain ok1 out1 s1 where op: "open_adapter reg env inst policy (dropWhile (\<lambda>c. c = CHR '' '') tok) s = (ok1, out1, s1)"
    by (metis prod_cases3)
  with Cons open_adapter_inv [OF op] show ?case by (auto simp: Let_def split: if_splits bool.splits)
qed simp

definition left_clean :: "nat \<Rightarrow> app_end \<Rightarrow> bool" where
  "left_clean h e \<longleftrightarrow> en_heap e = h \<and> distinct (en_destroyed e) \<and> set (en_destroyed e) = set (en_created e)"

lemma finish_clean:
  assumes "app_inv s" and "image_owned (rt_pi rt)"
  shows "left_clean h (app_finish c out (h + 5) (s\<lparr>ap_rt := rt, ap_ads := ads\<rparr>))"
  using assms destroy_owned [OF assms(2), of h] by (simp add: left_clean_def app_finish_def app_inv_def)

lemma app_run_clean:
  assumes "app_run w cfg reg adapters (h + 5) rt = Some e" and "image_owned (rt_pi rt)" and "programs rt = []"
  shows "left_clean h e"
proof -
  obtain inst policy spec where run: "app_run w cfg reg adapters (h + 5) rt =
    (case adapter_loop reg (mw_open_env w) inst policy (adapter_tokens spec) \<lparr>ap_rt = rt, ap_ads = mw_store w,
        ap_opened = [], ap_created = [], ap_destroyed = [], ap_i_offset = 0, ap_q_offset = 0\<rparr> of
       (False, out, s) \<Rightarrow> Some (app_finish EXIT_FAILURE out (h + 5) s)
     | (True, out, s) \<Rightarrow> app_scan w cfg out (h + 5) s)"
    unfolding app_run_def Let_def by blast
  obtain ok out s where loop: "adapter_loop reg (mw_open_env w) inst policy (adapter_tokens spec) \<lparr>ap_rt = rt,
      ap_ads = mw_store w, ap_opened = [], ap_created = [], ap_destroyed = [], ap_i_offset = 0,
      ap_q_offset = 0\<rparr> = (ok, out, s)" by (metis prod_cases3)
  have inv: "app_inv s" by (rule adapter_loop_inv [OF loop]) (use assms(2,3) in \<open>simp add: app_inv_def\<close>)
  then have owned: "image_owned (rt_pi (ap_rt s))" "programs (ap_rt s) = []" by (simp_all add: app_inv_def)
  show ?thesis
  proof (cases ok)
    case False
    with assms(1) loop have "e = app_finish EXIT_FAILURE out (h + 5) (s\<lparr>ap_rt := ap_rt s, ap_ads := ap_ads s\<rparr>)"
      by (simp add: run)
    then show ?thesis by (simp only: finish_clean [OF inv owned(1)])
  next
    case True
    let ?rt = "(ap_rt s)\<lparr>programs := [\<lparr>prog_name = ''demo'', prog_fn = demo_program, prog_user = 1\<rparr>]\<rparr>"
    have "plc_runtime_add_program (ap_rt s) (Some ''demo'') (Some demo_program) 1 = (PLC_OK, ?rt)"
      using owned(2) by (simp add: plc_runtime_add_program_def)
    with assms(1) loop True run obtain st rt' ads' mem' tr c where
      "plc_runtime_run (ucast (plc_cfg_u32 (mw_getenv w) cfg ''SOFTPLC_MAX_SCANS'' 0)) (mw_start w)
         (mw_iterations w) (?rt, ap_ads s, [1 \<mapsto> demo_zero]) = Some (st, (rt', ads', mem'), tr)"
      and e: "e = app_finish c out (h + 5) (s\<lparr>ap_rt := rt', ap_ads := ads'\<rparr>)"
      by (auto simp: app_scan_def Let_def split: option.splits)
    then have "demo_rt rt'" using owned(1) by (auto dest!: run_owned simp: demo_rt_def)
    then show ?thesis unfolding e by (intro finish_clean [OF inv]) (simp add: demo_rt_def)
  qed
qed

subsection \<open>Back to back\<close>

definition i_bytes_of :: "plc_io_binding list \<Rightarrow> nat" where
  "i_bytes_of bs = sum_list (map (\<lambda>b. unat (input_bytes (b_caps b))) bs)"

definition q_bytes_of :: "plc_io_binding list \<Rightarrow> nat" where
  "q_bytes_of bs = sum_list (map (\<lambda>b. unat (output_bytes (b_caps b))) bs)"

text \<open>The bindings so far belong to the objects 0, 1, ... and their slices follow each other.\<close>

definition laid_out :: "('i, 'e) adapters \<Rightarrow> plc_io_binding list \<Rightarrow> bool" where
  "laid_out ads bs \<longleftrightarrow> (\<forall>j < length bs. b_adapter (bs ! j) = j
     \<and> unat (i_offset (bs ! j)) = i_bytes_of (take j bs) \<and> unat (q_offset (bs ! j)) = q_bytes_of (take j bs)
     \<and> plc_adapter_get_caps (ads j) = (PLC_OK, Some (b_caps (bs ! j))))"

definition app_laid :: "('i, 'e) app \<Rightarrow> bool" where
  "app_laid s \<longleftrightarrow> rt_wf (ap_rt s) \<and> laid_out (ap_ads s) (bindings (ap_rt s))
     \<and> length (bindings (ap_rt s)) = length (ap_created s) \<and> length (ap_opened s) = length (ap_created s)
     \<and> unat (ap_i_offset s) = i_bytes_of (bindings (ap_rt s)) \<and> unat (ap_q_offset s) = q_bytes_of (bindings (ap_rt s))"

lemma laid_out_snoc:
  assumes "laid_out ads bs" and "b_adapter b = length bs" and "unat (i_offset b) = i_bytes_of bs"
    and "unat (q_offset b) = q_bytes_of bs" and "plc_adapter_get_caps a = (PLC_OK, Some (b_caps b))"
  shows "laid_out (ads(length bs := a)) (bs @ [b])"
  using assms by (auto simp: laid_out_def nth_append less_Suc_eq)

lemma bind_ok:
  assumes "rt_wf rt" and "plc_runtime_bind_adapter ads rt (Some a) i q = (PLC_OK, rt')"
  obtains caps where "plc_adapter_get_caps (ads a) = (PLC_OK, Some caps)"
    and "rt' = rt\<lparr>bindings := bindings rt @ [\<lparr>b_adapter = a, i_offset = i, q_offset = q, b_caps = caps\<rparr>]\<rparr>"
    and "unat i + unat (input_bytes caps) \<le> unat (pi_size (rt_pi rt) 0)"
    and "unat q + unat (output_bytes caps) \<le> unat (pi_size (rt_pi rt) 1)" and "rt_wf rt'"
proof -
  have area_size: "plc_pi_area_size (rt_pi rt) 0 = pi_size (rt_pi rt) 0"
    "plc_pi_area_size (rt_pi rt) 1 = pi_size (rt_pi rt) 1"
    using assms(1) by (simp_all add: rt_wf_def plc_pi_area_size_def pi_wf_area_ok)
  obtain st c where caps: "plc_adapter_get_caps (ads a) = (st, c)" by force
  moreover have "st = PLC_OK \<Longrightarrow> c \<noteq> None"
    using caps by (auto simp: plc_adapter_get_caps_def split: option.splits prod.splits)
  ultimately show ?thesis
    using assms that [of "the c"]
    by (auto simp: plc_runtime_bind_adapter_def area_size word_range_check Let_def rt_wf_def binding_fits_def
        split: if_splits)
qed

lemma unat_add_fits:
  assumes "unat (x :: size_t) + unat (y :: u32) \<le> unat (z :: size_t)"
  shows "unat (x + ucast y) = unat x + unat y"
proof -
  have "unat (ucast y :: size_t) = unat y" by (simp add: unsigned_ucast_eq take_bit_nat_eq_self)
  moreover have "unat x + unat y < 2 ^ 64" using assms unsigned_less [of z, where ?'a = nat] by simp
  ultimately show ?thesis by (simp add: unat_word_ariths)
qed

lemma bind_next_laid:
  assumes "app_laid s" and "a = length (ap_created s)"
    and "bind_next a (s\<lparr>ap_created := ap_created s @ [a], ap_ads := (ap_ads s)(a := obj),
      ap_opened := ap_opened s @ [a]\<rparr>) = (True, s')"
  shows "app_laid s' \<and> length (ap_opened s') = Suc (length (ap_opened s))"
proof -
  let ?ads = "(ap_ads s)(a := obj)"
  obtain rt where b: "plc_runtime_bind_adapter ?ads (ap_rt s) (Some a) (ap_i_offset s) (ap_q_offset s) = (PLC_OK, rt)"
    using assms(3) by (auto simp: bind_next_def Let_def split: prod.splits if_splits)
  from assms(1) have wf: "rt_wf (ap_rt s)" by (simp add: app_laid_def)
  from bind_ok [OF wf b] obtain caps where c: "plc_adapter_get_caps obj = (PLC_OK, Some caps)"
    "rt = (ap_rt s)\<lparr>bindings := bindings (ap_rt s) @ [\<lparr>b_adapter = a, i_offset = ap_i_offset s,
       q_offset = ap_q_offset s, b_caps = caps\<rparr>]\<rparr>"
    "unat (ap_i_offset s) + unat (input_bytes caps) \<le> unat (pi_size (rt_pi (ap_rt s)) 0)"
    "unat (ap_q_offset s) + unat (output_bytes caps) \<le> unat (pi_size (rt_pi (ap_rt s)) 1)" "rt_wf rt"
    by (metis fun_upd_same)
  have a: "a = length (bindings (ap_rt s))" using assms(1,2) by (simp add: app_laid_def)
  have s': "s' = s\<lparr>ap_created := ap_created s @ [a], ap_ads := ?ads, ap_opened := ap_opened s @ [a],
      ap_rt := rt, ap_i_offset := ap_i_offset s + ucast (input_bytes caps),
      ap_q_offset := ap_q_offset s + ucast (output_bytes caps)\<rparr>"
    using assms(3) b c(1) by (simp add: bind_next_def Let_def)
  have "laid_out ?ads (bindings rt)"
    using laid_out_snoc [of "ap_ads s" "bindings (ap_rt s)" "\<lparr>b_adapter = a, i_offset = ap_i_offset s,
        q_offset = ap_q_offset s, b_caps = caps\<rparr>" obj] assms(1) c(1) a
    by (simp add: c(2) app_laid_def)
  then show ?thesis
    using assms(1) c unat_add_fits [OF c(3)] unat_add_fits [OF c(4)]
    by (simp add: s' app_laid_def i_bytes_of_def q_bytes_of_def)
qed

lemma open_adapter_laid:
  assumes "open_adapter reg env inst policy tok s = (True, out, s')" and "app_laid s"
  shows "app_laid s' \<and> length (ap_opened s') = Suc (length (ap_opened s))"
  using assms bind_next_laid [OF assms(2) refl]
  by (auto simp: open_adapter_def Let_def split: option.splits prod.splits if_splits)

definition blank :: "string \<Rightarrow> bool" where
  "blank tok \<longleftrightarrow> dropWhile (\<lambda>c. c = CHR '' '') tok = []"

lemma adapter_loop_laid:
  "adapter_loop reg env inst policy toks s = (True, out, s') \<Longrightarrow> app_laid s \<Longrightarrow> length (ap_opened s) \<le> 8 \<Longrightarrow>
   app_laid s' \<and> length (ap_opened s') = min 8 (length (ap_opened s) + length (filter (\<lambda>t. \<not> blank t) toks))"
proof (induction toks arbitrary: s)
  case (Cons tok toks)
  let ?tok = "dropWhile (\<lambda>c. c = CHR '' '') tok"
  obtain ok1 out1 s1 where op: "open_adapter reg env inst policy ?tok s = (ok1, out1, s1)" by (metis prod_cases3)
  consider "length (ap_opened s) \<ge> 8" | "length (ap_opened s) < 8" "blank tok"
    | "length (ap_opened s) < 8" "\<not> blank tok" by linarith
  then show ?case
  proof cases
    case 1
    with Cons.prems show ?thesis by auto
  next
    case 2
    with Cons show ?thesis by (simp add: blank_def Let_def)
  next
    case 3
    with Cons.prems(1) op have ok: "ok1" "adapter_loop reg env inst policy toks s1 = (True, out, s')"
      by (auto simp: blank_def Let_def simp del: dropWhile_eq_Nil_conv split: bool.splits)
    with open_adapter_laid [of reg env inst policy ?tok s out1 s1] op Cons.prems(2)
    have "app_laid s1" "length (ap_opened s1) = Suc (length (ap_opened s))" by simp_all
    with Cons.IH [OF ok(2)] 3 show ?thesis by simp
  qed
qed simp

subsection \<open>Properties\<close>

text \<open>
  C18: The adapter list alone fixes the process image's map. When every adapter of the list opens
  and binds, the objects are bound in the order of the list, one for each entry that is not blank
  up to the eight a runtime holds; the first slice of %I and of %Q starts at zero, each further
  one starts where the one before it ends, with the sizes the adapter announced, and all lie
  inside the image; so no two adapters share a byte. The runtime stays well formed.
\<close>

theorem adapters_back_to_back:
  assumes "rt_wf rt" and "bindings rt = []"
    and "adapter_loop reg env inst policy toks \<lparr>ap_rt = rt, ap_ads = ads, ap_opened = [], ap_created = [],
      ap_destroyed = [], ap_i_offset = 0, ap_q_offset = 0\<rparr> = (True, out, s)"
    and "bs = bindings (ap_rt s)"
  shows "rt_wf (ap_rt s) \<and> length bs = min 8 (length (filter (\<lambda>t. dropWhile (\<lambda>c. c = CHR '' '') t \<noteq> []) toks))
    \<and> (\<forall>j < length bs. b_adapter (bs ! j) = j
        \<and> plc_adapter_get_caps (ap_ads s j) = (PLC_OK, Some (b_caps (bs ! j)))
        \<and> unat (i_offset (bs ! j)) = (\<Sum>b \<leftarrow> take j bs. unat (input_bytes (b_caps b)))
        \<and> unat (q_offset (bs ! j)) = (\<Sum>b \<leftarrow> take j bs. unat (output_bytes (b_caps b))))"
proof -
  have "app_laid s \<and> length (ap_opened s) = min 8 (length (filter (\<lambda>t. \<not> blank t) toks))"
    using adapter_loop_laid [OF assms(3)] assms(1,2)
    by (simp add: app_laid_def laid_out_def i_bytes_of_def q_bytes_of_def)
  then show ?thesis
    by (simp add: assms(4) app_laid_def laid_out_def i_bytes_of_def q_bytes_of_def blank_def)
qed

definition loopback_maker :: "(loopback_impl, u64) adapter_maker" where
  "loopback_maker a = lb_create True True"

definition demo_registry :: "(loopback_impl, u64) adapter_maker registry" where
  "demo_registry = plc_adapter_register_builtins False False loopback_maker loopback_maker loopback_maker []"

definition plain_runtime :: "demo_mem plc_runtime" where
  "plain_runtime = the (snd (plc_runtime_create True (\<lambda>_. True) True 0 plc_runtime_config_init))"

lemma plain_runtime_facts: "rt_wf plain_runtime" "bindings plain_runtime = []" "programs plain_runtime = []"
  "plc_pi_area_size (rt_pi plain_runtime) 0 = 256" "plc_pi_area_size (rt_pi plain_runtime) 1 = 256"
  by (simp_all add: plain_runtime_def plc_runtime_create_def plc_pi_init_def pi_zero_def rt_wf_def
      plc_runtime_config_init_def pi_wf_def plc_pi_area_size_def area_ok_def)

definition demo_app :: "(loopback_impl, u64) app" where
  "demo_app = \<lparr>ap_rt = plain_runtime, ap_ads = (\<lambda>_. the (lb_create True True)), ap_opened = [], ap_created = [],
     ap_destroyed = [], ap_i_offset = 0, ap_q_offset = 0\<rparr>"

lemma demo_app_opens:
  "\<exists>out s. adapter_loop demo_registry (\<lambda>_. 1000) ''line1'' PLC_FAILSAFE_HOLD [''loopback'', '' '', '' loopback''] demo_app =
     (True, out, s)"
  by (simp add: demo_app_def demo_registry_def plc_adapter_register_builtins_def plc_adapter_registry_add_def
      plc_adapter_registry_find_def loopback_factory_def loopback_maker_def open_adapter_def bind_next_def
      plc_adapter_open_def lb_create_def kLoopbackVtbl_def lb_open_def plc_adapter_config_init_def
      plc_runtime_bind_adapter_def plc_adapter_get_caps_def Let_def plain_runtime_facts lb_caps_def)

theorem adapters_back_to_back_witness:
  "\<exists>out s. adapter_loop demo_registry (\<lambda>_. 1000) ''line1'' PLC_FAILSAFE_HOLD [''loopback'', '' '', '' loopback''] demo_app =
     (True, out, s) \<and> length (bindings (ap_rt s)) = 2 \<and> unat (i_offset (bindings (ap_rt s) ! 0)) = 0
     \<and> unat (i_offset (bindings (ap_rt s) ! 1)) = unat (input_bytes (b_caps (bindings (ap_rt s) ! 0)))"
proof -
  obtain out s where lp: "adapter_loop demo_registry (\<lambda>_. 1000) ''line1'' PLC_FAILSAFE_HOLD
      [''loopback'', '' '', '' loopback''] demo_app = (True, out, s)" using demo_app_opens by blast
  note all = adapters_back_to_back [OF plain_runtime_facts(1,2) lp [unfolded demo_app_def] refl]
  then have len: "length (bindings (ap_rt s)) = 2" by simp
  then have "take 1 (bindings (ap_rt s)) = [bindings (ap_rt s) ! 0]" by (cases "bindings (ap_rt s)") simp_all
  with all len have "unat (i_offset (bindings (ap_rt s) ! 0)) = 0"
    "unat (i_offset (bindings (ap_rt s) ! 1)) = unat (input_bytes (b_caps (bindings (ap_rt s) ! 0)))" by simp_all
  with lp len show ?thesis by blast
qed

text \<open>
  C16: The core process cleans up whatever happens. Whenever it ends, be it after an informative
  option, a bad configuration, a failed allocation, an unknown protocol, an adapter that cannot be
  created, opened or bound, or after scanning: every heap block of the runtime is freed again, and
  every adapter object that was created has been destroyed exactly once.
\<close>

theorem softplc_cleans_up:
  assumes "softplc_main w cl h = Some e"
  shows "en_heap e = h \<and> distinct (en_destroyed e) \<and> set (en_destroyed e) = set (en_created e)"
proof -
  have exit: "left_clean h (app_exit c out h)" for c out by (simp add: left_clean_def app_exit_def)
  have "left_clean h e"
    using assms
    by (auto simp: softplc_main_def Let_def exit split: if_splits prod.splits option.splits
        dest!: create_owned intro: app_run_clean)
  then show ?thesis by (simp add: left_clean_def)
qed

text \<open>A list whose second protocol is unknown: the first adapter is open when the process gives up.\<close>

definition half_known_world :: "(loopback_impl, u64) app_world" where
  "half_known_world = \<lparr>mw_getenv = (\<lambda>k. if k = ''SOFTPLC_ADAPTERS'' then Some ''loopback,bacnet'' else None),
     mw_fs = (\<lambda>_. Fopen_fails True []), mw_alloc = True, mw_args = [''softplc''],
     mw_rt_alloc = (True, \<lambda>_. True, True), mw_with_eip = False, mw_with_scanner = False,
     mw_makers = (loopback_maker, loopback_maker, loopback_maker), mw_open_env = (\<lambda>_. 1000), mw_start = 0,
     mw_iterations = [], mw_store = (\<lambda>_. the (lb_create True True)), mw_probe_faults = (no_faults, no_faults),
     mw_regions = (eip_shm_zero, eip_scanner_shm_zero), mw_kern = kern_empty\<rparr>"

definition adapters_env :: "string \<Rightarrow> string option" where
  "adapters_env = (\<lambda>k. if k = ''SOFTPLC_ADAPTERS'' then Some ''loopback,bacnet'' else None)"

lemma setting_names:
  "qualified_key ''SOFTPLC_ROLE''" "qualified_key ''SOFTPLC_INSTANCE''" "qualified_key ''SOFTPLC_FAILSAFE''"
  "qualified_key ''SOFTPLC_ADAPTERS''"
  by code_simp+

lemma half_known_settings:
  "plc_cfg_str adapters_env \<lparr>g_entries = [], g_path = []\<rparr> ''SOFTPLC_ROLE'' fb = fb"
  "plc_cfg_str adapters_env \<lparr>g_entries = [], g_path = []\<rparr> ''SOFTPLC_INSTANCE'' fb = fb"
  "plc_cfg_str adapters_env \<lparr>g_entries = [], g_path = []\<rparr> ''SOFTPLC_FAILSAFE'' fb = fb"
  "plc_cfg_str adapters_env \<lparr>g_entries = [], g_path = []\<rparr> ''SOFTPLC_ADAPTERS'' None = Some ''loopback,bacnet''"
  by (simp_all add: plc_cfg_str_def qualify_idem setting_names adapters_env_def nonempty_def)

lemma half_known_tokens: "adapter_tokens ''loopback,bacnet'' = [''loopback'', ''bacnet'']"
  by (simp add: adapter_tokens_def snprintf_s_def strtok.simps)

lemma half_known_loop:
  assumes "rt_wf rt" and "bindings rt = []" and "plc_pi_area_size (rt_pi rt) 0 = 256" and "plc_pi_area_size (rt_pi rt) 1 = 256"
  shows "\<exists>out s. adapter_loop demo_registry (\<lambda>_. 1000) inst policy [''loopback'', ''bacnet''] \<lparr>ap_rt = rt, ap_ads = ads,
      ap_opened = [], ap_created = [], ap_destroyed = [], ap_i_offset = 0, ap_q_offset = 0\<rparr> = (False, out, s)
    \<and> ap_created s = [0]"
  using assms
  by (simp add: demo_registry_def plc_adapter_register_builtins_def plc_adapter_registry_add_def
      plc_adapter_registry_find_def loopback_factory_def loopback_maker_def open_adapter_def bind_next_def
      plc_adapter_open_def lb_create_def kLoopbackVtbl_def lb_open_def plc_adapter_config_init_def
      plc_runtime_bind_adapter_def plc_adapter_get_caps_def Let_def lb_caps_def)

lemma half_known_ends:
  "\<exists>e. softplc_main half_known_world (\<lparr>g_entries = [], g_path = []\<rparr>, \<lparr>g_level = 2, g_component = []\<rparr>) 9 = Some e
    \<and> en_code e = EXIT_FAILURE \<and> en_created e = [0]"
proof -
  let ?c = "\<lparr>g_entries = [], g_path = []\<rparr> :: config"
  define cfg where "cfg = plc_runtime_config_init\<lparr>cycle_us := plc_cfg_u32 adapters_env ?c ''SOFTPLC_CYCLE_US'' 10000\<rparr>"
  obtain rt :: "demo_mem plc_runtime" where rt: "plc_runtime_create True (\<lambda>_. True) True 9 cfg = (14, Some rt)"
    "rt_wf rt" "bindings rt = []" "plc_pi_area_size (rt_pi rt) 0 = 256" "plc_pi_area_size (rt_pi rt) 1 = 256"
    by (simp add: plc_runtime_create_def plc_pi_init_def pi_zero_def rt_wf_def cfg_def
      plc_runtime_config_init_def pi_wf_def plc_pi_area_size_def area_ok_def)
  obtain l where boot: "plc_config_bootstrap adapters_env (\<lambda>_. Fopen_fails True []) True ''softplc''
      (?c, \<lparr>g_level = 2, g_component = []\<rparr>) = (0, ?c, l)"
    by (simp add: plc_config_bootstrap_def plc_config_init_def plc_config_load_def adapters_env_def nonempty_def
        PLC_CONFIG_DEFAULT_PATH_def Let_def)
  have w: "mw_getenv half_known_world = adapters_env" "mw_fs half_known_world = (\<lambda>_. Fopen_fails True [])"
    "mw_alloc half_known_world" "mw_args half_known_world = [''softplc'']" "\<not> mw_with_eip half_known_world"
    "\<not> mw_with_scanner half_known_world" "mw_rt_alloc half_known_world = (True, \<lambda>_. True, True)"
    "mw_makers half_known_world = (loopback_maker, loopback_maker, loopback_maker)"
    "mw_open_env half_known_world = (\<lambda>_. 1000)"
    by (simp_all add: half_known_world_def adapters_env_def)
  have role: "plc_adapter_role_adapters False False (Some ''none'') = Some ''loopback''"
    by (simp add: plc_adapter_role_adapters_def kRoles_def)
  have "\<exists>e. app_run half_known_world ?c demo_registry ''loopback'' 14 rt = Some e
      \<and> en_code e = EXIT_FAILURE \<and> en_created e = [0]"
    using half_known_loop [OF rt(2-5), of "''default''" PLC_FAILSAFE_HOLD "mw_store half_known_world"]
    by (auto simp: app_run_def w half_known_settings half_known_tokens Let_def app_finish_def
        simp del: adapter_loop.simps)
  moreover have "cycle_us plc_runtime_config_init = 10000" by (simp add: plc_runtime_config_init_def)
  ultimately show ?thesis
    using boot rt(1)
    by (simp add: softplc_main_def w app_options_def half_known_settings role Let_def
        flip: demo_registry_def cfg_def)
qed

theorem softplc_cleans_up_witness:
  "\<exists>e. softplc_main half_known_world (\<lparr>g_entries = [], g_path = []\<rparr>, \<lparr>g_level = 2, g_component = []\<rparr>) 9 = Some e
    \<and> en_heap e = 9 \<and> set (en_destroyed e) = {0}"
  using half_known_ends softplc_cleans_up by fastforce

text \<open>
  A stop requested before the task starts is forgotten: \<open>plc_runtime_run\<close> clears the flag first.
  The signal handlers are installed before it is called.
\<close>

lemma early_stop_lost:
  "plc_runtime_run max_scans start its (plc_runtime_request_stop rt, s) = plc_runtime_run max_scans start its (rt, s)"
  by (simp add: plc_runtime_run_def plc_runtime_request_stop_def Let_def)

end
