(* ===== verification/Spec2Isabelle.thy ===== *)
theory Spec2Isabelle
  imports Plc_Types Process_Image Std_FB Spsc_Concurrent Loopback_Adapter Plc_Runtime Adapter_Registry
    Eip_Service Opener_Backend Scanner_Mirror Eipscanner_Backend Scanner_System Demo_Program Softplc_Status
    Softplc_Main
begin

text \<open>
  Verification of the soft PLC. Paths are relative to \<open>src/\<close>; files of the program proper are
  under \<open>src/src/\<close>, their headers under \<open>src/include/softplc/\<close>.

  \<^bold>\<open>The program.\<close> A core process (\<open>app/softplc_main.c\<close>) runs a cyclic task: every scan exchanges
  process data with the bound protocol adapters, runs the control programs on the process image
  and latches the outputs. A protocol stack never runs inside the core. The core owns a proxy per
  stack, and the stack lives in a process of its own. The two share one memory region with two
  rings of frames, one per direction, and two semaphores. An adapter process answers the core as
  an EtherNet/IP target, a scanner process as an EtherNet/IP originator of up to sixteen devices.
  Either side may die, stall or be restarted at any moment, and the core must go on with a whole
  input image all the same. That is what most of the theorems are about.

  \<^bold>\<open>Theories and sources.\<close>
  \<^item> \<open>Plc_Prelude\<close>: C integers as words, byte buffers, the slices that \<open>memcpy\<close> and \<open>memset\<close> write,
    and the shared lemmas and named collections.
  \<^item> \<open>Plc_Types\<close>: \<open>plc_status.h\<close>, \<open>core/plc_types.c\<close>.
  \<^item> \<open>Process_Image\<close>: \<open>core/process_image.c\<close>. The state is the record of the three areas; one function
    per accessor. The locale \<open>checked_cell\<close> is the contract of a range-checked cell of any width.
  \<^item> \<open>Std_FB\<close>: \<open>core/std_fb.c\<close>, a record and a step per function block. The locale
    \<open>saturating_timer\<close> is what the three timers have in common.
  \<^item> \<open>Plc_Config\<close>: \<open>core/plc_config.c\<close> and the decisions of \<open>core/plc_log.c\<close>.
  \<^item> \<open>Spsc_Ring\<close>: \<open>ipc/spsc_ring.c\<close>, each operation as a step; the locale \<open>bounded_fifo\<close> is the queue
    it implements. \<open>Spsc_Concurrent\<close>: the same code as single memory accesses of two processes
    that interleave and crash.
  \<^item> \<open>Shm_Ipc\<close>: \<open>ipc/shm.c\<close> over a model of the kernel objects it uses.
  \<^item> \<open>Protocol_Adapter\<close>: \<open>core/protocol_adapter.c\<close>. The locale \<open>io_adapter\<close> is the contract between the
    core and a stack. \<open>Loopback_Adapter\<close>, \<open>Eip_Proxy\<close> and \<open>Scanner_Proxy\<close> interpret it.
  \<^item> \<open>Loopback_Adapter\<close>: \<open>adapters/loopback/loopback_adapter.c\<close>.
  \<^item> \<open>Adapter_Registry\<close>: \<open>core/adapter_registry.c\<close> and \<open>adapters/builtins.c\<close>; the locale
    \<open>keyed_registry\<close> is the table by name.
  \<^item> \<open>Plc_Runtime\<close>: \<open>core/plc_runtime.c\<close>, over a store of adapters.
  \<^item> \<open>Eip_Layout\<close>, \<open>Eip_Proxy\<close>, \<open>Eip_Service\<close>: \<open>adapters/eip/eip_shm_layout.h\<close>, \<open>eip_names.c\<close>,
    \<open>eip_adapter_proxy.c\<close>, \<open>eip_adapter_main.c\<close> and \<open>eip_backend_loopback.c\<close>. The locale \<open>eip_stack\<close>
    is what the adapter process needs of a backend.
  \<^item> \<open>Opener_Backend\<close>: \<open>adapters/eip/eip_backend_opener.c\<close>, the backend on the OpENer stack.
  \<^item> \<open>Scanner_Layout\<close>, \<open>Scanner_Config\<close>, \<open>Scanner_Proxy\<close>, \<open>Scanner_Service\<close>: the files of the same
    purpose in \<open>adapters/eip_scanner/\<close>, with the device table. The locale \<open>originator_stack\<close> is what
    the scanner process needs of a backend.
  \<^item> \<open>Scanner_Mirror\<close>, \<open>Eipscanner_Backend\<close>: \<open>eip_scanner_backend_mirror.cpp\<close> and
    \<open>eip_scanner_backend_eipscanner.cpp\<close>. \<open>Scanner_System\<close> composes proxy, process and backend.
  \<^item> \<open>Demo_Program\<close>: \<open>examples/demo_program.c\<close>, as a program of the runtime.
  \<^item> \<open>Softplc_Main\<close>, \<open>Softplc_Status\<close>: \<open>app/softplc_main.c\<close> and \<open>app/softplc_status.c\<close>.

  \<^bold>\<open>What is proved.\<close>
  \<^item> Data path. The ring refines a bounded queue and stays correct under every interleaving of its
    single accesses and every crash; a pop is memory safe whatever a peer wrote. After an exchange
    the core has a whole input image on every branch: the reply to its own request, the held
    image, or the failsafe policy. A reply within the budget is found. Core, rings, process and
    backend together deliver inputs and outputs, for the mirror backend and for the scanner.
  \<^item> Devices. In every interleaving of the scanner's two threads a device that is reported online
    shows data of its current connection; its image never steps back in the sequence of its
    frames, across the wrap of the count; each device has its own slice of both images, because
    every accepted device table tiles them.
  \<^item> Execution. The task returns after the scans it was asked for and its deadlines are at least a
    period apart; the timers, counters and the demo interlock are exact over any run of inputs.
  \<^item> Resources. Opening and creating are all or nothing, closing releases what was opened, a region
    with a live owner is never taken over, the core process destroys every adapter on every way out,
    and starts and stops of the OpENer stack alternate.
  \<^item> Text. Settings files and device tables written out and parsed again are the same tables.

  \<^bold>\<open>How the outside is modelled.\<close> Everything a function learns from outside is an argument: clock
  readings, results of system calls, what the peer has put into the rings at each access, answers
  of the OpENer and EIPScanner libraries, and what another thread does between two calls
  (\<open>tk_net\<close>). The theorems quantify over all of it, subject to the stated hypotheses. Signals are
  the stop flags of the rounds of a loop.

  \<^bold>\<open>Loops and bounds.\<close> No function has a numeric fuel. A loop whose length the code fixes is structural
  recursion or has a termination proof. A loop that waits for the outside world recurses over the
  list of its rounds (iterations of the task, wake-ups of a wait, ticks of a service, attempts to
  attach) and is \<open>None\<close> when the list ends before the loop does: it is still running. The
  theorems that a loop returns state how many rounds are enough, and the safety theorems hold of
  lists of any length. Sizes are those of the code: 4 slots, 496 payload bytes, 8 bindings, 64
  settings, 16 devices.

  \<^bold>\<open>Not modelled.\<close>
  \<^item> The OpENer and EIPScanner libraries and the patches to them: third-party code, not part of the
    sources; \<open>opener_user_conf.h\<close> only sets compile-time constants of OpENer.
  \<^item> In \<open>eip_backend_opener.c\<close> the allocator call-backs, the empty call-backs and the body of the
    stack thread, which only calls OpENer.
  \<^item> The formatting of log lines and their output. What is printed on standard output by the core
    process and the status probe is modelled.
  \<^item> Memory below the level of sequentially consistent single accesses. The acquire and release
    accesses to the cursors are what justifies the interleaving model of \<open>Spsc_Concurrent\<close>.
  \<^item> The byte layout of a shared region, apart from its size: a region is a record.
  \<^item> Undefined behaviour of C, apart from what the facts on lengths, indices and the
    representability of sums exclude.
  \<^item> The scripts in \<open>docker/\<close> and \<open>tools/\<close>, and the test instruments in \<open>tools/\<close>, which observe the
    program from outside.
\<close>

end
